(* ===== verification/Prelude.thy ===== *)
theory Prelude
  imports Main "HOL-Library.Word" "HOL-Library.Monad_Syntax" "HOL-Library.List_Lexorder"
    "HOL-Library.Char_ord" "HOL-Library.Code_Target_Numeral"
begin

text \<open>
  Shared vocabulary of the development: the machine integers of the Rust sources, the checked
  and saturating operations of the standard library, byte orders, byte strings and UTF-8,
  decimal printing and parsing, and the outcome type used for code that can panic.
  Overflow of the plain operators is modelled as in a release build, where it wraps.
\<close>

named_theorems int_simps \<open>arithmetic of the machine integers, read through unat\<close>
named_theorems byte_simps \<open>lengths and round trips of the byte encodings\<close>
named_theorems str_simps \<open>byte strings, UTF-8 and decimal text\<close>

section \<open>Machine integers\<close>

type_synonym u8 = "8 word"
type_synonym u16 = "16 word"
type_synonym u32 = "32 word"
type_synonym u64 = "64 word"
type_synonym u128 = "128 word"

text \<open>\<open>checked_add\<close>, \<open>saturating_add\<close>, \<open>saturating_sub\<close> and
  \<open>saturating_mul\<close> of the standard library.\<close>

definition checked_add :: "'a::len word \<Rightarrow> 'a word \<Rightarrow> 'a word option" where
  "checked_add a b = (if unat a + unat b < 2 ^ LENGTH('a) then Some (a + b) else None)"

definition saturating_add :: "'a::len word \<Rightarrow> 'a word \<Rightarrow> 'a word" where
  "saturating_add a b = (if unat a + unat b < 2 ^ LENGTH('a) then a + b else - 1)"

definition saturating_sub :: "'a::len word \<Rightarrow> 'a word \<Rightarrow> 'a word" where
  "saturating_sub a b = (if b \<le> a then a - b else 0)"

definition saturating_mul :: "'a::len word \<Rightarrow> 'a word \<Rightarrow> 'a word" where
  "saturating_mul a b = (if unat a * unat b < 2 ^ LENGTH('a) then a * b else - 1)"

lemma checked_add_Some_iff:
  fixes a b c :: "'a::len word"
  shows "checked_add a b = Some c \<longleftrightarrow> unat a + unat b < 2 ^ LENGTH('a) \<and> c = a + b"
  by (auto simp: checked_add_def)

lemma unat_plus_small [int_simps]:
  fixes a b :: "'a::len word"
  shows "unat a + unat b < 2 ^ LENGTH('a) \<Longrightarrow> unat (a + b) = unat a + unat b"
  by (simp add: unat_add_lem)

lemma unat_checked_add [int_simps]:
  "checked_add a b = Some c \<Longrightarrow> unat c = unat a + unat b"
  by (auto simp: checked_add_Some_iff unat_plus_small)

lemma unat_minus_le [int_simps]:
  fixes a b :: "'a::len word"
  shows "b \<le> a \<Longrightarrow> unat (a - b) = unat a - unat b"
  by (simp add: unat_sub_if_size word_le_nat_alt)

lemma unat_saturating_sub [int_simps]: "unat (saturating_sub a b) = unat a - unat b"
  by (auto simp: saturating_sub_def unat_minus_le word_le_nat_alt)

lemma unat_saturating_add:
  fixes a b :: "'a::len word"
  shows "unat (saturating_add a b) = min (unat a + unat b) (2 ^ LENGTH('a) - 1)"
  by (auto simp: saturating_add_def unat_plus_small unsigned_minus_1_eq_mask mask_eq_exp_minus_1)

lemma unat_saturating_mul:
  fixes a b :: "'a::len word"
  shows "unat (saturating_mul a b) = min (unat a * unat b) (2 ^ LENGTH('a) - 1)"
proof (cases "unat a * unat b < 2 ^ LENGTH('a)")
  case True
  then have "unat (a * b) = unat a * unat b" by (simp add: unat_mult_lem)
  with True show ?thesis by (simp add: saturating_mul_def)
next
  case False
  then show ?thesis by (simp add: saturating_mul_def unsigned_minus_1_eq_mask mask_eq_exp_minus_1)
qed

lemma unat_bound [simp]:
  fixes w :: "'a::len word"
  shows "unat w < 2 ^ LENGTH('a)"
  by (rule unsigned_less)

lemma u64_bound [simp]: "unat (w :: u64) < 18446744073709551616"
  using unsigned_less [of w] by simp

lemma u64_le: "unat (w :: u64) \<le> 2 ^ 64 - 1"
proof -
  have "unat w < 18446744073709551616" by (rule u64_bound)
  then have "unat w \<le> 18446744073709551615" by linarith
  then show ?thesis by simp
qed

lemma u128_bound [simp]: "unat (w :: u128) < 340282366920938463463374607431768211456"
  using unsigned_less [of w] by simp

lemma unat_of_nat_small:
  "n < 2 ^ LENGTH('a::len) \<Longrightarrow> unat (word_of_nat n :: 'a word) = n"
  by (simp add: unat_of_nat)

lemma unat_ucast_u64_u128 [int_simps]: "unat (ucast (w :: u64) :: u128) = unat w"
proof -
  have "unat w < 2 ^ LENGTH(128)" by (rule less_trans [OF u64_bound]) simp
  then show ?thesis by (simp add: unsigned_ucast_eq take_bit_nat_eq_self)
qed

text \<open>Rust shifts by a variable amount mask the amount to the width in a release build.\<close>

definition shr_u128 :: "u128 \<Rightarrow> u64 \<Rightarrow> u128" where
  "shr_u128 a n = drop_bit (unat n mod 128) a"

lemma unat_shr_u128: "unat (shr_u128 a n) = unat a div 2 ^ (unat n mod 128)"
  unfolding shr_u128_def
  by (subst unat_drop_bit_eq) (simp add: drop_bit_eq_div)

section \<open>Byte orders\<close>

text \<open>\<open>to_le_bytes\<close>, \<open>to_be_bytes\<close> and their inverses, through the
  numeral they spell.\<close>

fun le_nat :: "nat \<Rightarrow> nat \<Rightarrow> u8 list" where
  "le_nat 0 m = []"
| "le_nat (Suc n) m = word_of_nat m # le_nat n (m div 256)"

fun nat_le :: "u8 list \<Rightarrow> nat" where
  "nat_le [] = 0"
| "nat_le (b # bs) = unat b + 256 * nat_le bs"

definition u32_to_le_bytes :: "u32 \<Rightarrow> u8 list" where
  "u32_to_le_bytes w = le_nat 4 (unat w)"

definition u32_to_be_bytes :: "u32 \<Rightarrow> u8 list" where
  "u32_to_be_bytes w = rev (le_nat 4 (unat w))"

definition u64_to_le_bytes :: "u64 \<Rightarrow> u8 list" where
  "u64_to_le_bytes w = le_nat 8 (unat w)"

definition u64_to_be_bytes :: "u64 \<Rightarrow> u8 list" where
  "u64_to_be_bytes w = rev (le_nat 8 (unat w))"

definition u128_to_le_bytes :: "u128 \<Rightarrow> u8 list" where
  "u128_to_le_bytes w = le_nat 16 (unat w)"

definition u64_from_be_bytes :: "u8 list \<Rightarrow> u64" where
  "u64_from_be_bytes bs = word_of_nat (nat_le (rev bs))"

lemma length_le_nat [simp, byte_simps]: "length (le_nat n m) = n"
  by (induction n arbitrary: m) auto

lemma length_u32_to_le_bytes [simp]: "length (u32_to_le_bytes w) = 4"
  by (simp add: u32_to_le_bytes_def)

lemma length_u32_to_be_bytes [simp]: "length (u32_to_be_bytes w) = 4"
  by (simp add: u32_to_be_bytes_def)

lemma length_u64_to_le_bytes [simp]: "length (u64_to_le_bytes w) = 8"
  by (simp add: u64_to_le_bytes_def)

lemma length_u64_to_be_bytes [simp]: "length (u64_to_be_bytes w) = 8"
  by (simp add: u64_to_be_bytes_def)

lemma length_u128_to_le_bytes [simp]: "length (u128_to_le_bytes w) = 16"
  by (simp add: u128_to_le_bytes_def)

lemma nat_le_le_nat: "nat_le (le_nat n m) = m mod 256 ^ n"
proof (induction n arbitrary: m)
  case 0
  then show ?case by simp
next
  case (Suc n)
  have "unat (word_of_nat m :: u8) = m mod 256"
    by (simp add: unat_of_nat)
  moreover have "m mod (256 * 256 ^ n) = 256 * (m div 256 mod 256 ^ n) + m mod 256"
    by (rule mod_mult2_eq)
  ultimately show ?case using Suc by simp
qed

lemma le_nat_nat_le: "le_nat (length bs) (nat_le bs) = bs"
proof (induction bs)
  case Nil
  then show ?case by simp
next
  case (Cons b bs)
  have b: "unat b < 256" using unsigned_less [of b] by simp
  have "(unat b + 256 * nat_le bs) div 256 = nat_le bs" using b by simp
  moreover have "(word_of_nat (unat b + 256 * nat_le bs) :: u8) = b"
  proof -
    have "unat (word_of_nat (unat b + 256 * nat_le bs) :: u8) = unat b"
      using b by (simp only: unat_of_nat) simp
    then show ?thesis by (simp add: word_unat_eq_iff)
  qed
  ultimately show ?case using Cons by simp
qed

lemma nat_le_less: "nat_le bs < 256 ^ length bs"
proof (induction bs)
  case Nil
  then show ?case by simp
next
  case (Cons b bs)
  have "unat b < 256" using unsigned_less [of b] by simp
  with Cons show ?case by simp
qed

lemma le_nat_inject:
  assumes "le_nat n a = le_nat n b" "a < 256 ^ n" "b < 256 ^ n"
  shows "a = b"
proof -
  have "nat_le (le_nat n a) = nat_le (le_nat n b)" using assms(1) by simp
  with assms(2,3) show ?thesis by (simp add: nat_le_le_nat)
qed

lemma u64_to_le_bytes_inject [simp]: "u64_to_le_bytes a = u64_to_le_bytes b \<longleftrightarrow> a = b"
proof
  assume "u64_to_le_bytes a = u64_to_le_bytes b"
  then have "unat a = unat b"
    unfolding u64_to_le_bytes_def by (rule le_nat_inject) simp_all
  then show "a = b" by (simp add: word_unat_eq_iff)
qed simp

lemma u64_to_be_bytes_inject [simp]: "u64_to_be_bytes a = u64_to_be_bytes b \<longleftrightarrow> a = b"
  using u64_to_le_bytes_inject [of a b] by (simp add: u64_to_be_bytes_def u64_to_le_bytes_def)

lemma u128_to_le_bytes_inject [simp]: "u128_to_le_bytes a = u128_to_le_bytes b \<longleftrightarrow> a = b"
proof
  assume "u128_to_le_bytes a = u128_to_le_bytes b"
  then have "unat a = unat b"
    unfolding u128_to_le_bytes_def by (rule le_nat_inject) simp_all
  then show "a = b" by (simp add: word_unat_eq_iff)
qed simp

lemma u64_from_to_be_bytes [simp, byte_simps]: "u64_from_be_bytes (u64_to_be_bytes w) = w"
proof -
  have "nat_le (le_nat 8 (unat w)) = unat w"
    using u64_bound [of w] by (simp add: nat_le_le_nat)
  then show ?thesis by (simp add: u64_from_be_bytes_def u64_to_be_bytes_def)
qed

lemma u64_to_from_be_bytes:
  assumes "length bs = 8"
  shows "u64_to_be_bytes (u64_from_be_bytes bs) = bs"
proof -
  have "nat_le (rev bs) < 2 ^ 64" using nat_le_less [of "rev bs"] assms by simp
  then have "unat (word_of_nat (nat_le (rev bs)) :: u64) = nat_le (rev bs)"
    by (simp add: unat_of_nat)
  moreover have "le_nat 8 (nat_le (rev bs)) = rev bs"
    using le_nat_nat_le [of "rev bs"] assms by simp
  ultimately show ?thesis by (simp add: u64_from_be_bytes_def u64_to_be_bytes_def)
qed

text \<open>Slices of equal length compare, in the lexicographic order of \<open>[u8]\<close>, as the
  big-endian numerals they spell.\<close>

lemma lex_le_iff_numeral:
  "length xs = length ys \<Longrightarrow> xs \<le> ys \<longleftrightarrow> nat_le (rev xs) \<le> nat_le (rev ys)"
proof (induction xs ys rule: list_induct2)
  case Nil
  then show ?case by simp
next
  case (Cons x xs y ys)
  have snoc: "nat_le (as @ [b]) = nat_le as + 256 ^ length as * unat b" for as :: "u8 list" and b
    by (induction as) (simp_all add: algebra_simps)
  let ?p = "256 ^ length xs :: nat"
  have less: "nat_le (rev xs) < ?p" "nat_le (rev ys) < ?p"
    using nat_le_less [of "rev xs"] nat_le_less [of "rev ys"] Cons.hyps by simp_all
  have step: "a + ?p * unat x < b + ?p * unat y" if "unat x < unat y" "a < ?p" for a b
  proof -
    have "?p * (unat x + 1) \<le> ?p * unat y" using that(1) by (intro mult_le_mono2) simp
    then show ?thesis using that(2) by simp
  qed
  have step': "b + ?p * unat y < a + ?p * unat x" if "unat y < unat x" "b < ?p" for a b
  proof -
    have "?p * (unat y + 1) \<le> ?p * unat x" using that(1) by (intro mult_le_mono2) simp
    then show ?thesis using that(2) by simp
  qed
  show ?case
  proof (cases x y rule: linorder_cases)
    case less
    then have "unat x < unat y" by (simp add: word_less_nat_alt)
    then show ?thesis using less step [OF _ \<open>nat_le (rev xs) < ?p\<close>] Cons.hyps
      by (simp add: snoc less_imp_le)
  next
    case equal
    then show ?thesis using Cons by (simp add: snoc)
  next
    case greater
    then have u: "unat y < unat x" by (simp add: word_less_nat_alt)
    have "\<not> x # xs \<le> y # ys" using greater by auto
    moreover have "nat_le (rev ys) + ?p * unat y < nat_le (rev xs) + ?p * unat x"
      using u \<open>nat_le (rev ys) < ?p\<close> by (rule step')
    ultimately show ?thesis using Cons.hyps by (simp add: snoc)
  qed
qed

section \<open>Byte strings\<close>

text \<open>A Rust \<open>String\<close> is a sequence of bytes that is well-formed UTF-8. It is modelled
  as a \<open>string\<close>, one character per byte, so \<open>length\<close> is \<open>String::len\<close> and the
  order of lists is the order of \<open>str\<close>.\<close>

definition as_bytes :: "string \<Rightarrow> u8 list" where
  "as_bytes s = map of_char s"

definition string_of_bytes :: "u8 list \<Rightarrow> string" where
  "string_of_bytes bs = map (\<lambda>b. char_of (unat b)) bs"

definition utf8_cont :: "u8 \<Rightarrow> bool" where
  "utf8_cont b = (128 \<le> b \<and> b \<le> 191)"

text \<open>The well-formed byte sequences of UTF-8, as \<open>core::str::from_utf8\<close> accepts them.\<close>

fun utf8_valid :: "u8 list \<Rightarrow> bool" where
  "utf8_valid [] = True"
| "utf8_valid (a # bs) =
     (if a < 128 then utf8_valid bs
      else (case bs of
          b # r1 \<Rightarrow>
            (if 194 \<le> a \<and> a \<le> 223 then utf8_cont b \<and> utf8_valid r1
             else (case r1 of
                 c # r2 \<Rightarrow>
                   (if a = 224 then 160 \<le> b \<and> b \<le> 191 \<and> utf8_cont c \<and> utf8_valid r2
                    else if a = 237 then 128 \<le> b \<and> b \<le> 159 \<and> utf8_cont c \<and> utf8_valid r2
                    else if 225 \<le> a \<and> a \<le> 239 then utf8_cont b \<and> utf8_cont c \<and> utf8_valid r2
                    else (case r2 of
                        d # r3 \<Rightarrow>
                          (if a = 240 then 144 \<le> b \<and> b \<le> 191
                           else if a = 244 then 128 \<le> b \<and> b \<le> 143
                           else 241 \<le> a \<and> a \<le> 243 \<and> utf8_cont b) \<and>
                          utf8_cont c \<and> utf8_cont d \<and> utf8_valid r3
                      | [] \<Rightarrow> False))
               | [] \<Rightarrow> False))
        | [] \<Rightarrow> False))"

definition from_utf8 :: "u8 list \<Rightarrow> string option" where
  "from_utf8 bs = (if utf8_valid bs then Some (string_of_bytes bs) else None)"

text \<open>The typing invariant of \<open>String\<close>.\<close>

definition valid_str :: "string \<Rightarrow> bool" where
  "valid_str s = utf8_valid (as_bytes s)"

lemma length_as_bytes [simp]: "length (as_bytes s) = length s"
  by (simp add: as_bytes_def)

lemma char_of_unat_of_char [simp]: "char_of (unat (of_char c :: u8)) = c"
proof -
  have "(of_char c :: nat) < 256" by (simp add: of_char_def)
  moreover have "(of_char c :: u8) = word_of_nat (of_char c)" by (simp add: of_nat_of_char)
  ultimately have "unat (of_char c :: u8) = of_char c" by (simp add: unat_of_nat)
  then show ?thesis by simp
qed

lemma string_of_as_bytes [simp, str_simps]: "string_of_bytes (as_bytes s) = s"
  by (simp add: string_of_bytes_def as_bytes_def o_def)

lemma as_bytes_inject [simp]: "as_bytes s = as_bytes t \<longleftrightarrow> s = t"
  using string_of_as_bytes by metis

lemma as_bytes_append [simp]: "as_bytes (s @ t) = as_bytes s @ as_bytes t"
  by (simp add: as_bytes_def)

lemma from_utf8_as_bytes [str_simps]: "valid_str s \<Longrightarrow> from_utf8 (as_bytes s) = Some s"
  by (simp add: from_utf8_def valid_str_def)

definition is_ascii :: "string \<Rightarrow> bool" where
  "is_ascii s = list_all (\<lambda>b. b < 128) (as_bytes s)"

lemma utf8_valid_ascii: "list_all (\<lambda>b. b < 128) bs \<Longrightarrow> utf8_valid bs"
  by (induction bs) auto

lemma valid_str_ascii: "is_ascii s \<Longrightarrow> valid_str s"
  by (simp add: is_ascii_def valid_str_def utf8_valid_ascii)

text \<open>\<open>str::strip_prefix\<close>.\<close>

fun strip_prefix :: "string \<Rightarrow> string \<Rightarrow> string option" where
  "strip_prefix [] s = Some s"
| "strip_prefix (p # ps) [] = None"
| "strip_prefix (p # ps) (c # cs) = (if p = c then strip_prefix ps cs else None)"

lemma strip_prefix_append [simp]: "strip_prefix p (p @ s) = Some s"
  by (induction p) auto

lemma strip_prefix_Some: "strip_prefix p s = Some r \<longleftrightarrow> s = p @ r"
  by (induction p s rule: strip_prefix.induct) auto

section \<open>Decimal text\<close>

definition digit_char :: "nat \<Rightarrow> char" where
  "digit_char d = char_of (48 + d)"

fun dec_of_nat :: "nat \<Rightarrow> string" where
  "dec_of_nat n =
     (if n < 10 then [digit_char n] else dec_of_nat (n div 10) @ [digit_char (n mod 10)])"

declare dec_of_nat.simps [simp del]

text \<open>\<open>u64::to_string\<close>, and \<open>str::parse::<u64>\<close>: an optional plus sign, at least
  one digit, no overflow.\<close>

definition u64_to_string :: "u64 \<Rightarrow> string" where
  "u64_to_string n = dec_of_nat (unat n)"

definition digit_of_char :: "char \<Rightarrow> nat option" where
  "digit_of_char c = (let k = of_char c :: nat in if 48 \<le> k \<and> k \<le> 57 then Some (k - 48) else None)"

fun parse_digits :: "nat \<Rightarrow> string \<Rightarrow> nat option" where
  "parse_digits acc [] = Some acc"
| "parse_digits acc (c # cs) =
     (case digit_of_char c of
        None \<Rightarrow> None
      | Some d \<Rightarrow> (let acc' = 10 * acc + d in
          if acc' < 2 ^ 64 then parse_digits acc' cs else None))"

definition parse_u64 :: "string \<Rightarrow> u64 option" where
  "parse_u64 s =
     (let ds = (case s of c # cs \<Rightarrow> (if c = CHR ''+'' then cs else s) | [] \<Rightarrow> s)
      in if ds = [] then None else map_option word_of_nat (parse_digits 0 ds))"

lemma digit_of_digit_char: "d < 10 \<Longrightarrow> digit_of_char (digit_char d) = Some d"
  by (simp add: digit_of_char_def digit_char_def)

lemma parse_digits_append:
  "parse_digits acc (xs @ ys) =
     (case parse_digits acc xs of None \<Rightarrow> None | Some a \<Rightarrow> parse_digits a ys)"
  by (induction xs arbitrary: acc) (auto split: option.splits simp: Let_def)

lemma parse_digits_dec: "n < 2 ^ 64 \<Longrightarrow> parse_digits 0 (dec_of_nat n) = Some n"
proof (induction n rule: dec_of_nat.induct)
  case (1 n)
  show ?case
  proof (cases "n < 10")
    case True
    then show ?thesis by (simp add: dec_of_nat.simps [of n] digit_of_digit_char)
  next
    case False
    have "parse_digits 0 (dec_of_nat (n div 10)) = Some (n div 10)"
      using 1 False by simp
    moreover have "10 * (n div 10) + n mod 10 = n" by simp
    ultimately show ?thesis
      using False 1(2) by (simp add: dec_of_nat.simps [of n] parse_digits_append digit_of_digit_char)
  qed
qed

lemma dec_of_nat_nonempty [simp]: "dec_of_nat n \<noteq> []"
  by (simp add: dec_of_nat.simps [of n])

lemma of_char_digit_char: "d < 10 \<Longrightarrow> of_char (digit_char d) = 48 + d"
  by (simp add: digit_char_def)

lemma set_dec_of_nat: "c \<in> set (dec_of_nat n) \<Longrightarrow> \<exists>d<10. c = digit_char d"
proof (induction n rule: dec_of_nat.induct)
  case (1 n)
  show ?case
  proof (cases "n < 10")
    case True
    with 1(2) show ?thesis by (auto simp: dec_of_nat.simps [of n])
  next
    case False
    have m: "n mod 10 < 10" by simp
    have "c = digit_char (n mod 10) \<or> c \<in> set (dec_of_nat (n div 10))"
      using 1(2) False by (auto simp: dec_of_nat.simps [of n])
    then show ?thesis using 1(1) False m by blast
  qed
qed

lemma digit_char_not_plus: "d < 10 \<Longrightarrow> digit_char d \<noteq> CHR ''+''"
proof
  assume "d < 10" "digit_char d = CHR ''+''"
  then have "of_char (CHR ''+'') = (48 + d :: nat)" using of_char_digit_char [of d] by simp
  then show False by simp
qed

lemma parse_u64_to_string [simp, str_simps]: "parse_u64 (u64_to_string n) = Some n"
proof -
  obtain c cs where s: "dec_of_nat (unat n) = c # cs"
    by (cases "dec_of_nat (unat n)") auto
  then have "c \<in> set (dec_of_nat (unat n))" by simp
  then obtain d where "d < 10" "c = digit_char d" using set_dec_of_nat by metis
  then have "c \<noteq> CHR ''+''" using digit_char_not_plus by simp
  moreover have "parse_digits 0 (c # cs) = Some (unat n)"
    using parse_digits_dec [of "unat n"] s by simp
  ultimately show ?thesis
    by (simp add: parse_u64_def u64_to_string_def s del: parse_digits.simps)
qed

lemma u64_to_string_inject [simp]: "u64_to_string a = u64_to_string b \<longleftrightarrow> a = b"
  using parse_u64_to_string by (metis option.inject)

lemma is_ascii_u64_to_string: "is_ascii (u64_to_string n)"
proof -
  have "of_char c < (128 :: u8)" if c: "c \<in> set (dec_of_nat m)" for c m
  proof -
    obtain d where d: "d < 10" "c = digit_char d" using set_dec_of_nat [OF c] by metis
    have "(of_char c :: u8) = word_of_nat (of_char c)" by (simp add: of_nat_of_char)
    also have "\<dots> = word_of_nat (48 + d)" using d of_char_digit_char by simp
    finally have "unat (of_char c :: u8) = (48 + d) mod 256" by (simp only: unat_of_nat) simp
    then show ?thesis using d(1) by (simp add: word_less_nat_alt)
  qed
  then show ?thesis
    by (auto simp: is_ascii_def as_bytes_def list_all_iff u64_to_string_def)
qed

lemma valid_str_u64_to_string [simp]: "valid_str (u64_to_string n)"
  by (rule valid_str_ascii) (rule is_ascii_u64_to_string)

section \<open>Outcomes of code that can panic\<close>

text \<open>A computation returns, panics, or (in a model that recurses on fuel) runs out of fuel.\<close>

datatype 'a outcome = Ret 'a | Panic | OutOfFuel

fun bind_outcome :: "'a outcome \<Rightarrow> ('a \<Rightarrow> 'b outcome) \<Rightarrow> 'b outcome" where
  "bind_outcome (Ret a) f = f a"
| "bind_outcome Panic f = Panic"
| "bind_outcome OutOfFuel f = OutOfFuel"

lemma bind_outcome_Ret_iff:
  "bind_outcome m f = Ret b \<longleftrightarrow> (\<exists>a. m = Ret a \<and> f a = Ret b)"
  by (cases m) auto

lemma bind_outcome_OutOfFuel_iff:
  "bind_outcome m f = OutOfFuel \<longleftrightarrow> m = OutOfFuel \<or> (\<exists>a. m = Ret a \<and> f a = OutOfFuel)"
  by (cases m) auto

end
