(* ===== verification/BTree.thy ===== *)
theory BTree
  imports Prelude
begin

text \<open>
  \<open>std::collections::BTreeMap\<close>: an association list with strictly increasing keys, in
  the order in which the map iterates. The interface the chain relies on is the locale
  \<open>ordered_map\<close>; its client lemmas (iteration is determined by the lookups, totals after
  an insertion) are proved once there and reach the model through the interpretation
  \<open>bt\<close>.
\<close>

named_theorems bt_simps \<open>lookups and well-formedness of BTreeMap operations\<close>

type_synonym ('k, 'v) btree = "('k \<times> 'v) list"

section \<open>The operations\<close>

definition bt_lookup :: "('k, 'v) btree \<Rightarrow> 'k \<Rightarrow> 'v option" where
  "bt_lookup m k = map_of m k"

fun bt_insert :: "'k::linorder \<Rightarrow> 'v \<Rightarrow> ('k, 'v) btree \<Rightarrow> ('k, 'v) btree" where
  "bt_insert k v [] = [(k, v)]"
| "bt_insert k v ((a, b) # m) =
     (if k < a then (k, v) # (a, b) # m
      else if k = a then (k, v) # m
      else (a, b) # bt_insert k v m)"

definition bt_remove :: "'k \<Rightarrow> ('k, 'v) btree \<Rightarrow> ('k, 'v) btree" where
  "bt_remove k m = filter (\<lambda>p. fst p \<noteq> k) m"

definition bt_retain :: "('k \<Rightarrow> 'v \<Rightarrow> bool) \<Rightarrow> ('k, 'v) btree \<Rightarrow> ('k, 'v) btree" where
  "bt_retain P m = filter (\<lambda>p. P (fst p) (snd p)) m"

definition bt_entries :: "('k, 'v) btree \<Rightarrow> ('k \<times> 'v) list" where
  "bt_entries m = m"

definition bt_wf :: "('k::linorder, 'v) btree \<Rightarrow> bool" where
  "bt_wf m = sorted_wrt (<) (map fst m)"

text \<open>The sum of the values of a map, read through \<open>f\<close>.\<close>

definition bt_total :: "('v \<Rightarrow> nat) \<Rightarrow> ('k, 'v) btree \<Rightarrow> nat" where
  "bt_total f m = (\<Sum>p\<leftarrow>bt_entries m. f (snd p))"

section \<open>The interface\<close>

lemma sorted_assoc_unique:
  assumes "sorted_wrt (<) (map fst xs)" "sorted_wrt (<) (map fst ys)" "set xs = set ys"
  shows "xs = (ys :: ('k::linorder \<times> 'v) list)"
  using assms
proof (induction xs arbitrary: ys)
  case Nil
  then show ?case by simp
next
  case (Cons x xs)
  then obtain y ys' where ys: "ys = y # ys'" by (cases ys) auto
  have x: "\<forall>p\<in>set xs. fst x < fst p" and y: "\<forall>p\<in>set ys'. fst y < fst p"
    using Cons.prems ys by simp_all
  have "x \<in> set (y # ys')" "y \<in> set (x # xs)" using Cons.prems(3) ys by auto
  then have xy: "x = y" using x y by (metis less_asym set_ConsD)
  have "x \<notin> set xs" "x \<notin> set ys'" using x y xy by auto
  then have "set xs = set ys'" using Cons.prems(3) ys xy by auto
  then show ?case using Cons ys xy by simp
qed

locale ordered_map =
  fixes lookup :: "'m \<Rightarrow> 'k::linorder \<Rightarrow> 'v option"
    and ins :: "'k \<Rightarrow> 'v \<Rightarrow> 'm \<Rightarrow> 'm"
    and del :: "'k \<Rightarrow> 'm \<Rightarrow> 'm"
    and entries :: "'m \<Rightarrow> ('k \<times> 'v) list"
    and invar :: "'m \<Rightarrow> bool"
  assumes lookup_ins: "invar m \<Longrightarrow> lookup (ins k v m) = (lookup m)(k \<mapsto> v)"
    and lookup_del: "invar m \<Longrightarrow> lookup (del k m) = (lookup m)(k := None)"
    and invar_ins: "invar m \<Longrightarrow> invar (ins k v m)"
    and invar_del: "invar m \<Longrightarrow> invar (del k m)"
    and entries_sorted: "invar m \<Longrightarrow> sorted_wrt (<) (map fst (entries m))"
    and entries_lookup: "invar m \<Longrightarrow> map_of (entries m) = lookup m"
begin

lemma distinct_entries: "invar m \<Longrightarrow> distinct (map fst (entries m))"
  using entries_sorted strict_sorted_iff by blast

lemma set_entries: "invar m \<Longrightarrow> (k, v) \<in> set (entries m) \<longleftrightarrow> lookup m k = Some v"
  using map_of_eq_Some_iff [OF distinct_entries] entries_lookup by metis

text \<open>Iteration order is canonical: two maps with the same lookups iterate alike.\<close>

lemma entries_ext:
  assumes "invar m" "invar n" "lookup m = lookup n"
  shows "entries m = entries n"
proof (rule sorted_assoc_unique)
  show "set (entries m) = set (entries n)"
    using assms set_entries by auto
qed (use assms entries_sorted in auto)

text \<open>A filtered iteration depends only on the entries that pass the filter.\<close>

lemma filter_entries_ext:
  assumes "invar m" "invar n"
    and "\<And>k v. P (k, v) \<Longrightarrow> lookup m k = Some v \<longleftrightarrow> lookup n k = Some v"
  shows "filter P (entries m) = filter P (entries n)"
proof (rule sorted_assoc_unique)
  show "set (filter P (entries m)) = set (filter P (entries n))"
    using assms set_entries by auto
qed (use assms(1,2) entries_sorted in \<open>auto simp: sorted_wrt_map intro: sorted_wrt_filter\<close>)

lemma total_as_sum:
  fixes f :: "'v \<Rightarrow> nat"
  assumes "invar m"
  shows "(\<Sum>p\<leftarrow>entries m. f (snd p)) = (\<Sum>k\<in>dom (lookup m). f (the (lookup m k)))"
proof -
  have d: "distinct (map fst (entries m))" using assms by (rule distinct_entries)
  have "(\<Sum>p\<leftarrow>entries m. f (snd p)) = (\<Sum>p\<leftarrow>entries m. f (the (lookup m (fst p))))"
    by (rule arg_cong [where f = sum_list], rule map_cong [OF refl])
      (use set_entries [OF assms] in force)
  also have "\<dots> = (\<Sum>k\<leftarrow>map fst (entries m). f (the (lookup m k)))"
    by (simp add: o_def)
  also have "\<dots> = (\<Sum>k\<in>set (map fst (entries m)). f (the (lookup m k)))"
    using d by (rule sum_list_distinct_conv_sum_set)
  also have "set (map fst (entries m)) = dom (lookup m)"
    using set_entries [OF assms] by force
  finally show ?thesis .
qed

lemma finite_dom: "invar m \<Longrightarrow> finite (dom (lookup m))"
  using entries_lookup finite_dom_map_of by metis

lemma total_ins:
  fixes f :: "'v \<Rightarrow> nat"
  assumes "invar m"
  shows "(\<Sum>p\<leftarrow>entries (ins k v m). f (snd p)) + (case lookup m k of None \<Rightarrow> 0 | Some u \<Rightarrow> f u)
    = (\<Sum>p\<leftarrow>entries m. f (snd p)) + f v"
proof -
  let ?D = "dom (lookup m)"
  have fin: "finite ?D" using assms by (rule finite_dom)
  have new: "(\<Sum>p\<leftarrow>entries (ins k v m). f (snd p)) = f v + (\<Sum>j\<in>?D - {k}. f (the (lookup m j)))"
  proof -
    have "(\<Sum>p\<leftarrow>entries (ins k v m). f (snd p))
        = (\<Sum>j\<in>insert k ?D. f (the (((lookup m)(k \<mapsto> v)) j)))"
      using assms by (simp add: total_as_sum invar_ins lookup_ins)
    also have "\<dots> = f v + (\<Sum>j\<in>?D - {k}. f (the (((lookup m)(k \<mapsto> v)) j)))"
      using fin by (subst sum.insert_remove) simp_all
    also have "(\<Sum>j\<in>?D - {k}. f (the (((lookup m)(k \<mapsto> v)) j)))
        = (\<Sum>j\<in>?D - {k}. f (the (lookup m j)))"
      by (rule sum.cong) auto
    finally show ?thesis .
  qed
  have old: "(\<Sum>p\<leftarrow>entries m. f (snd p))
      = (case lookup m k of None \<Rightarrow> 0 | Some u \<Rightarrow> f u) + (\<Sum>j\<in>?D - {k}. f (the (lookup m j)))"
  proof (cases "lookup m k")
    case None
    then have "k \<notin> ?D" by auto
    then have "?D - {k} = ?D" by simp
    then show ?thesis using None total_as_sum [OF assms, of f] by simp
  next
    case (Some u)
    then have "k \<in> ?D" by auto
    then show ?thesis
      using Some total_as_sum [OF assms, of f] sum.remove [OF fin, of k "\<lambda>j. f (the (lookup m j))"] by simp
  qed
  show ?thesis using new old by simp
qed

end

section \<open>The interpretation\<close>

lemma bt_wf_Nil [simp, bt_simps]: "bt_wf []"
  by (simp add: bt_wf_def)

lemma bt_lookup_Nil [simp, bt_simps]: "bt_lookup [] k = None"
  by (simp add: bt_lookup_def)

lemma fst_bt_insert: "set (map fst (bt_insert k v m)) = insert k (set (map fst m))"
  by (induction k v m rule: bt_insert.induct) auto

lemma bt_wf_insert [simp, bt_simps]: "bt_wf m \<Longrightarrow> bt_wf (bt_insert k v m)"
proof (induction k v m rule: bt_insert.induct)
  case (1 k v)
  then show ?case by (simp add: bt_wf_def)
next
  case (2 k v a b m)
  have "bt_wf m" using 2 by (simp add: bt_wf_def)
  then have rec: "a < k \<Longrightarrow> bt_wf (bt_insert k v m)" using 2(1) by auto
  show ?case
  proof (cases k a rule: linorder_cases)
    case less
    then show ?thesis using 2(2) by (force simp: bt_wf_def)
  next
    case equal
    then show ?thesis using 2(2) by (simp add: bt_wf_def)
  next
    case greater
    have "\<forall>j\<in>set (map fst (bt_insert k v m)). a < j"
      using 2(2) greater unfolding fst_bt_insert by (simp add: bt_wf_def)
    then show ?thesis using greater rec by (auto simp: bt_wf_def)
  qed
qed

lemma map_of_bt_insert: "map_of (bt_insert k v m) = (map_of m)(k \<mapsto> v)"
  by (induction k v m rule: bt_insert.induct) auto

lemma bt_wf_remove [simp, bt_simps]: "bt_wf m \<Longrightarrow> bt_wf (bt_remove k m)"
  by (simp add: bt_wf_def bt_remove_def sorted_wrt_map sorted_wrt_filter)

lemma bt_wf_retain [simp, bt_simps]: "bt_wf m \<Longrightarrow> bt_wf (bt_retain P m)"
  by (simp add: bt_wf_def bt_retain_def sorted_wrt_map sorted_wrt_filter)

lemma bt_lookup_insert [simp, bt_simps]: "bt_lookup (bt_insert k v m) j = (if j = k then Some v else bt_lookup m j)"
  by (simp add: bt_lookup_def map_of_bt_insert)

lemma bt_lookup_remove [simp, bt_simps]: "bt_lookup (bt_remove k m) j = (if j = k then None else bt_lookup m j)"
  unfolding bt_lookup_def bt_remove_def by (induction m) auto

lemma bt_remove_idem [simp]: "bt_remove k (bt_remove k m) = bt_remove k m"
  by (simp add: bt_remove_def)

interpretation bt: ordered_map bt_lookup bt_insert bt_remove bt_entries bt_wf
  by unfold_locales
    (simp_all add: fun_eq_iff bt_entries_def bt_lookup_def map_of_bt_insert bt_wf_def [symmetric]
      flip: bt_lookup_def)

lemma bt_lookup_retain:
  assumes "bt_wf m"
  shows "bt_lookup (bt_retain P m) k =
    (case bt_lookup m k of Some v \<Rightarrow> (if P k v then Some v else None) | None \<Rightarrow> None)"
proof -
  have "bt_lookup (bt_retain P m) k = Some v \<longleftrightarrow> bt_lookup m k = Some v \<and> P k v" for v
    using bt.set_entries [OF assms, of k v] bt.set_entries [OF bt_wf_retain [OF assms], of k v P]
    by (auto simp: bt_entries_def bt_retain_def)
  then show ?thesis by (auto split: option.splits simp: not_Some_eq [symmetric] simp del: not_Some_eq)
qed

lemma bt_total_insert:
  assumes "bt_wf m"
  shows "bt_total f (bt_insert k v m) + (case bt_lookup m k of None \<Rightarrow> 0 | Some u \<Rightarrow> f u) = bt_total f m + f v"
  using bt.total_ins [OF assms, where f = f] by (simp add: bt_total_def)

lemma bt_total_lookup_le: "bt_lookup m k = Some v \<Longrightarrow> f v \<le> bt_total f m"
  by (induction m) (auto simp: bt_lookup_def bt_total_def bt_entries_def split: if_splits)

lemma bt_total_Nil [simp]: "bt_total f [] = 0"
  by (simp add: bt_total_def bt_entries_def)

end
