(* ===== verification/Types.thy ===== *)
theory Types
  imports BTree
begin

text \<open>
  The data model (\<open>types/transaction.rs\<close>, \<open>types/header.rs\<close>, \<open>types/block.rs\<close>) and
  the code the node calls but that is not part of the repository: BLAKE3, hex, bincode, JSON
  decoding, Ed25519 and the sled key/value store. The latter are the fields of the record
  \<open>ext\<close>, which every definition that needs them takes as its argument; the type of the
  database handle is a parameter. What the code relies on of them is stated by the predicates
  at the end, which appear as named hypotheses where a theorem needs them.
\<close>

section \<open>Transactions, headers, blocks\<close>

record tx =
  tx_nonce :: u64
  sender_pubkey :: string
  module :: string
  method_name :: string
  args :: "u8 list"
  tip :: u64
  fee_limit :: u64
  sig :: string

record cash_transfer_args =
  to_addr :: string
  amount :: u128

record block_header =
  parent_hash :: string
  number :: u64
  timestamp :: u64
  difficulty :: u64
  nonce :: u64
  pow_hash :: string
  state_root :: string
  tx_root :: string
  miner :: string

record block =
  header :: block_header
  txs :: "tx list"
  weight :: u64

type_synonym balances_map = "(string, u128) btree"
type_synonym nonces_map = "(string, u64) btree"

section \<open>Code outside the repository\<close>

datatype batch_op = BatchInsert "u8 list" "u8 list" | BatchRemove "u8 list"

text \<open>A store operation that can fail returns the handle afterwards and whether it succeeded;
  a read that fails is the outer \<open>None\<close>.\<close>

record 'db ext =
  blake3 :: "u8 list \<Rightarrow> u8 list"
  hex_encode :: "u8 list \<Rightarrow> string"
  hex_decode :: "string \<Rightarrow> u8 list option"
  bincode_tx :: "tx \<Rightarrow> u8 list"
  json_transfer_args :: "u8 list \<Rightarrow> cash_transfer_args option"
  ed25519_key_ok :: "u8 list \<Rightarrow> bool"
  ed25519_verify :: "u8 list \<Rightarrow> u8 list \<Rightarrow> u8 list \<Rightarrow> bool"
  bincode_block :: "block \<Rightarrow> u8 list"
  unbincode_block :: "u8 list \<Rightarrow> block option"
  bincode_balances :: "balances_map \<Rightarrow> u8 list"
  unbincode_balances :: "u8 list \<Rightarrow> balances_map option"
  bincode_nonces :: "nonces_map \<Rightarrow> u8 list"
  unbincode_nonces :: "u8 list \<Rightarrow> nonces_map option"
  bincode_snap_meta :: "u64 \<times> string \<Rightarrow> u8 list"
  unbincode_snap_meta :: "u8 list \<Rightarrow> (u64 \<times> string) option"
  bincode_string :: "string \<Rightarrow> u8 list"
  unbincode_string :: "u8 list \<Rightarrow> string option"
  sled_get :: "'db \<Rightarrow> u8 list \<Rightarrow> u8 list option option"
  sled_insert :: "'db \<Rightarrow> u8 list \<Rightarrow> u8 list \<Rightarrow> 'db \<times> bool"
  sled_apply_batch :: "'db \<Rightarrow> batch_op list \<Rightarrow> 'db \<times> bool"
  sled_scan_prefix :: "'db \<Rightarrow> u8 list \<Rightarrow> (u8 list \<times> u8 list) list"

section \<open>Hex text\<close>

text \<open>The byte test \<open>b'0'..=b'9' | b'a'..=b'f'\<close> used by four modules.\<close>

definition is_lower_hex_char :: "char \<Rightarrow> bool" where
  "is_lower_hex_char c = (let k = of_char c :: nat in (48 \<le> k \<and> k \<le> 57) \<or> (97 \<le> k \<and> k \<le> 102))"

definition is_lowercase_hex :: "string \<Rightarrow> bool" where
  "is_lowercase_hex s = list_all is_lower_hex_char s"

definition is_lowercase_hex_32_bytes :: "string \<Rightarrow> bool" where
  "is_lowercase_hex_32_bytes s = (length s = 64 \<and> is_lowercase_hex s)"

lemma is_ascii_lowercase_hex: "is_lowercase_hex s \<Longrightarrow> is_ascii s"
proof -
  have "of_char c < (128 :: u8)" if "is_lower_hex_char c" for c
  proof -
    have "(of_char c :: nat) < 128" using that by (auto simp: is_lower_hex_char_def Let_def)
    moreover have "(of_char c :: u8) = word_of_nat (of_char c)" by (simp add: of_nat_of_char)
    ultimately show ?thesis by (simp add: word_less_nat_alt unat_of_nat)
  qed
  then show "is_lowercase_hex s \<Longrightarrow> is_ascii s"
    by (auto simp: is_ascii_def as_bytes_def is_lowercase_hex_def list_all_iff)
qed

section \<open>Documented behaviour relied upon\<close>

text \<open>\<open>hex\<close>: encoding is lowercase and doubles the length, decoding accepts lowercase
  digits in even number, loses nothing and inverts encoding.\<close>

definition hex_laws :: "('db, 'x) ext_scheme \<Rightarrow> bool" where
  "hex_laws X \<longleftrightarrow>
     (\<forall>bs. is_lowercase_hex (hex_encode X bs) \<and> length (hex_encode X bs) = 2 * length bs) \<and>
     (\<forall>bs. hex_decode X (hex_encode X bs) = Some bs) \<and>
     (\<forall>s. is_lowercase_hex s \<longrightarrow> even (length s) \<longrightarrow>
        (\<exists>bs. hex_decode X s = Some bs \<and> s = hex_encode X bs))"

definition blake3_laws :: "('db, 'x) ext_scheme \<Rightarrow> bool" where
  "blake3_laws X \<longleftrightarrow> (\<forall>bs. length (blake3 X bs) = 32)"

text \<open>\<open>sled\<close>: a successful insertion or batch is what later reads see, and reads are
  otherwise unchanged; a failed one leaves the reads alone.\<close>

definition batch_effect :: "(u8 list \<Rightarrow> u8 list option) \<Rightarrow> batch_op \<Rightarrow> (u8 list \<Rightarrow> u8 list option)" where
  "batch_effect m b = (case b of BatchInsert k v \<Rightarrow> m(k \<mapsto> v) | BatchRemove k \<Rightarrow> m(k := None))"

definition db_view :: "('db, 'x) ext_scheme \<Rightarrow> 'db \<Rightarrow> (u8 list \<Rightarrow> u8 list option) \<Rightarrow> bool" where
  "db_view X db m \<longleftrightarrow> (\<forall>k. sled_get X db k = Some (m k))"

definition sled_laws :: "('db, 'x) ext_scheme \<Rightarrow> bool" where
  "sled_laws X \<longleftrightarrow>
     (\<forall>db k v m. db_view X db m \<longrightarrow>
        (case sled_insert X db k v of (db', ok) \<Rightarrow> db_view X db' (if ok then m(k \<mapsto> v) else m))) \<and>
     (\<forall>db ops m. db_view X db m \<longrightarrow>
        (case sled_apply_batch X db ops of
           (db', ok) \<Rightarrow> db_view X db' (if ok then foldl batch_effect m ops else m)))"

definition bincode_block_laws :: "('db, 'x) ext_scheme \<Rightarrow> bool" where
  "bincode_block_laws X \<longleftrightarrow> (\<forall>b. unbincode_block X (bincode_block X b) = Some b)"

definition bincode_snapshot_laws :: "('db, 'x) ext_scheme \<Rightarrow> bool" where
  "bincode_snapshot_laws X \<longleftrightarrow>
     (\<forall>m. unbincode_balances X (bincode_balances X m) = Some m) \<and>
     (\<forall>m. unbincode_nonces X (bincode_nonces X m) = Some m) \<and>
     (\<forall>p. unbincode_snap_meta X (bincode_snap_meta X p) = Some p) \<and>
     (\<forall>s. unbincode_string X (bincode_string X s) = Some s)"

lemma hex_decode_lower:
  assumes "hex_laws X" "is_lowercase_hex_32_bytes s"
  shows "\<exists>bs. hex_decode X s = Some bs \<and> length bs = 32 \<and> s = hex_encode X bs"
proof -
  from assms obtain bs where bs: "hex_decode X s = Some bs" "s = hex_encode X bs"
    by (auto simp: hex_laws_def is_lowercase_hex_32_bytes_def)
  then have "2 * length bs = 64"
    using assms by (metis hex_laws_def is_lowercase_hex_32_bytes_def)
  with bs show ?thesis by auto
qed

lemma hex_decode_inject:
  assumes "hex_laws X" "is_lowercase_hex_32_bytes s" "is_lowercase_hex_32_bytes t"
    and "hex_decode X s = hex_decode X t"
  shows "s = t"
  using hex_decode_lower [OF assms(1,2)] hex_decode_lower [OF assms(1,3)] assms(4) by auto

end
