(* ===== verification/Constants.thy ===== *)
theory Constants
  imports Prelude
begin

text \<open>The protocol constants of \<open>config/constants.rs\<close> and \<open>types/transaction.rs\<close> that the
  modelled code reads. Quantities of type \<open>usize\<close> that only bound a length are naturals.\<close>

named_theorems const_defs \<open>values of the protocol constants\<close>

definition NODE_VERSION :: string where [const_defs]: "NODE_VERSION = ''v1.0.4''"
definition PROTOCOL_VERSION :: u32 where [const_defs]: "PROTOCOL_VERSION = 4"
definition CONSENSUS_VERSION :: u32 where [const_defs]: "CONSENSUS_VERSION = 3"
definition BLOCK_VERSION :: u32 where [const_defs]: "BLOCK_VERSION = 1"
definition NETWORK_ID :: string where [const_defs]: "NETWORK_ID = ''mainnet''"
definition TARGET_BLOCK_TIME :: u64 where [const_defs]: "TARGET_BLOCK_TIME = 30"
definition RETARGET_WINDOW :: u64 where [const_defs]: "RETARGET_WINDOW = 20"
definition DIFFICULTY_FLOOR :: u64 where [const_defs]: "DIFFICULTY_FLOOR = 1"
definition STALL_MULTIPLIER :: u64 where [const_defs]: "STALL_MULTIPLIER = 4"

definition LWMA_MIN_INTERVAL_SECS :: u64 where
  [const_defs]: "LWMA_MIN_INTERVAL_SECS = TARGET_BLOCK_TIME div 4"

definition LWMA_MAX_INTERVAL_SECS :: u64 where
  [const_defs]: "LWMA_MAX_INTERVAL_SECS = TARGET_BLOCK_TIME * 6"

definition MAX_FUTURE_TIMESTAMP_SECS :: u64 where
  [const_defs]: "MAX_FUTURE_TIMESTAMP_SECS = 7200"

definition BLOCK_WEIGHT_LIMIT :: u64 where [const_defs]: "BLOCK_WEIGHT_LIMIT = 400000"
definition BLOCK_TARGET_TXS :: nat where [const_defs]: "BLOCK_TARGET_TXS = 200"
definition SNAPSHOT_EVERY :: u64 where [const_defs]: "SNAPSHOT_EVERY = 32"
definition EMISSION_PER_BLOCK :: u128 where [const_defs]: "EMISSION_PER_BLOCK = 510000000000"
definition HALVING_INTERVAL :: u64 where [const_defs]: "HALVING_INTERVAL = 2102400"
definition FEE_BURN_BPS :: u32 where [const_defs]: "FEE_BURN_BPS = 1000"
definition MEMPOOL_MAX :: nat where [const_defs]: "MEMPOOL_MAX = 10000"
definition MIN_PEERS_FOR_MINING :: nat where [const_defs]: "MIN_PEERS_FOR_MINING = 1"
definition ORPHAN_POOL_MAX :: nat where [const_defs]: "ORPHAN_POOL_MAX = 2000"
definition PEER_HEIGHT_STALE_SECS :: u64 where [const_defs]: "PEER_HEIGHT_STALE_SECS = 45"

definition HEIGHT_POLL_RESPONSE_WINDOW_SECS :: u64 where
  [const_defs]: "HEIGHT_POLL_RESPONSE_WINDOW_SECS = 10"

definition SYNC_LAG_THRESHOLD :: u64 where [const_defs]: "SYNC_LAG_THRESHOLD = 5"
definition SYNC_CLEAR_JOB_MIN_LAG :: u64 where [const_defs]: "SYNC_CLEAR_JOB_MIN_LAG = SYNC_LAG_THRESHOLD"
definition STALL_OVERRIDE_SECS :: u64 where [const_defs]: "STALL_OVERRIDE_SECS = 120"
definition VISIONX_DATASET_MB :: nat where [const_defs]: "VISIONX_DATASET_MB = 256"
definition VISIONX_SCRATCH_MB :: nat where [const_defs]: "VISIONX_SCRATCH_MB = 32"
definition VISIONX_MIX_ITERS :: u32 where [const_defs]: "VISIONX_MIX_ITERS = 65536"
definition VISIONX_READS_PER_ITER :: u32 where [const_defs]: "VISIONX_READS_PER_ITER = 4"
definition VISIONX_WRITE_EVERY :: u32 where [const_defs]: "VISIONX_WRITE_EVERY = 4"
definition VISIONX_EPOCH_BLOCKS :: u32 where [const_defs]: "VISIONX_EPOCH_BLOCKS = 32"

definition MAX_SERIALIZED_TX_BYTES :: nat where
  [const_defs]: "MAX_SERIALIZED_TX_BYTES = 64 * 1024"

definition MIN_CASH_TRANSFER_FEE_LIMIT :: u64 where
  [const_defs]: "MIN_CASH_TRANSFER_FEE_LIMIT = 201"

definition CASH_TRANSFER_BASE_FEE :: u64 where [const_defs]: "CASH_TRANSFER_BASE_FEE = 1"

end
