(* ===== verification/Transaction.thy ===== *)
theory Transaction
  imports Types Constants
begin

text \<open>
  \<open>types/transaction.rs\<close>: identifiers, signature checks, stateless validation and the
  execution of \<open>cash::transfer\<close> against account state. The contract that block execution
  relies on is the locale \<open>transfer_ledger\<close>: a failed transaction changes nothing, a
  successful one moves value without creating any and advances the sender's nonce by one.
\<close>

section \<open>Identifiers and signatures\<close>

definition canonical_unsigned_payload :: "('db, 'x) ext_scheme \<Rightarrow> tx \<Rightarrow> u8 list" where
  "canonical_unsigned_payload X t = bincode_tx X (t\<lparr>sig := ''''\<rparr>)"

definition canonical_tx_id :: "('db, 'x) ext_scheme \<Rightarrow> tx \<Rightarrow> string" where
  "canonical_tx_id X t = hex_encode X (blake3 X (canonical_unsigned_payload X t))"

definition tx_id :: "('db, 'x) ext_scheme \<Rightarrow> tx \<Rightarrow> string" where
  "tx_id X t = hex_encode X (blake3 X (bincode_tx X t))"

datatype tx_signature_error =
    SenderPubkeyWrongLength
  | SenderPubkeyNotLowercaseHex
  | SignatureWrongLength
  | SignatureNotLowercaseHex
  | MalformedPublicKey
  | InvalidSignature

definition decode_sender_pubkey :: "('db, 'x) ext_scheme \<Rightarrow> string \<Rightarrow> tx_signature_error + u8 list" where
  "decode_sender_pubkey X s =
     (if length s \<noteq> 64 then Inl SenderPubkeyWrongLength
      else if \<not> is_lowercase_hex s then Inl SenderPubkeyNotLowercaseHex
      else (case hex_decode X s of
          None \<Rightarrow> Inl SenderPubkeyNotLowercaseHex
        | Some bs \<Rightarrow> (if length bs = 32 then Inr bs else Inl SenderPubkeyWrongLength)))"

definition decode_signature :: "('db, 'x) ext_scheme \<Rightarrow> string \<Rightarrow> tx_signature_error + u8 list" where
  "decode_signature X s =
     (if length s \<noteq> 128 then Inl SignatureWrongLength
      else if \<not> is_lowercase_hex s then Inl SignatureNotLowercaseHex
      else (case hex_decode X s of
          None \<Rightarrow> Inl SignatureNotLowercaseHex
        | Some bs \<Rightarrow> (if length bs = 64 then Inr bs else Inl SignatureWrongLength)))"

definition verify_tx_signature :: "('db, 'x) ext_scheme \<Rightarrow> tx \<Rightarrow> tx_signature_error + unit" where
  "verify_tx_signature X t =
     (case decode_sender_pubkey X (sender_pubkey t) of
        Inl e \<Rightarrow> Inl e
      | Inr pk \<Rightarrow>
          (case decode_signature X (sig t) of
             Inl e \<Rightarrow> Inl e
           | Inr sg \<Rightarrow>
               (if \<not> ed25519_key_ok X pk then Inl MalformedPublicKey
                else if ed25519_verify X pk (canonical_unsigned_payload X t) sg then Inr ()
                else Inl InvalidSignature)))"

section \<open>Stateless validation\<close>

datatype tx_validation_error =
    TxTooLarge
  | MissingSenderPubkey
  | MissingSignature
  | UnsupportedModuleMethod
  | BadTransferArgs
  | InvalidTransferDestination
  | TransferAmountZero
  | TransferToSelf
  | FeeLimitTooLow
  | SignatureError tx_signature_error

definition serialized_tx_size :: "('db, 'x) ext_scheme \<Rightarrow> tx \<Rightarrow> nat" where
  "serialized_tx_size X t = length (bincode_tx X t)"

definition decode_cash_transfer_args :: "('db, 'x) ext_scheme \<Rightarrow> u8 list \<Rightarrow> tx_validation_error + cash_transfer_args" where
  "decode_cash_transfer_args X bs =
     (case json_transfer_args X bs of None \<Rightarrow> Inl BadTransferArgs | Some a \<Rightarrow> Inr a)"

definition validate_cash_transfer_stateless :: "('db, 'x) ext_scheme \<Rightarrow> tx \<Rightarrow> tx_validation_error + unit" where
  "validate_cash_transfer_stateless X t =
     (if fee_limit t < MIN_CASH_TRANSFER_FEE_LIMIT then Inl FeeLimitTooLow
      else (case verify_tx_signature X t of
          Inl e \<Rightarrow> Inl (SignatureError e)
        | Inr _ \<Rightarrow>
            (case decode_cash_transfer_args X (args t) of
               Inl e \<Rightarrow> Inl e
             | Inr a \<Rightarrow>
                 (if \<not> is_lowercase_hex_32_bytes (to_addr a) then Inl InvalidTransferDestination
                  else if amount a = 0 then Inl TransferAmountZero
                  else if to_addr a = sender_pubkey t then Inl TransferToSelf
                  else Inr ()))))"

definition is_coinbase_reward :: "tx \<Rightarrow> bool" where
  "is_coinbase_reward t = (module t = ''coinbase'' \<and> method_name t = ''reward'')"

definition validate_tx_stateless :: "('db, 'x) ext_scheme \<Rightarrow> tx \<Rightarrow> tx_validation_error + unit" where
  "validate_tx_stateless X t =
     (if serialized_tx_size X t > MAX_SERIALIZED_TX_BYTES then Inl TxTooLarge
      else if is_coinbase_reward t then Inr ()
      else if sender_pubkey t = '''' then Inl MissingSenderPubkey
      else if sig t = '''' then Inl MissingSignature
      else if module t = ''cash'' \<and> method_name t = ''transfer''
        then validate_cash_transfer_stateless X t
      else Inl UnsupportedModuleMethod)"

section \<open>Execution\<close>

record tx_execution_state =
  es_balances :: balances_map
  es_nonces :: nonces_map

definition tx_execution_state_new :: tx_execution_state where
  "tx_execution_state_new = \<lparr>es_balances = [], es_nonces = []\<rparr>"

definition es_balance_of :: "tx_execution_state \<Rightarrow> string \<Rightarrow> u128" where
  "es_balance_of s a = (case bt_lookup (es_balances s) a of None \<Rightarrow> 0 | Some v \<Rightarrow> v)"

definition es_nonce_of :: "tx_execution_state \<Rightarrow> string \<Rightarrow> u64" where
  "es_nonce_of s a = (case bt_lookup (es_nonces s) a of None \<Rightarrow> 0 | Some v \<Rightarrow> v)"

record tx_execution_outcome =
  out_sender :: string
  out_recipient :: string
  out_amount :: u128
  charged_fee :: u64
  next_sender_nonce :: u64

datatype tx_execution_error =
    Validation tx_validation_error
  | NonceMismatch u64 u64
  | FeeExceedsLimit u64 u64
  | InsufficientBalance u128 u128
  | ArithmeticOverflow

definition simulate_tx_execution ::
  "('db, 'x) ext_scheme \<Rightarrow> tx_execution_state \<Rightarrow> tx
     \<Rightarrow> tx_execution_state \<times> (tx_execution_error + tx_execution_outcome)" where
  "simulate_tx_execution X s t =
     (if module t \<noteq> ''cash'' \<or> method_name t \<noteq> ''transfer''
      then (s, Inl (Validation UnsupportedModuleMethod))
      else (case validate_tx_stateless X t of
        Inl e \<Rightarrow> (s, Inl (Validation e))
      | Inr _ \<Rightarrow>
        (let sender = sender_pubkey t; expected_nonce = es_nonce_of s sender in
         if tx_nonce t \<noteq> expected_nonce then (s, Inl (NonceMismatch expected_nonce (tx_nonce t)))
         else (case decode_cash_transfer_args X (args t) of
           Inl e \<Rightarrow> (s, Inl (Validation e))
         | Inr a \<Rightarrow>
           (case checked_add CASH_TRANSFER_BASE_FEE (tip t) of
              None \<Rightarrow> (s, Inl ArithmeticOverflow)
            | Some fee \<Rightarrow>
              if fee > fee_limit t then (s, Inl (FeeExceedsLimit fee (fee_limit t)))
              else (case checked_add (amount a) (ucast fee) of
                 None \<Rightarrow> (s, Inl ArithmeticOverflow)
               | Some total_cost \<Rightarrow>
                 (let available = es_balance_of s sender in
                  if available < total_cost
                  then (s, Inl (InsufficientBalance available total_cost))
                  else (case checked_add (es_balance_of s (to_addr a)) (amount a) of
                     None \<Rightarrow> (s, Inl ArithmeticOverflow)
                   | Some new_recipient_balance \<Rightarrow>
                     (case checked_add expected_nonce 1 of
                        None \<Rightarrow> (s, Inl ArithmeticOverflow)
                      | Some next_nonce \<Rightarrow>
                        (s\<lparr>es_balances :=
                             bt_insert (to_addr a) new_recipient_balance
                               (bt_insert sender (available - total_cost) (es_balances s)),
                           es_nonces := bt_insert sender next_nonce (es_nonces s)\<rparr>,
                         Inr \<lparr>out_sender = sender, out_recipient = to_addr a,
                              out_amount = amount a, charged_fee = fee,
                              next_sender_nonce = next_nonce\<rparr>))))))))))"

section \<open>The contract block execution relies on\<close>

text \<open>A block's transactions run in order and stop at the first error, which is reported with
  its index.\<close>

fun run_all :: "('s \<Rightarrow> 't \<Rightarrow> 's \<times> ('e + 'o)) \<Rightarrow> nat \<Rightarrow> 's \<Rightarrow> 't list \<Rightarrow> 's \<times> ((nat \<times> 'e) + 'o list)" where
  "run_all f i s [] = (s, Inr [])"
| "run_all f i s (t # ts) =
     (case f s t of
        (s', Inl e) \<Rightarrow> (s', Inl (i, e))
      | (s', Inr r) \<Rightarrow>
          (case run_all f (Suc i) s' ts of
             (s'', Inl e) \<Rightarrow> (s'', Inl e)
           | (s'', Inr rs) \<Rightarrow> (s'', Inr (r # rs))))"

locale transfer_ledger =
  fixes exec :: "'s \<Rightarrow> 't \<Rightarrow> 's \<times> ('e + 'o)"
    and wf :: "'s \<Rightarrow> bool"
    and total_supply :: "'s \<Rightarrow> nat"
    and fee :: "'o \<Rightarrow> nat"
    and sender :: "'t \<Rightarrow> 'a"
    and nonce_of :: "'s \<Rightarrow> 'a \<Rightarrow> nat"
    and tx_no :: "'t \<Rightarrow> nat"
  assumes err_frame: "exec s t = (s', Inl e) \<Longrightarrow> s' = s"
    and ok_wf: "wf s \<Longrightarrow> exec s t = (s', Inr r) \<Longrightarrow> wf s'"
    and ok_supply: "wf s \<Longrightarrow> exec s t = (s', Inr r) \<Longrightarrow> total_supply s' + fee r = total_supply s"
    and ok_guard: "exec s t = (s', Inr r) \<Longrightarrow> tx_no t = nonce_of s (sender t)"
    and ok_nonce: "exec s t = (s', Inr r) \<Longrightarrow>
      nonce_of s' a = nonce_of s a + (if a = sender t then 1 else 0)"
begin

lemma run_wf: "wf s \<Longrightarrow> run_all exec i s ts = (s', Inr rs) \<Longrightarrow> wf s'"
  by (induction ts arbitrary: i s rs)
    (auto split: prod.splits sum.splits dest: ok_wf)

text \<open>Executing a list of transactions burns exactly the fees it charges.\<close>

lemma run_supply:
  "wf s \<Longrightarrow> run_all exec i s ts = (s', Inr rs) \<Longrightarrow> total_supply s' + (\<Sum>r\<leftarrow>rs. fee r) = total_supply s"
proof (induction ts arbitrary: i s rs)
  case Nil
  then show ?case by simp
next
  case (Cons t ts)
  then obtain s1 r rs' where "exec s t = (s1, Inr r)"
    and "run_all exec (Suc i) s1 ts = (s', Inr rs')" and "rs = r # rs'"
    by (auto split: prod.splits sum.splits)
  moreover from this Cons have "total_supply s1 + fee r = total_supply s" "wf s1"
    using ok_supply ok_wf by blast+
  ultimately show ?case using Cons.IH by force
qed

text \<open>Nonces count the sender's transactions.\<close>

lemma run_nonce:
  "run_all exec i s ts = (s', Inr rs) \<Longrightarrow>
     nonce_of s' a = nonce_of s a + length (filter (\<lambda>t. sender t = a) ts)"
proof (induction ts arbitrary: i s rs)
  case Nil
  then show ?case by simp
next
  case (Cons t ts)
  then obtain s1 r rs' where "exec s t = (s1, Inr r)"
    and "run_all exec (Suc i) s1 ts = (s', Inr rs')"
    by (auto split: prod.splits sum.splits)
  moreover from this Cons.IH have
    "nonce_of s' a = nonce_of s1 a + length (filter (\<lambda>t. sender t = a) ts)" by blast
  ultimately show ?case using ok_nonce by simp
qed

text \<open>Once a transaction has been executed, no later state executes it again.\<close>

lemma no_replay:
  assumes "exec s t = (s1, Inr r)" "run_all exec i s1 ts = (s2, Inr rs)"
  shows "exec s2 t \<noteq> (s3, Inr q)"
proof
  assume again: "exec s2 t = (s3, Inr q)"
  have "nonce_of s1 (sender t) = nonce_of s (sender t) + 1"
    using ok_nonce [OF assms(1)] by simp
  moreover have "nonce_of s1 (sender t) \<le> nonce_of s2 (sender t)"
    using run_nonce [OF assms(2)] by simp
  moreover have "tx_no t = nonce_of s (sender t)" "tx_no t = nonce_of s2 (sender t)"
    using ok_guard [OF assms(1)] ok_guard [OF again] by simp_all
  ultimately show False by simp
qed

end

section \<open>Execution meets the contract\<close>

definition es_wf :: "tx_execution_state \<Rightarrow> bool" where
  "es_wf s \<longleftrightarrow> bt_wf (es_balances s) \<and> bt_wf (es_nonces s)"

definition supply_of :: "balances_map \<Rightarrow> nat" where
  "supply_of m = bt_total unat m"

lemma es_wf_new [simp]: "es_wf tx_execution_state_new"
  by (simp add: es_wf_def tx_execution_state_new_def)

lemma validate_cash_transfer_Inr:
  assumes "validate_cash_transfer_stateless X t = Inr u"
  shows "\<exists>a. json_transfer_args X (args t) = Some a \<and> is_lowercase_hex_32_bytes (to_addr a)
    \<and> amount a \<noteq> 0 \<and> to_addr a \<noteq> sender_pubkey t \<and> verify_tx_signature X t = Inr ()
    \<and> MIN_CASH_TRANSFER_FEE_LIMIT \<le> fee_limit t"
  using assms
  by (auto simp: validate_cash_transfer_stateless_def decode_cash_transfer_args_def not_less
      split: if_splits sum.splits option.splits)

lemma verify_tx_signature_Inr:
  "verify_tx_signature X t = Inr u \<Longrightarrow> is_lowercase_hex_32_bytes (sender_pubkey t)"
  by (auto simp: verify_tx_signature_def decode_sender_pubkey_def is_lowercase_hex_32_bytes_def
      split: if_splits sum.splits option.splits)

text \<open>All that a successful execution establishes, in one rule.\<close>

lemma simulate_InrE:
  assumes "simulate_tx_execution X s t = (s', Inr r)"
  obtains a fee total nb nn where
    "module t = ''cash''" "method_name t = ''transfer''"
    "validate_tx_stateless X t = Inr ()"
    "json_transfer_args X (args t) = Some a"
    "is_lowercase_hex_32_bytes (sender_pubkey t)" "is_lowercase_hex_32_bytes (to_addr a)"
    "to_addr a \<noteq> sender_pubkey t" "amount a \<noteq> 0"
    "tx_nonce t = es_nonce_of s (sender_pubkey t)"
    "checked_add CASH_TRANSFER_BASE_FEE (tip t) = Some fee" "fee \<le> fee_limit t"
    "checked_add (amount a) (ucast fee) = Some total"
    "total \<le> es_balance_of s (sender_pubkey t)"
    "checked_add (es_balance_of s (to_addr a)) (amount a) = Some nb"
    "checked_add (es_nonce_of s (sender_pubkey t)) 1 = Some nn"
    "s' = s\<lparr>es_balances := bt_insert (to_addr a) nb
              (bt_insert (sender_pubkey t) (es_balance_of s (sender_pubkey t) - total) (es_balances s)),
            es_nonces := bt_insert (sender_pubkey t) nn (es_nonces s)\<rparr>"
    "r = \<lparr>out_sender = sender_pubkey t, out_recipient = to_addr a, out_amount = amount a,
          charged_fee = fee, next_sender_nonce = nn\<rparr>"
proof -
  have v: "validate_tx_stateless X t = Inr ()" and cash: "module t = ''cash''" "method_name t = ''transfer''"
    using assms by (auto simp: simulate_tx_execution_def split: if_splits sum.splits)
  then have "validate_cash_transfer_stateless X t = Inr ()"
    by (auto simp: validate_tx_stateless_def is_coinbase_reward_def split: if_splits)
  from validate_cash_transfer_Inr [OF this] obtain a where
    a: "json_transfer_args X (args t) = Some a" "is_lowercase_hex_32_bytes (to_addr a)"
       "amount a \<noteq> 0" "to_addr a \<noteq> sender_pubkey t" "verify_tx_signature X t = Inr ()" by blast
  have "\<exists>fee total nb nn. tx_nonce t = es_nonce_of s (sender_pubkey t)
      \<and> checked_add CASH_TRANSFER_BASE_FEE (tip t) = Some fee \<and> fee \<le> fee_limit t
      \<and> checked_add (amount a) (ucast fee) = Some total
      \<and> total \<le> es_balance_of s (sender_pubkey t)
      \<and> checked_add (es_balance_of s (to_addr a)) (amount a) = Some nb
      \<and> checked_add (es_nonce_of s (sender_pubkey t)) 1 = Some nn
      \<and> s' = s\<lparr>es_balances := bt_insert (to_addr a) nb
              (bt_insert (sender_pubkey t) (es_balance_of s (sender_pubkey t) - total) (es_balances s)),
            es_nonces := bt_insert (sender_pubkey t) nn (es_nonces s)\<rparr>
      \<and> r = \<lparr>out_sender = sender_pubkey t, out_recipient = to_addr a, out_amount = amount a,
          charged_fee = fee, next_sender_nonce = nn\<rparr>"
    using assms cash v a(1)
    by (auto simp: simulate_tx_execution_def decode_cash_transfer_args_def Let_def not_less
        split: if_splits option.splits)
  then show thesis
    using that cash v a verify_tx_signature_Inr [OF a(5)] by metis
qed

lemma simulate_err_frame: "simulate_tx_execution X s t = (s', Inl e) \<Longrightarrow> s' = s"
  by (auto simp: simulate_tx_execution_def Let_def split: if_splits sum.splits option.splits)

lemma simulate_ok_wf:
  "es_wf s \<Longrightarrow> simulate_tx_execution X s t = (s', Inr r) \<Longrightarrow> es_wf s'"
  by (elim simulate_InrE) (simp add: es_wf_def)

lemma simulate_ok_supply:
  assumes wf: "es_wf s" and ok: "simulate_tx_execution X s t = (s', Inr r)"
  shows "supply_of (es_balances s') + unat (charged_fee r) = supply_of (es_balances s)"
  using ok
proof (rule simulate_InrE)
  fix a fee total nb nn
  let ?p = "sender_pubkey t" and ?bal = "\<lambda>x. unat (es_balance_of s x)"
  assume ne: "to_addr a \<noteq> ?p"
    and total: "checked_add (amount a) (ucast fee) = Some total" "total \<le> es_balance_of s ?p"
    and nb: "checked_add (es_balance_of s (to_addr a)) (amount a) = Some nb"
    and s': "s' = s\<lparr>es_balances := bt_insert (to_addr a) nb
              (bt_insert ?p (es_balance_of s ?p - total) (es_balances s)),
            es_nonces := bt_insert ?p nn (es_nonces s)\<rparr>"
    and r: "r = \<lparr>out_sender = ?p, out_recipient = to_addr a, out_amount = amount a,
          charged_fee = fee, next_sender_nonce = nn\<rparr>"
  define m1 where "m1 = bt_insert ?p (es_balance_of s ?p - total) (es_balances s)"
  have wf0: "bt_wf (es_balances s)" using wf by (simp add: es_wf_def)
  then have wf1: "bt_wf m1" by (simp add: m1_def)
  have bal: "(case bt_lookup (es_balances s) x of None \<Rightarrow> 0 | Some u \<Rightarrow> unat u) = ?bal x" for x
    by (simp add: es_balance_of_def split: option.splits)
  have bal1: "(case bt_lookup m1 (to_addr a) of None \<Rightarrow> 0 | Some u \<Rightarrow> unat u) = ?bal (to_addr a)"
    using ne bal [of "to_addr a"] by (simp add: m1_def)
  have one: "supply_of m1 + ?bal ?p = supply_of (es_balances s) + (?bal ?p - unat total)"
    using bt_total_insert [OF wf0, of unat ?p "es_balance_of s ?p - total"] total(2) bal [of ?p]
    by (simp add: supply_of_def m1_def int_simps)
  have two: "supply_of (es_balances s') + ?bal (to_addr a) = supply_of m1 + unat nb"
    using bt_total_insert [OF wf1, of unat "to_addr a" nb] bal1
    by (simp add: supply_of_def s' m1_def)
  have "unat nb = ?bal (to_addr a) + unat (amount a)" using nb by (rule unat_checked_add)
  moreover have "unat total = unat (amount a) + unat fee"
    using unat_checked_add [OF total(1)] by (simp add: unat_ucast_u64_u128)
  moreover have "unat total \<le> ?bal ?p" using total(2) by (simp add: word_le_nat_alt)
  ultimately show ?thesis using one two r by simp
qed

lemma simulate_ok_guard:
  "simulate_tx_execution X s t = (s', Inr r) \<Longrightarrow> unat (tx_nonce t) = unat (es_nonce_of s (sender_pubkey t))"
  by (elim simulate_InrE) simp

lemma simulate_ok_nonce:
  assumes "simulate_tx_execution X s t = (s', Inr r)"
  shows "unat (es_nonce_of s' a) = unat (es_nonce_of s a) + (if a = sender_pubkey t then 1 else 0)"
  using assms
proof (rule simulate_InrE)
  fix b fee total nb nn
  assume nn: "checked_add (es_nonce_of s (sender_pubkey t)) 1 = Some nn"
    and s': "s' = s\<lparr>es_balances := bt_insert (to_addr b) nb
              (bt_insert (sender_pubkey t) (es_balance_of s (sender_pubkey t) - total) (es_balances s)),
            es_nonces := bt_insert (sender_pubkey t) nn (es_nonces s)\<rparr>"
  have "unat nn = unat (es_nonce_of s (sender_pubkey t)) + 1"
    using unat_checked_add [OF nn] by simp
  then show ?thesis by (simp add: s' es_nonce_of_def)
qed

interpretation ledger: transfer_ledger "simulate_tx_execution X" es_wf
  "\<lambda>s. supply_of (es_balances s)" "\<lambda>r. unat (charged_fee r)" sender_pubkey
  "\<lambda>s a. unat (es_nonce_of s a)" "\<lambda>t. unat (tx_nonce t)" for X
  by unfold_locales
    (blast intro: simulate_err_frame simulate_ok_wf simulate_ok_supply simulate_ok_guard
      simulate_ok_nonce)+

end
