(* ===== verification/Block.thy ===== *)
theory Block
  imports Transaction
begin

text \<open>
  \<open>types/header.rs\<close> and \<open>types/block.rs\<close>: the 100-byte canonical header encoding and
  its BLAKE3 hash, the block hash, and the transaction root. The lemmas give the fixed layout
  of the encoding and the fields it commits to.
\<close>

definition header_decode_hash_32 :: "('db, 'x) ext_scheme \<Rightarrow> string \<Rightarrow> u8 list" where
  "header_decode_hash_32 X s =
     (let raw = (case hex_decode X s of Some bs \<Rightarrow> bs | None \<Rightarrow> replicate 32 0);
          len = min (length raw) 32
      in take len raw @ replicate (32 - len) 0)"

definition canonical_bytes :: "('db, 'x) ext_scheme \<Rightarrow> block_header \<Rightarrow> u8 list" where
  "canonical_bytes X h =
     u32_to_be_bytes BLOCK_VERSION
     @ u64_to_be_bytes (number h)
     @ header_decode_hash_32 X (parent_hash h)
     @ u64_to_be_bytes (timestamp h)
     @ u64_to_be_bytes (difficulty h)
     @ u64_to_be_bytes (nonce h)
     @ header_decode_hash_32 X (tx_root h)"

definition compute_hash :: "('db, 'x) ext_scheme \<Rightarrow> block_header \<Rightarrow> string" where
  "compute_hash X h = hex_encode X (blake3 X (canonical_bytes X h))"

abbreviation block_hash :: "block \<Rightarrow> string" where
  "block_hash b \<equiv> pow_hash (header b)"

abbreviation block_height :: "block \<Rightarrow> u64" where
  "block_height b \<equiv> number (header b)"

definition null_hash :: string where
  "null_hash = replicate 64 (CHR ''0'')"

text \<open>The incremental hasher, fed the identifiers one after the other, hashes their
  concatenation.\<close>

definition compute_tx_root :: "('db, 'x) ext_scheme \<Rightarrow> tx list \<Rightarrow> string" where
  "compute_tx_root X ts =
     (if ts = [] then null_hash
      else hex_encode X (blake3 X (concat (map (\<lambda>t. as_bytes (canonical_tx_id X t)) ts))))"

lemma length_header_decode_hash_32 [simp]: "length (header_decode_hash_32 X s) = 32"
  by (simp add: header_decode_hash_32_def Let_def)

lemma length_null_hash [simp]: "length null_hash = 64"
  by (simp add: null_hash_def)

lemma header_decode_hash_32_lower:
  assumes "hex_laws X" "is_lowercase_hex_32_bytes s"
  shows "hex_decode X s = Some (header_decode_hash_32 X s)"
  using hex_decode_lower [OF assms] by (auto simp: header_decode_hash_32_def)

text \<open>The encoding is injective on the fields it covers; the two hashes are covered through
  their decoded bytes.\<close>

lemma canonical_bytes_eq_iff:
  "canonical_bytes X h = canonical_bytes X k \<longleftrightarrow>
     number h = number k \<and> header_decode_hash_32 X (parent_hash h) = header_decode_hash_32 X (parent_hash k)
     \<and> timestamp h = timestamp k \<and> difficulty h = difficulty k \<and> nonce h = nonce k
     \<and> header_decode_hash_32 X (tx_root h) = header_decode_hash_32 X (tx_root k)"
  by (simp add: canonical_bytes_def)

end
