(* ===== verification/State_Root.thy ===== *)
theory State_Root
  imports Block
begin

text \<open>
  \<open>chain/state_root.rs\<close>: the canonical byte vector of an account state and its BLAKE3
  root. Accounts at zero are left out, so two states with the same readings have the same
  vector; the vector in turn determines every balance and nonce.
\<close>

datatype state_root_error = MalformedAccountKey | MixedCaseAccountKey

definition STATE_ROOT_MAGIC :: "u8 list" where
  "STATE_ROOT_MAGIC = as_bytes ''VSTATE''"

definition STATE_ROOT_VERSION :: u32 where
  "STATE_ROOT_VERSION = 1"

definition is_lower_hex_byte :: "u8 \<Rightarrow> bool" where
  "is_lower_hex_byte b \<longleftrightarrow> (48 \<le> b \<and> b \<le> 57) \<or> (97 \<le> b \<and> b \<le> 102)"

text \<open>The scan of the key's bytes, keeping the flags \<open>saw_uppercase\<close> and
  \<open>saw_non_lower_hex\<close>.\<close>

definition scan_key_byte :: "u8 \<Rightarrow> bool \<times> bool \<Rightarrow> bool \<times> bool" where
  "scan_key_byte b flags =
     (if 65 \<le> b \<and> b \<le> 70 then (True, snd flags)
      else if \<not> is_lower_hex_byte b then (fst flags, True)
      else flags)"

definition validate_account_key :: "string \<Rightarrow> state_root_error + unit" where
  "validate_account_key key =
     (if length (as_bytes key) \<noteq> 64 then Inl MalformedAccountKey
      else (let (saw_uppercase, saw_non_lower_hex) = fold scan_key_byte (as_bytes key) (False, False)
            in if saw_uppercase then Inl MixedCaseAccountKey
               else if saw_non_lower_hex then Inl MalformedAccountKey
               else Inr ()))"

definition decode_account_key :: "('db, 'x) ext_scheme \<Rightarrow> string \<Rightarrow> state_root_error + u8 list" where
  "decode_account_key X key =
     (case validate_account_key key of
        Inl e \<Rightarrow> Inl e
      | Inr _ \<Rightarrow>
          (case hex_decode X key of
             None \<Rightarrow> Inl MalformedAccountKey
           | Some bs \<Rightarrow> (if length bs = 32 then Inr bs else Inl MalformedAccountKey)))"

definition encode_header :: "u8 list" where
  "encode_header = STATE_ROOT_MAGIC @ u32_to_le_bytes STATE_ROOT_VERSION"

text \<open>The loop over the entries, which returns at the first key that does not decode.\<close>

fun append_entries ::
  "('db, 'x) ext_scheme \<Rightarrow> ('v \<Rightarrow> u8 list) \<Rightarrow> u8 list \<Rightarrow> (string \<times> 'v) list
     \<Rightarrow> state_root_error + u8 list" where
  "append_entries X enc out [] = Inr out"
| "append_entries X enc out ((key, v) # es) =
     (case decode_account_key X key of
        Inl e \<Rightarrow> Inl e
      | Inr decoded \<Rightarrow> append_entries X enc (out @ decoded @ enc v) es)"

definition append_balances ::
  "('db, 'x) ext_scheme \<Rightarrow> u8 list \<Rightarrow> balances_map \<Rightarrow> state_root_error + u8 list" where
  "append_balances X out bals =
     (let entries = sort_key fst (filter (\<lambda>p. snd p \<noteq> 0) (bt_entries bals))
      in append_entries X u128_to_le_bytes
           (out @ u64_to_le_bytes (word_of_nat (length entries))) entries)"

definition append_nonces ::
  "('db, 'x) ext_scheme \<Rightarrow> u8 list \<Rightarrow> nonces_map \<Rightarrow> state_root_error + u8 list" where
  "append_nonces X out ncs =
     (let entries = sort_key fst (filter (\<lambda>p. snd p \<noteq> 0) (bt_entries ncs))
      in append_entries X u64_to_le_bytes
           (out @ u64_to_le_bytes (word_of_nat (length entries))) entries)"

definition canonical_state_vector ::
  "('db, 'x) ext_scheme \<Rightarrow> balances_map \<Rightarrow> nonces_map \<Rightarrow> state_root_error + u8 list" where
  "canonical_state_vector X bals ncs =
     (case append_balances X encode_header bals of
        Inl e \<Rightarrow> Inl e
      | Inr out \<Rightarrow> append_nonces X out ncs)"

definition compute_state_root ::
  "('db, 'x) ext_scheme \<Rightarrow> balances_map \<Rightarrow> nonces_map \<Rightarrow> state_root_error + string" where
  "compute_state_root X bals ncs =
     (case canonical_state_vector X bals ncs of
        Inl e \<Rightarrow> Inl e
      | Inr v \<Rightarrow> Inr (hex_encode X (blake3 X v)))"

section \<open>Keys\<close>

lemma fold_scan_key_byte:
  "fold scan_key_byte bs (u, n) =
     (u \<or> (\<exists>b\<in>set bs. 65 \<le> b \<and> b \<le> 70),
      n \<or> (\<exists>b\<in>set bs. \<not> (65 \<le> b \<and> b \<le> 70) \<and> \<not> is_lower_hex_byte b))"
  by (induction bs arbitrary: u n) (auto simp: scan_key_byte_def)

lemma is_lower_hex_byte_char: "is_lower_hex_byte (of_char c) \<longleftrightarrow> is_lower_hex_char c"
proof -
  have "(of_char c :: u8) = word_of_nat (of_char c)" by (simp add: of_nat_of_char)
  moreover have "(of_char c :: nat) < 256" by simp
  ultimately have "unat (of_char c :: u8) = of_char c" by (simp add: unat_of_nat_small)
  then show ?thesis
    by (simp add: is_lower_hex_byte_def is_lower_hex_char_def word_le_nat_alt Let_def)
qed

lemma lower_not_upper: "is_lower_hex_byte b \<Longrightarrow> \<not> (65 \<le> b \<and> b \<le> 70)"
  by (auto simp: is_lower_hex_byte_def word_le_nat_alt)

text \<open>A key passes exactly when it is 64 lowercase hexadecimal digits.\<close>

lemma validate_account_key_Inr_iff:
  "validate_account_key k = Inr () \<longleftrightarrow> is_lowercase_hex_32_bytes k"
proof -
  have "is_lowercase_hex k \<longleftrightarrow> (\<forall>b\<in>set (as_bytes k). is_lower_hex_byte b)"
    by (auto simp: is_lowercase_hex_def list_all_iff as_bytes_def is_lower_hex_byte_char)
  then show ?thesis
    by (auto simp: validate_account_key_def is_lowercase_hex_32_bytes_def fold_scan_key_byte
        dest: lower_not_upper)
qed

lemma decode_account_key_Inr_iff:
  assumes "hex_laws X"
  shows "decode_account_key X k = Inr bs \<longleftrightarrow> is_lowercase_hex_32_bytes k \<and> hex_decode X k = Some bs"
proof -
  have "validate_account_key k = Inr () \<or> (\<exists>e. validate_account_key k = Inl e)"
    by (cases "validate_account_key k") auto
  then show ?thesis
    using validate_account_key_Inr_iff [of k] hex_decode_lower [OF assms, of k]
    by (auto simp: decode_account_key_def)
qed

lemma decode_account_key_length: "decode_account_key X k = Inr bs \<Longrightarrow> length bs = 32"
  by (auto simp: decode_account_key_def split: sum.splits option.splits if_splits)

lemma decode_account_key_inject:
  assumes "hex_laws X" "decode_account_key X k = Inr bs" "decode_account_key X j = Inr bs"
  shows "k = j"
  using assms hex_decode_inject [OF assms(1), of k j] by (simp add: decode_account_key_Inr_iff)

section \<open>The entries\<close>

definition live_entries :: "(string, 'v::zero) btree \<Rightarrow> (string \<times> 'v) list" where
  "live_entries m = filter (\<lambda>p. snd p \<noteq> 0) (bt_entries m)"

lemma live_entries_sorted: "bt_wf m \<Longrightarrow> sort_key fst (filter (\<lambda>p. snd p \<noteq> 0) (bt_entries m)) = live_entries m"
proof -
  assume "bt_wf m"
  then have "sorted_wrt (<) (map fst (live_entries m))"
    using bt.entries_sorted by (auto simp: live_entries_def sorted_wrt_map intro: sorted_wrt_filter)
  then have "sorted (map fst (live_entries m))" by (rule strict_sorted_imp_sorted)
  then show ?thesis unfolding live_entries_def by (rule sort_key_id_if_sorted)
qed

text \<open>The value a map reads for an account, zero where it holds none.\<close>

definition reading :: "(string, 'v::zero) btree \<Rightarrow> string \<Rightarrow> 'v" where
  "reading m a = (case bt_lookup m a of None \<Rightarrow> 0 | Some v \<Rightarrow> v)"

lemma set_live_entries:
  "bt_wf m \<Longrightarrow> (a, v) \<in> set (live_entries m) \<longleftrightarrow> v \<noteq> 0 \<and> reading m a = v"
  using bt.set_entries [of m a v] by (auto simp: live_entries_def reading_def split: option.splits)

lemma live_entries_ext:
  assumes "bt_wf m" "bt_wf n" "reading m = reading n"
  shows "live_entries m = live_entries n"
proof -
  have "bt_lookup m k = Some v \<longleftrightarrow> bt_lookup n k = Some v" if "v \<noteq> 0" for k v
    using that fun_cong [OF assms(3), of k] by (auto simp: reading_def split: option.splits)
  then show ?thesis
    unfolding live_entries_def
    by (intro bt.filter_entries_ext [OF assms(1,2)]) auto
qed

lemma reading_ext:
  assumes "bt_wf m" "bt_wf n" "live_entries m = live_entries n"
  shows "reading m = reading n"
proof
  fix a
  show "reading m a = reading n a"
    using set_live_entries [OF assms(1), of a "reading m a"] set_live_entries [OF assms(2), of a "reading m a"]
      set_live_entries [OF assms(1), of a "reading n a"] set_live_entries [OF assms(2), of a "reading n a"]
      assms(3) by (cases "reading m a = 0"; cases "reading n a = 0") auto
qed

fun entry_bytes :: "('db, 'x) ext_scheme \<Rightarrow> ('v \<Rightarrow> u8 list) \<Rightarrow> (string \<times> 'v) list \<Rightarrow> u8 list" where
  "entry_bytes X enc [] = []"
| "entry_bytes X enc ((k, v) # es) =
     (case decode_account_key X k of Inr bs \<Rightarrow> bs @ enc v | Inl _ \<Rightarrow> []) @ entry_bytes X enc es"

lemma append_entries_Inr_iff:
  "append_entries X enc out es = Inr v \<longleftrightarrow>
     (\<forall>p\<in>set es. \<exists>bs. decode_account_key X (fst p) = Inr bs) \<and> v = out @ entry_bytes X enc es"
  by (induction X enc out es rule: append_entries.induct) (auto split: sum.splits)

lemma length_entry_bytes:
  assumes "\<forall>p\<in>set es. \<exists>bs. decode_account_key X (fst p) = Inr bs" "\<And>v. length (enc v) = n"
  shows "length (entry_bytes X enc es) = (32 + n) * length es"
  using assms(1)
  by (induction es) (auto simp: assms(2) dest: decode_account_key_length)

lemma entry_bytes_inject:
  assumes X: "hex_laws X" and enc: "\<And>v. length (enc v) = n" "\<And>v w. enc v = enc w \<Longrightarrow> v = w"
    and es: "\<forall>p\<in>set es. \<exists>bs. decode_account_key X (fst p) = Inr bs"
    and fs: "\<forall>p\<in>set fs. \<exists>bs. decode_account_key X (fst p) = Inr bs"
    and len: "length es = length fs"
    and eq: "entry_bytes X enc es = entry_bytes X enc fs"
  shows "es = fs"
  using len es fs eq
proof (induction es fs rule: list_induct2)
  case Nil
  then show ?case by simp
next
  case (Cons p es q fs)
  obtain k v where p: "p = (k, v)" by (cases p)
  obtain j w where q: "q = (j, w)" by (cases q)
  obtain a where a: "decode_account_key X k = Inr a" using Cons.prems p by auto
  obtain b where b: "decode_account_key X j = Inr b" using Cons.prems q by auto
  have len: "length a = length b" using a b by (simp add: decode_account_key_length)
  have eq: "a @ enc v @ entry_bytes X enc es = b @ enc w @ entry_bytes X enc fs"
    using Cons.prems p q a b by simp
  then have "a = b" "enc v = enc w" "entry_bytes X enc es = entry_bytes X enc fs"
    using len enc(1) by (simp_all add: append_eq_append_conv)
  moreover have "k = j" using a b \<open>a = b\<close> decode_account_key_inject [OF X] by blast
  moreover have "es = fs" using Cons.IH Cons.prems \<open>entry_bytes X enc es = _\<close> by simp
  ultimately show ?case using p q enc(2) by blast
qed

section \<open>The vector\<close>

text \<open>Every account that appears in the vector has a good key.\<close>

definition keys_ok :: "(string, 'v::zero) btree \<Rightarrow> bool" where
  "keys_ok m \<longleftrightarrow> (\<forall>p\<in>set (live_entries m). is_lowercase_hex_32_bytes (fst p))"

lemma keys_decode:
  "hex_laws X \<Longrightarrow> keys_ok m \<longleftrightarrow> (\<forall>p\<in>set (live_entries m). \<exists>bs. decode_account_key X (fst p) = Inr bs)"
  using hex_decode_lower [of X] by (fastforce simp: keys_ok_def decode_account_key_Inr_iff)

lemma state_vector_Inr_iff:
  assumes "hex_laws X" "bt_wf b" "bt_wf n"
  shows "canonical_state_vector X b n = Inr v \<longleftrightarrow> keys_ok b \<and> keys_ok n \<and>
    v = encode_header @ u64_to_le_bytes (word_of_nat (length (live_entries b)))
        @ entry_bytes X u128_to_le_bytes (live_entries b)
        @ u64_to_le_bytes (word_of_nat (length (live_entries n)))
        @ entry_bytes X u64_to_le_bytes (live_entries n)"
  unfolding canonical_state_vector_def append_balances_def append_nonces_def Let_def
    live_entries_sorted [OF assms(2)] live_entries_sorted [OF assms(3)] keys_decode [OF assms(1)]
  by (auto simp: append_entries_Inr_iff split: sum.splits)
    (metis append_entries_Inr_iff sum.distinct(1))

text \<open>The readings determine the vector, and where there is one it determines the readings.\<close>

lemma keys_ok_ext: "bt_wf m \<Longrightarrow> bt_wf n \<Longrightarrow> reading m = reading n \<Longrightarrow> keys_ok m = keys_ok n"
  unfolding keys_ok_def by (drule (2) live_entries_ext) simp

lemma state_vector_ext:
  assumes "bt_wf b" "bt_wf b'" "bt_wf n" "bt_wf n'" "reading b = reading b'" "reading n = reading n'"
  shows "canonical_state_vector X b n = canonical_state_vector X b' n'"
  unfolding canonical_state_vector_def append_balances_def append_nonces_def Let_def
    live_entries_sorted [OF assms(1)] live_entries_sorted [OF assms(2)]
    live_entries_sorted [OF assms(3)] live_entries_sorted [OF assms(4)]
    live_entries_ext [OF assms(1,2,5)] live_entries_ext [OF assms(3,4,6)]
  by (rule refl)

lemma word_of_nat_u64_inject:
  assumes "a < 2 ^ 64" "b < 2 ^ 64" "(word_of_nat a :: u64) = word_of_nat b"
  shows "a = b"
proof -
  have "unat (word_of_nat a :: u64) = a" "unat (word_of_nat b :: u64) = b"
    using assms(1,2) by (intro unat_of_nat_small; simp)+
  then show ?thesis using assms(3) by metis
qed

lemma state_vector_inject:
  assumes X: "hex_laws X" and wf: "bt_wf b" "bt_wf b'" "bt_wf n" "bt_wf n'"
    and len: "length b < 2 ^ 64" "length b' < 2 ^ 64" "length n < 2 ^ 64" "length n' < 2 ^ 64"
    and v: "canonical_state_vector X b n = Inr v" "canonical_state_vector X b' n' = Inr v"
  shows "reading b = reading b' \<and> reading n = reading n'"
proof -
  have short: "length (live_entries m) \<le> length m" for m :: "(string, 'v::zero) btree"
    by (simp add: live_entries_def bt_entries_def)
  let ?dec = "\<lambda>m. \<forall>p\<in>set (live_entries m). \<exists>bs. decode_account_key X (fst p) = Inr bs"
  have ok: "?dec b" "?dec b'" "?dec n" "?dec n'"
    using v wf state_vector_Inr_iff [OF X] keys_decode [OF X] by metis+
  let ?cnt = "\<lambda>es. u64_to_le_bytes (word_of_nat (length es))"
  have "?cnt (live_entries b) @ entry_bytes X u128_to_le_bytes (live_entries b)
      @ ?cnt (live_entries n) @ entry_bytes X u64_to_le_bytes (live_entries n)
    = ?cnt (live_entries b') @ entry_bytes X u128_to_le_bytes (live_entries b')
      @ ?cnt (live_entries n') @ entry_bytes X u64_to_le_bytes (live_entries n')"
    using v wf by (simp add: state_vector_Inr_iff [OF X])
  then have cb: "?cnt (live_entries b) = ?cnt (live_entries b')"
    and rest: "entry_bytes X u128_to_le_bytes (live_entries b)
      @ ?cnt (live_entries n) @ entry_bytes X u64_to_le_bytes (live_entries n)
    = entry_bytes X u128_to_le_bytes (live_entries b')
      @ ?cnt (live_entries n') @ entry_bytes X u64_to_le_bytes (live_entries n')"
    by (simp_all add: append_eq_append_conv)
  have lb: "length (live_entries b) = length (live_entries b')"
    using cb len short [of b] short [of b'] by (auto intro!: word_of_nat_u64_inject)
  then have "length (entry_bytes X u128_to_le_bytes (live_entries b))
      = length (entry_bytes X u128_to_le_bytes (live_entries b'))"
    using length_entry_bytes [where enc = u128_to_le_bytes and n = 16, OF ok(1)]
      length_entry_bytes [where enc = u128_to_le_bytes and n = 16, OF ok(2)] by simp
  then have eb: "entry_bytes X u128_to_le_bytes (live_entries b) = entry_bytes X u128_to_le_bytes (live_entries b')"
    and cn: "?cnt (live_entries n) = ?cnt (live_entries n')"
    and en: "entry_bytes X u64_to_le_bytes (live_entries n) = entry_bytes X u64_to_le_bytes (live_entries n')"
    using rest by (simp_all add: append_eq_append_conv)
  have ln: "length (live_entries n) = length (live_entries n')"
    using cn len short [of n] short [of n'] by (auto intro!: word_of_nat_u64_inject)
  have "live_entries b = live_entries b'"
    by (rule entry_bytes_inject [where enc = u128_to_le_bytes and n = 16, OF X _ _ ok(1,2) lb eb]) simp_all
  moreover have "live_entries n = live_entries n'"
    by (rule entry_bytes_inject [where enc = u64_to_le_bytes and n = 8, OF X _ _ ok(3,4) ln en]) simp_all
  ultimately show ?thesis using reading_ext [OF wf(1,2)] reading_ext [OF wf(3,4)] by simp
qed

end
