(* ===== verification/Ledger.thy ===== *)
theory Ledger
  imports State_Root
begin

text \<open>
  The account effects of a block: \<open>block_reward\<close> (\<open>miner/job.rs\<close>),
  \<open>apply_coinbase_reward\<close>, \<open>execute_non_coinbase_txs\<close> and the replay loop that
  \<open>chain/accept.rs\<close> runs over canonical and side blocks. The lemmas account for every unit:
  a replay creates exactly the block rewards and burns exactly the fees.
\<close>

definition block_reward :: "u64 \<Rightarrow> u128" where
  "block_reward height = shr_u128 EMISSION_PER_BLOCK (height div HALVING_INTERVAL)"

datatype coinbase_error = InvalidMinerAddress | CoinbaseRewardOverflow

text \<open>The entry is created before the checked addition, so it stays behind on overflow.\<close>

definition apply_coinbase_reward ::
  "tx_execution_state \<Rightarrow> string \<Rightarrow> u64 \<Rightarrow> tx_execution_state \<times> (coinbase_error + unit)" where
  "apply_coinbase_reward s mnr height =
     (if length mnr \<noteq> 64 \<or> \<not> is_lowercase_hex mnr then (s, Inl InvalidMinerAddress)
      else
        let reward = block_reward height;
            entry = es_balance_of s mnr
        in case checked_add entry reward of
             None \<Rightarrow> (s\<lparr>es_balances := bt_insert mnr entry (es_balances s)\<rparr>, Inl CoinbaseRewardOverflow)
           | Some v \<Rightarrow> (s\<lparr>es_balances := bt_insert mnr v (es_balances s)\<rparr>, Inr ()))"

datatype replay_error = TxFailed nat tx_execution_error | RewardFailed coinbase_error

definition execute_non_coinbase_txs ::
  "('db, 'x) ext_scheme \<Rightarrow> tx_execution_state \<Rightarrow> block
     \<Rightarrow> tx_execution_state \<times> (replay_error + tx_execution_outcome list)" where
  "execute_non_coinbase_txs X s blk =
     (case run_all (simulate_tx_execution X) 1 s (drop 1 (txs blk)) of
        (s', Inl (i, e)) \<Rightarrow> (s', Inl (TxFailed i e))
      | (s', Inr rs) \<Rightarrow> (s', Inr rs))"

text \<open>The body of the replay loops: the transactions, then the reward unless it is genesis.\<close>

definition replay_block ::
  "('db, 'x) ext_scheme \<Rightarrow> tx_execution_state \<Rightarrow> block \<Rightarrow> replay_error + tx_execution_state" where
  "replay_block X s blk =
     (case execute_non_coinbase_txs X s blk of
        (_, Inl e) \<Rightarrow> Inl e
      | (s1, Inr _) \<Rightarrow>
          if number (header blk) \<noteq> 0
          then (case apply_coinbase_reward s1 (miner (header blk)) (number (header blk)) of
                  (_, Inl e) \<Rightarrow> Inl (RewardFailed e)
                | (s2, Inr _) \<Rightarrow> Inr s2)
          else Inr s1)"

fun replay_blocks ::
  "('db, 'x) ext_scheme \<Rightarrow> tx_execution_state \<Rightarrow> block list \<Rightarrow> replay_error + tx_execution_state" where
  "replay_blocks X s [] = Inr s"
| "replay_blocks X s (blk # blks) =
     (case replay_block X s blk of Inl e \<Rightarrow> Inl e | Inr s' \<Rightarrow> replay_blocks X s' blks)"

section \<open>What a block costs and what it creates\<close>

definition tx_fee :: "tx \<Rightarrow> nat" where
  "tx_fee t = unat CASH_TRANSFER_BASE_FEE + unat (tip t)"

definition block_fees :: "block \<Rightarrow> nat" where
  "block_fees b = (\<Sum>t\<leftarrow>drop 1 (txs b). tx_fee t)"

definition block_subsidy :: "block \<Rightarrow> nat" where
  "block_subsidy b = (if number (header b) = 0 then 0 else unat (block_reward (number (header b))))"

definition senders_in :: "string \<Rightarrow> block \<Rightarrow> nat" where
  "senders_in a b = length (filter (\<lambda>t. sender_pubkey t = a) (drop 1 (txs b)))"

lemma unat_block_reward:
  "unat (block_reward h) = 510000000000 div 2 ^ (unat h div 2102400 mod 128)"
proof -
  have "unat (h div HALVING_INTERVAL) = unat h div 2102400"
    by (simp add: HALVING_INTERVAL_def unat_div_distrib)
  then show ?thesis by (simp add: block_reward_def unat_shr_u128 EMISSION_PER_BLOCK_def)
qed

lemma charged_fee_tx_fee:
  "simulate_tx_execution X s t = (s', Inr r) \<Longrightarrow> unat (charged_fee r) = tx_fee t"
  by (elim simulate_InrE) (simp add: tx_fee_def unat_checked_add)

lemma run_charged_fees:
  "run_all (simulate_tx_execution X) i s ts = (s', Inr rs) \<Longrightarrow>
     (\<Sum>r\<leftarrow>rs. unat (charged_fee r)) = (\<Sum>t\<leftarrow>ts. tx_fee t)"
  by (induction ts arbitrary: i s rs)
    (auto split: prod.splits sum.splits simp: charged_fee_tx_fee)

lemma execute_InrD:
  "execute_non_coinbase_txs X s b = (s', Inr rs) \<Longrightarrow>
     run_all (simulate_tx_execution X) 1 s (drop 1 (txs b)) = (s', Inr rs)"
  by (auto simp: execute_non_coinbase_txs_def split: prod.splits sum.splits)

lemma execute_wf: "es_wf s \<Longrightarrow> execute_non_coinbase_txs X s b = (s', Inr rs) \<Longrightarrow> es_wf s'"
  by (blast dest: execute_InrD intro: ledger.run_wf)

lemma execute_supply:
  assumes "es_wf s" "execute_non_coinbase_txs X s b = (s', Inr rs)"
  shows "supply_of (es_balances s') + block_fees b = supply_of (es_balances s)"
  using ledger.run_supply [OF assms(1) execute_InrD [OF assms(2)]]
    run_charged_fees [OF execute_InrD [OF assms(2)]]
  by (simp add: block_fees_def)

lemma execute_nonce:
  "execute_non_coinbase_txs X s b = (s', Inr rs) \<Longrightarrow>
     unat (es_nonce_of s' a) = unat (es_nonce_of s a) + senders_in a b"
  using ledger.run_nonce [OF execute_InrD] by (simp add: senders_in_def)

lemma coinbase_InrD:
  assumes "apply_coinbase_reward s m h = (s', Inr u)"
  shows "\<exists>v. checked_add (es_balance_of s m) (block_reward h) = Some v \<and>
    s' = s\<lparr>es_balances := bt_insert m v (es_balances s)\<rparr> \<and> is_lowercase_hex_32_bytes m"
  using assms
  by (auto simp: apply_coinbase_reward_def is_lowercase_hex_32_bytes_def Let_def
      split: if_splits option.splits)

lemma coinbase_supply:
  assumes "es_wf s" "apply_coinbase_reward s m h = (s', Inr u)"
  shows "supply_of (es_balances s') = supply_of (es_balances s) + unat (block_reward h)"
proof -
  obtain v where v: "checked_add (es_balance_of s m) (block_reward h) = Some v"
    "s' = s\<lparr>es_balances := bt_insert m v (es_balances s)\<rparr>"
    using coinbase_InrD [OF assms(2)] by blast
  have "(case bt_lookup (es_balances s) m of None \<Rightarrow> 0 | Some u \<Rightarrow> unat u) = unat (es_balance_of s m)"
    by (simp add: es_balance_of_def split: option.splits)
  then show ?thesis
    using bt_total_insert [of "es_balances s" unat m v] assms(1) unat_checked_add [OF v(1)]
    by (simp add: v(2) supply_of_def es_wf_def)
qed

lemma coinbase_wf: "es_wf s \<Longrightarrow> apply_coinbase_reward s m h = (s', Inr u) \<Longrightarrow> es_wf s'"
  using coinbase_InrD [of s m h s' u] by (auto simp: es_wf_def)

lemma coinbase_nonces: "apply_coinbase_reward s m h = (s', r) \<Longrightarrow> es_nonces s' = es_nonces s"
  by (auto simp: apply_coinbase_reward_def Let_def split: if_splits option.splits)

lemma replay_block_InrE:
  assumes "replay_block X s b = Inr s'"
  obtains s1 rs where "execute_non_coinbase_txs X s b = (s1, Inr rs)"
    "number (header b) = 0 \<and> s' = s1 \<or>
     number (header b) \<noteq> 0 \<and>
       apply_coinbase_reward s1 (miner (header b)) (number (header b)) = (s', Inr ())"
  using assms by (auto simp: replay_block_def split: prod.splits sum.splits if_splits)

lemma replay_block_wf: "es_wf s \<Longrightarrow> replay_block X s b = Inr s' \<Longrightarrow> es_wf s'"
  by (elim replay_block_InrE) (auto dest: execute_wf coinbase_wf)

lemma replay_block_supply:
  assumes wf: "es_wf s" and ok: "replay_block X s b = Inr s'"
  shows "supply_of (es_balances s') + block_fees b = supply_of (es_balances s) + block_subsidy b"
  using ok
proof (rule replay_block_InrE)
  fix s1 rs
  assume ex: "execute_non_coinbase_txs X s b = (s1, Inr rs)"
    and r: "number (header b) = 0 \<and> s' = s1 \<or> number (header b) \<noteq> 0 \<and>
       apply_coinbase_reward s1 (miner (header b)) (number (header b)) = (s', Inr ())"
  have "es_wf s1" using wf ex by (rule execute_wf)
  then have "supply_of (es_balances s') = supply_of (es_balances s1) + block_subsidy b"
    using r coinbase_supply [of s1] by (auto simp: block_subsidy_def)
  then show ?thesis using execute_supply [OF wf ex] by simp
qed

lemma coinbase_nonce_of: "apply_coinbase_reward s m h = (s', r) \<Longrightarrow> es_nonce_of s' a = es_nonce_of s a"
  by (drule coinbase_nonces) (simp add: es_nonce_of_def)

lemma replay_block_nonce:
  "replay_block X s b = Inr s' \<Longrightarrow> unat (es_nonce_of s' a) = unat (es_nonce_of s a) + senders_in a b"
  by (elim replay_block_InrE) (auto simp: execute_nonce coinbase_nonce_of)

lemma replay_blocks_append:
  "replay_blocks X s (as @ bs) =
     (case replay_blocks X s as of Inl e \<Rightarrow> Inl e | Inr s' \<Rightarrow> replay_blocks X s' bs)"
  by (induction as arbitrary: s) (auto split: sum.splits)

lemma replay_blocks_wf: "es_wf s \<Longrightarrow> replay_blocks X s bs = Inr s' \<Longrightarrow> es_wf s'"
  by (induction bs arbitrary: s) (auto split: sum.splits dest: replay_block_wf)

lemma replay_blocks_supply:
  "es_wf s \<Longrightarrow> replay_blocks X s bs = Inr s' \<Longrightarrow>
     supply_of (es_balances s') + (\<Sum>b\<leftarrow>bs. block_fees b)
       = supply_of (es_balances s) + (\<Sum>b\<leftarrow>bs. block_subsidy b)"
proof (induction bs arbitrary: s)
  case Nil
  then show ?case by simp
next
  case (Cons b bs)
  then obtain s1 where s1: "replay_block X s b = Inr s1" "replay_blocks X s1 bs = Inr s'"
    by (auto split: sum.splits)
  then show ?case
    using Cons.IH [of s1] Cons.prems(1) replay_block_wf [of s X b s1] replay_block_supply [of s X b s1]
    by simp
qed

lemma replay_blocks_nonce:
  "replay_blocks X s bs = Inr s' \<Longrightarrow>
     unat (es_nonce_of s' a) = unat (es_nonce_of s a) + (\<Sum>b\<leftarrow>bs. senders_in a b)"
  by (induction bs arbitrary: s) (auto split: sum.splits dest: replay_block_nonce)

end
