(* ===== verification/Reference_Env.thy ===== *)
theory Reference_Env
  imports Types
begin

text \<open>
  A concrete instance of the external code: real hexadecimal text, a self-delimiting byte
  encoding in place of bincode, an association list in place of sled, and stand-ins for the
  cryptographic primitives. Nothing of the model depends on it; the examples that show a
  theorem's hypotheses can hold are evaluated in it.
\<close>

section \<open>Hexadecimal text\<close>

definition nibble_char :: "nat \<Rightarrow> char" where
  "nibble_char n = char_of (if n < 10 then 48 + n else 87 + n)"

definition char_nibble :: "char \<Rightarrow> nat option" where
  "char_nibble c = (let k = of_char c :: nat in
     if 48 \<le> k \<and> k \<le> 57 then Some (k - 48)
     else if 97 \<le> k \<and> k \<le> 102 then Some (k - 87)
     else if 65 \<le> k \<and> k \<le> 70 then Some (k - 55) else None)"

fun ref_hex_encode :: "u8 list \<Rightarrow> string" where
  "ref_hex_encode [] = []"
| "ref_hex_encode (b # bs) =
     nibble_char (unat b div 16) # nibble_char (unat b mod 16) # ref_hex_encode bs"

fun ref_hex_decode :: "string \<Rightarrow> u8 list option" where
  "ref_hex_decode [] = Some []"
| "ref_hex_decode [c] = None"
| "ref_hex_decode (c # d # s) =
     (case (char_nibble c, char_nibble d, ref_hex_decode s) of
        (Some x, Some y, Some bs) \<Rightarrow> Some (word_of_nat (16 * x + y) # bs)
      | _ \<Rightarrow> None)"

lemma nibble_less: "n < (16::nat) \<Longrightarrow> n \<in> {0,1,2,3,4,5,6,7,8,9,10,11,12,13,14,15}"
  by (simp; presburger)

lemma char_nibble_char [simp]: "n < 16 \<Longrightarrow> char_nibble (nibble_char n) = Some n"
  by (drule nibble_less) (auto simp: char_nibble_def nibble_char_def)

lemma nibble_char_lower [simp]: "n < 16 \<Longrightarrow> is_lower_hex_char (nibble_char n)"
  by (drule nibble_less) (auto simp: is_lower_hex_char_def nibble_char_def)

lemma lower_nibble:
  assumes "is_lower_hex_char c"
  shows "\<exists>n<16. char_nibble c = Some n \<and> c = nibble_char n"
proof -
  define k where "k = (of_char c :: nat)"
  have c: "c = char_of k" by (simp add: k_def)
  have "(48 \<le> k \<and> k \<le> 57) \<or> (97 \<le> k \<and> k \<le> 102)"
    using assms by (simp add: is_lower_hex_char_def k_def Let_def)
  then show ?thesis
  proof
    assume k: "48 \<le> k \<and> k \<le> 57"
    then have "char_nibble c = Some (k - 48)" by (simp add: char_nibble_def k_def Let_def)
    moreover have "c = nibble_char (k - 48)" using k by (auto simp: nibble_char_def c)
    ultimately show ?thesis using k by (intro exI [of _ "k - 48"]) auto
  next
    assume k: "97 \<le> k \<and> k \<le> 102"
    then have "char_nibble c = Some (k - 87)" by (simp add: char_nibble_def k_def Let_def)
    moreover have "c = nibble_char (k - 87)" using k by (auto simp: nibble_char_def c)
    ultimately show ?thesis using k by (intro exI [of _ "k - 87"]) auto
  qed
qed

lemma u8_bound: "unat (b :: u8) < 256"
  using unsigned_less [of b] by simp

lemma ref_hex_shape: "is_lowercase_hex (ref_hex_encode bs) \<and> length (ref_hex_encode bs) = 2 * length bs"
proof (induction bs)
  case Nil
  then show ?case by (simp add: is_lowercase_hex_def)
next
  case (Cons b bs)
  have "unat b div 16 < 16" using u8_bound [of b] by simp
  with Cons show ?case by (simp add: is_lowercase_hex_def)
qed

lemma ref_hex_roundtrip: "ref_hex_decode (ref_hex_encode bs) = Some bs"
proof (induction bs)
  case Nil
  then show ?case by simp
next
  case (Cons b bs)
  have "unat b div 16 < 16" using u8_bound [of b] by simp
  with Cons show ?case by simp
qed

lemma ref_hex_lower:
  "is_lowercase_hex s \<Longrightarrow> even (length s) \<Longrightarrow> \<exists>bs. s = ref_hex_encode bs"
proof (induction s rule: ref_hex_decode.induct)
  case 1
  then show ?case by (metis ref_hex_encode.simps(1))
next
  case (2 c)
  then show ?case by simp
next
  case (3 c d s)
  then obtain x y where x: "x < 16" "c = nibble_char x" and y: "y < 16" "d = nibble_char y"
    using lower_nibble [of c] lower_nibble [of d] by (auto simp: is_lowercase_hex_def)
  have "\<exists>bs. s = ref_hex_encode bs"
  proof (rule 3(1))
    show "is_lowercase_hex s" "even (length s)" using 3 by (simp_all add: is_lowercase_hex_def)
  qed
  then obtain bs where s: "s = ref_hex_encode bs" by blast
  have u: "unat (word_of_nat (16 * x + y) :: u8) = 16 * x + y"
    using x y by (intro unat_of_nat_small) simp
  have "c # d # s = ref_hex_encode (word_of_nat (16 * x + y) # bs)"
    using x y by (simp only: ref_hex_encode.simps u) (simp add: s)
  then show ?case by blast
qed

section \<open>A self-delimiting encoding\<close>

type_synonym 'a decoder = "u8 list \<Rightarrow> ('a \<times> u8 list) option"

definition decodes :: "('a \<Rightarrow> u8 list) \<Rightarrow> 'a decoder \<Rightarrow> bool" where
  "decodes e d \<longleftrightarrow> (\<forall>x r. d (e x @ r) = Some (x, r))"

fun enc_list :: "('a \<Rightarrow> u8 list) \<Rightarrow> 'a list \<Rightarrow> u8 list" where
  "enc_list e [] = [0]"
| "enc_list e (x # xs) = 1 # e x @ enc_list e xs"

fun dec_items :: "nat \<Rightarrow> 'a decoder \<Rightarrow> 'a list decoder" where
  "dec_items 0 d bs = None"
| "dec_items (Suc n) d bs =
     (case bs of
        [] \<Rightarrow> None
      | b # r0 \<Rightarrow>
          (if b = 0 then Some ([], r0)
           else (case d r0 of
               None \<Rightarrow> None
             | Some (x, r) \<Rightarrow>
                 (case dec_items n d r of None \<Rightarrow> None | Some (xs, r') \<Rightarrow> Some (x # xs, r')))))"

definition dec_list :: "'a decoder \<Rightarrow> 'a list decoder" where
  "dec_list d bs = dec_items (length bs) d bs"

lemma dec_items_enc:
  "decodes e d \<Longrightarrow> length xs < n \<Longrightarrow> dec_items n d (enc_list e xs @ r) = Some (xs, r)"
proof (induction xs arbitrary: n)
  case Nil
  then show ?case by (cases n) auto
next
  case (Cons x xs)
  then obtain m where n: "n = Suc m" by (cases n) auto
  then have "dec_items m d (enc_list e xs @ r) = Some (xs, r)" using Cons by simp
  then show ?case using Cons.prems(1) by (simp add: n decodes_def)
qed

lemma length_enc_list: "length xs < length (enc_list e xs)"
  by (induction xs) auto

lemma decodes_list: "decodes e d \<Longrightarrow> decodes (enc_list e) (dec_list d)"
proof -
  assume d: "decodes e d"
  have "dec_list d (enc_list e xs @ r) = Some (xs, r)" for xs r
    unfolding dec_list_def using d length_enc_list [of xs e] by (intro dec_items_enc) simp_all
  then show ?thesis by (simp add: decodes_def)
qed

definition enc_pair :: "('a \<Rightarrow> u8 list) \<Rightarrow> ('b \<Rightarrow> u8 list) \<Rightarrow> 'a \<times> 'b \<Rightarrow> u8 list" where
  "enc_pair e f p = e (fst p) @ f (snd p)"

definition dec_pair :: "'a decoder \<Rightarrow> 'b decoder \<Rightarrow> ('a \<times> 'b) decoder" where
  "dec_pair d g bs =
     (case d bs of None \<Rightarrow> None
      | Some (x, r) \<Rightarrow> (case g r of None \<Rightarrow> None | Some (y, r') \<Rightarrow> Some ((x, y), r')))"

lemma decodes_pair: "decodes e d \<Longrightarrow> decodes f g \<Longrightarrow> decodes (enc_pair e f) (dec_pair d g)"
  by (simp add: decodes_def enc_pair_def dec_pair_def)

definition enc_map :: "('b \<Rightarrow> 'a) \<Rightarrow> ('a \<Rightarrow> u8 list) \<Rightarrow> 'b \<Rightarrow> u8 list" where
  "enc_map f e x = e (f x)"

definition dec_map :: "('a \<Rightarrow> 'b) \<Rightarrow> 'a decoder \<Rightarrow> 'b decoder" where
  "dec_map h d bs = map_option (\<lambda>(x, r). (h x, r)) (d bs)"

lemma decodes_map: "decodes e d \<Longrightarrow> (\<And>x. h (f x) = x) \<Longrightarrow> decodes (enc_map f e) (dec_map h d)"
  by (simp add: decodes_def enc_map_def dec_map_def)

definition enc_word :: "nat \<Rightarrow> 'w::len word \<Rightarrow> u8 list" where
  "enc_word n w = le_nat n (unat w)"

definition dec_word :: "nat \<Rightarrow> 'w::len word decoder" where
  "dec_word n bs = (if length bs < n then None else Some (word_of_nat (nat_le (take n bs)), drop n bs))"

lemma decodes_word: "LENGTH('w::len) = 8 * n \<Longrightarrow> decodes (enc_word n) (dec_word n :: 'w word decoder)"
proof -
  assume n: "LENGTH('w) = 8 * n"
  have "nat_le (le_nat n (unat w)) = unat w" for w :: "'w word"
  proof -
    have "unat w < 2 ^ (8 * n)" using unat_bound [of w] n by simp
    then show ?thesis by (simp add: nat_le_le_nat power_mult)
  qed
  then show ?thesis by (simp add: decodes_def enc_word_def dec_word_def)
qed

definition run_decoder :: "'a decoder \<Rightarrow> u8 list \<Rightarrow> 'a option" where
  "run_decoder d bs = map_option fst (d bs)"

lemma run_decoder_enc: "decodes e d \<Longrightarrow> run_decoder d (e x) = Some x"
  unfolding decodes_def run_decoder_def by (metis append.right_neutral fst_conv option.simps(9))

section \<open>The encoders of the data model\<close>

definition enc_u64 :: "u64 \<Rightarrow> u8 list" where "enc_u64 = enc_word 8"
definition dec_u64 :: "u64 decoder" where "dec_u64 = dec_word 8"
definition enc_u128 :: "u128 \<Rightarrow> u8 list" where "enc_u128 = enc_word 16"
definition dec_u128 :: "u128 decoder" where "dec_u128 = dec_word 16"
definition enc_bytes :: "u8 list \<Rightarrow> u8 list" where "enc_bytes = enc_list (enc_word 1)"
definition dec_bytes :: "u8 list decoder" where "dec_bytes = dec_list (dec_word 1)"

definition enc_string :: "string \<Rightarrow> u8 list" where
  "enc_string = enc_map as_bytes enc_bytes"

definition dec_string :: "string decoder" where
  "dec_string = dec_map string_of_bytes dec_bytes"

lemma decodes_u64: "decodes enc_u64 dec_u64"
  unfolding enc_u64_def dec_u64_def by (rule decodes_word) simp

lemma decodes_u128: "decodes enc_u128 dec_u128"
  unfolding enc_u128_def dec_u128_def by (rule decodes_word) simp

lemma decodes_bytes: "decodes enc_bytes dec_bytes"
  unfolding enc_bytes_def dec_bytes_def by (rule decodes_list, rule decodes_word) simp

lemma decodes_string: "decodes enc_string dec_string"
  unfolding enc_string_def dec_string_def
  by (rule decodes_map [OF decodes_bytes]) simp

lemmas decodes_basic = decodes_u64 decodes_u128 decodes_bytes decodes_string

type_synonym tx_tuple =
  "u64 \<times> string \<times> string \<times> string \<times> u8 list \<times> u64 \<times> u64 \<times> string"

definition tx_to_tuple :: "tx \<Rightarrow> tx_tuple" where
  "tx_to_tuple t = (tx_nonce t, sender_pubkey t, module t, method_name t, args t, tip t, fee_limit t, sig t)"

definition tx_of_tuple :: "tx_tuple \<Rightarrow> tx" where
  "tx_of_tuple p = (case p of (n, s, m, c, a, t, f, g) \<Rightarrow>
     \<lparr>tx_nonce = n, sender_pubkey = s, module = m, method_name = c, args = a, tip = t,
      fee_limit = f, sig = g\<rparr>)"

definition enc_tx :: "tx \<Rightarrow> u8 list" where
  "enc_tx = enc_map tx_to_tuple (enc_pair enc_u64 (enc_pair enc_string (enc_pair enc_string
     (enc_pair enc_string (enc_pair enc_bytes (enc_pair enc_u64 (enc_pair enc_u64 enc_string)))))))"

definition dec_tx :: "tx decoder" where
  "dec_tx = dec_map tx_of_tuple (dec_pair dec_u64 (dec_pair dec_string (dec_pair dec_string
     (dec_pair dec_string (dec_pair dec_bytes (dec_pair dec_u64 (dec_pair dec_u64 dec_string)))))))"

lemma decodes_tx: "decodes enc_tx dec_tx"
  unfolding enc_tx_def dec_tx_def
  by (intro decodes_map decodes_pair decodes_basic) (simp add: tx_to_tuple_def tx_of_tuple_def)

type_synonym header_tuple =
  "string \<times> u64 \<times> u64 \<times> u64 \<times> u64 \<times> string \<times> string \<times> string \<times> string"

definition header_to_tuple :: "block_header \<Rightarrow> header_tuple" where
  "header_to_tuple h = (parent_hash h, number h, timestamp h, difficulty h, nonce h, pow_hash h,
     state_root h, tx_root h, miner h)"

definition header_of_tuple :: "header_tuple \<Rightarrow> block_header" where
  "header_of_tuple p = (case p of (ph, n, t, d, c, w, s, r, m) \<Rightarrow>
     \<lparr>parent_hash = ph, number = n, timestamp = t, difficulty = d, nonce = c, pow_hash = w,
      state_root = s, tx_root = r, miner = m\<rparr>)"

definition enc_block :: "block \<Rightarrow> u8 list" where
  "enc_block = enc_map (\<lambda>b. (header_to_tuple (header b), txs b, weight b))
     (enc_pair (enc_pair enc_string (enc_pair enc_u64 (enc_pair enc_u64 (enc_pair enc_u64
       (enc_pair enc_u64 (enc_pair enc_string (enc_pair enc_string (enc_pair enc_string enc_string))))))))
     (enc_pair (enc_list enc_tx) enc_u64))"

definition dec_block :: "block decoder" where
  "dec_block = dec_map (\<lambda>(h, ts, w). \<lparr>header = header_of_tuple h, txs = ts, weight = w\<rparr>)
     (dec_pair (dec_pair dec_string (dec_pair dec_u64 (dec_pair dec_u64 (dec_pair dec_u64
       (dec_pair dec_u64 (dec_pair dec_string (dec_pair dec_string (dec_pair dec_string dec_string))))))))
     (dec_pair (dec_list dec_tx) dec_u64))"

lemma decodes_block: "decodes enc_block dec_block"
  unfolding enc_block_def dec_block_def
  by (intro decodes_map decodes_pair decodes_basic decodes_list decodes_tx)
    (simp add: header_to_tuple_def header_of_tuple_def)

section \<open>The instance\<close>

type_synonym ref_db = "(u8 list \<times> u8 list) list"

definition ref_batch :: "batch_op \<Rightarrow> ref_db \<Rightarrow> ref_db" where
  "ref_batch b d = (case b of
     BatchInsert k v \<Rightarrow> (k, v) # filter (\<lambda>p. fst p \<noteq> k) d
   | BatchRemove k \<Rightarrow> filter (\<lambda>p. fst p \<noteq> k) d)"

definition ref_ext :: "ref_db ext" where
  "ref_ext = \<lparr>
     blake3 = (\<lambda>bs. take 32 (bs @ replicate 32 0)),
     hex_encode = ref_hex_encode,
     hex_decode = ref_hex_decode,
     bincode_tx = enc_tx,
     json_transfer_args = (\<lambda>bs. map_option (\<lambda>p. \<lparr>to_addr = fst p, amount = snd p\<rparr>)
       (run_decoder (dec_pair dec_string dec_u128) bs)),
     ed25519_key_ok = (\<lambda>_. True),
     ed25519_verify = (\<lambda>_ _ _. True),
     bincode_block = enc_block,
     unbincode_block = run_decoder dec_block,
     bincode_balances = enc_list (enc_pair enc_string enc_u128),
     unbincode_balances = run_decoder (dec_list (dec_pair dec_string dec_u128)),
     bincode_nonces = enc_list (enc_pair enc_string enc_u64),
     unbincode_nonces = run_decoder (dec_list (dec_pair dec_string dec_u64)),
     bincode_snap_meta = enc_pair enc_u64 enc_string,
     unbincode_snap_meta = run_decoder (dec_pair dec_u64 dec_string),
     bincode_string = enc_string,
     unbincode_string = run_decoder dec_string,
     sled_get = (\<lambda>d k. Some (map_of d k)),
     sled_insert = (\<lambda>d k v. (ref_batch (BatchInsert k v) d, True)),
     sled_apply_batch = (\<lambda>d ops. (fold ref_batch ops d, True)),
     sled_scan_prefix = (\<lambda>d p. filter (\<lambda>e. take (length p) (fst e) = p) d)\<rparr>"

lemma ref_hex_laws: "hex_laws ref_ext"
  unfolding hex_laws_def ref_ext_def
  using ref_hex_shape ref_hex_roundtrip ref_hex_lower by (auto dest: ref_hex_lower)

lemma ref_blake3_laws: "blake3_laws ref_ext"
  by (auto simp: blake3_laws_def ref_ext_def min_def)

lemma map_of_filter_neq: "map_of (filter (\<lambda>p. fst p \<noteq> k) d) = (map_of d)(k := None)"
  by (induction d) auto

lemma map_of_ref_batch: "map_of (ref_batch b d) = batch_effect (map_of d) b"
  by (simp add: ref_batch_def batch_effect_def map_of_filter_neq split: batch_op.split)

lemma map_of_ref_batches: "map_of (fold ref_batch ops d) = foldl batch_effect (map_of d) ops"
  by (induction ops arbitrary: d) (simp_all add: map_of_ref_batch)

lemma ref_db_view: "db_view ref_ext d m \<longleftrightarrow> m = map_of d"
  by (auto simp: db_view_def ref_ext_def)

lemma ref_sled_laws: "sled_laws ref_ext"
  unfolding sled_laws_def ref_db_view
  by (simp add: ref_ext_def map_of_ref_batch map_of_ref_batches batch_effect_def)

lemma ref_bincode_block_laws: "bincode_block_laws ref_ext"
  by (simp add: bincode_block_laws_def ref_ext_def run_decoder_enc [OF decodes_block])

lemma ref_bincode_snapshot_laws: "bincode_snapshot_laws ref_ext"
  unfolding bincode_snapshot_laws_def ref_ext_def
  by (simp add: run_decoder_enc decodes_list decodes_pair decodes_basic)

lemmas ref_laws = ref_hex_laws ref_blake3_laws ref_sled_laws ref_bincode_block_laws
  ref_bincode_snapshot_laws

end
