(* ===== verification/Examples.thy ===== *)
theory Examples
  imports Ledger Reference_Env
begin

text \<open>
  The transactions and blocks the theorems are evaluated on, over the reference environment.
\<close>

text \<open>An address and a transfer to evaluate the theorems on.\<close>

definition demo_addr :: "char \<Rightarrow> string" where
  "demo_addr c = replicate 64 c"

definition demo_transfer :: "u64 \<Rightarrow> u128 \<Rightarrow> tx" where
  "demo_transfer n amt =
     \<lparr>tx_nonce = n, sender_pubkey = demo_addr (CHR ''a''), module = ''cash'', method_name = ''transfer'',
      args = enc_string (demo_addr (CHR ''b'')) @ enc_u128 amt, tip = 4, fee_limit = 300,
      sig = replicate 128 (CHR ''0'')\<rparr>"

definition demo_coinbase :: "u64 \<Rightarrow> tx" where
  "demo_coinbase h =
     \<lparr>tx_nonce = 0, sender_pubkey = [], module = ''coinbase'', method_name = ''reward'',
      args = u64_to_be_bytes h, tip = 0, fee_limit = 0, sig = []\<rparr>"

definition demo_block :: "u64 \<Rightarrow> tx list \<Rightarrow> block" where
  "demo_block h ts =
     \<lparr>header = \<lparr>parent_hash = null_hash, number = h, timestamp = 0, difficulty = 1, nonce = 0,
        pow_hash = null_hash, state_root = null_hash, tx_root = null_hash, miner = demo_addr (CHR ''a'')\<rparr>,
      txs = demo_coinbase h # ts, weight = 1\<rparr>"

section \<open>A light environment\<close>

text \<open>For theorems that ask nothing of the hash and the encodings: identifiers are the pair of
  nonce and tip, every signature verifies, and every transfer moves 1000 units to one address.\<close>

definition light_ext :: "ref_db ext" where
  "light_ext = ref_ext\<lparr>
     blake3 := (\<lambda>bs. bs), hex_encode := string_of_bytes,
     hex_decode := (\<lambda>s. Some (replicate (length s div 2) 0)),
     bincode_tx := (\<lambda>t. [ucast (tx_nonce t), ucast (tip t)]),
     json_transfer_args := (\<lambda>_. Some \<lparr>to_addr = demo_addr (CHR ''b''), amount = 1000\<rparr>)\<rparr>"

definition tipped :: "u64 \<Rightarrow> u64 \<Rightarrow> tx" where
  "tipped n x = \<lparr>tx_nonce = n, sender_pubkey = demo_addr (CHR ''a''), module = ''cash'',
     method_name = ''transfer'', args = [], tip = x, fee_limit = 300, sig = replicate 128 (CHR ''0'')\<rparr>"

lemma tipped_sel [simp]:
  "tx_nonce (tipped n x) = n" "sender_pubkey (tipped n x) = demo_addr (CHR ''a'')"
  "module (tipped n x) = ''cash''" "method_name (tipped n x) = ''transfer''" "args (tipped n x) = []"
  "tip (tipped n x) = x" "fee_limit (tipped n x) = 300" "sig (tipped n x) = replicate 128 (CHR ''0'')"
  by (simp_all add: tipped_def)

lemma light_sel [simp]:
  "blake3 light_ext bs = bs" "hex_encode light_ext bs = string_of_bytes bs"
  "hex_decode light_ext s = Some (replicate (length s div 2) 0)"
  "bincode_tx light_ext t = [ucast (tx_nonce t), ucast (tip t)]"
  "json_transfer_args light_ext bs = Some \<lparr>to_addr = demo_addr (CHR ''b''), amount = 1000\<rparr>"
  "ed25519_key_ok light_ext k = True" "ed25519_verify light_ext k m v = True"
  by (simp_all add: light_ext_def ref_ext_def)

lemma demo_addr_hex [simp]:
  "is_lower_hex_char c \<Longrightarrow> is_lowercase_hex (demo_addr c)"
  "is_lower_hex_char c \<Longrightarrow> is_lowercase_hex_32_bytes (demo_addr c)"
  "length (demo_addr c) = 64" "demo_addr c = demo_addr d \<longleftrightarrow> c = d" "demo_addr c \<noteq> []"
  by (simp_all add: is_lowercase_hex_32_bytes_def is_lowercase_hex_def demo_addr_def list_all_iff)

lemma demo_hex_chars [simp]:
  "is_lower_hex_char (CHR ''a'')" "is_lower_hex_char (CHR ''b'')" "is_lower_hex_char (CHR ''0'')"
  by (simp_all add: is_lower_hex_char_def)

lemma zeros_hex [simp]: "is_lowercase_hex (replicate n (CHR ''0''))"
  by (simp add: is_lowercase_hex_def list_all_iff)

lemma tipped_valid [simp]: "validate_tx_stateless light_ext (tipped n x) = Inr ()"
  by (simp add: validate_tx_stateless_def validate_cash_transfer_stateless_def verify_tx_signature_def
      decode_sender_pubkey_def decode_signature_def decode_cash_transfer_args_def
      serialized_tx_size_def MAX_SERIALIZED_TX_BYTES_def MIN_CASH_TRANSFER_FEE_LIMIT_def
      is_coinbase_reward_def)

lemma tipped_id [simp]:
  "canonical_tx_id light_ext (tipped n x) = [char_of (unat (ucast n :: u8)), char_of (unat (ucast x :: u8))]"
  by (simp add: canonical_tx_id_def canonical_unsigned_payload_def string_of_bytes_def)

end
