(* ===== verification/Ledger_Props.thy ===== *)
theory Ledger_Props
  imports Examples
begin

text \<open>
  What the execution of transactions and blocks guarantees, with the examples the theorems are
  evaluated on.
\<close>

section \<open>Properties\<close>

text \<open>C1: replaying any list of blocks from any account state creates exactly the block rewards
  of the non-genesis blocks and destroys exactly the fees of their transactions: the sum of all
  balances afterwards plus all fees is the sum before plus all rewards. Nothing else in
  transaction execution or coinbase payment changes the total.\<close>

theorem replay_accounts_for_every_unit:
  assumes "es_wf s" "replay_blocks X s bs = Inr s'"
  shows "supply_of (es_balances s') + (\<Sum>b\<leftarrow>bs. block_fees b)
    = supply_of (es_balances s) + (\<Sum>b\<leftarrow>bs. block_subsidy b)"
  using assms by (rule replay_blocks_supply)

text \<open>Two blocks, the second of which moves 1000 units for a fee of 5.\<close>

definition demo_blocks :: "block list" where
  "demo_blocks = [demo_block 1 [], demo_block 2 [demo_transfer 0 1000]]"

definition demo_accounts :: tx_execution_state where
  "demo_accounts =
     \<lparr>es_balances = [(demo_addr (CHR ''a''), 1019999998995), (demo_addr (CHR ''b''), 1000)],
      es_nonces = [(demo_addr (CHR ''a''), 1)]\<rparr>"

lemma demo_replay: "replay_blocks ref_ext tx_execution_state_new demo_blocks = Inr demo_accounts"
  by code_simp

theorem replay_accounts_for_every_unit_witness:
  "supply_of (es_balances demo_accounts) + (\<Sum>b\<leftarrow>demo_blocks. block_fees b)
     = supply_of (es_balances tx_execution_state_new) + (\<Sum>b\<leftarrow>demo_blocks. block_subsidy b)"
  by (rule replay_accounts_for_every_unit [OF es_wf_new demo_replay])

end
