(* ===== verification/Chain_State.thy ===== *)
theory Chain_State
  imports Ledger
begin

text \<open>
  \<open>chain/state.rs\<close>: the in-memory chain state and its queries, with the lookup by hash and
  the ancestor window of \<open>chain/accept.rs\<close> that only read it. Ordered maps the code iterates
  over are \<open>btree\<close>s; hash maps and the maps and sets that are only looked up are partial maps
  and sets. The database handle has the type of the store it belongs to.
\<close>

record reorg_recovery =
  displaced_txs :: "tx list"
  winning_tx_ids :: "string list"

type_synonym orphan_entry = "block \<times> u64 \<times> string"

record 'db chain_state =
  blocks :: "block list"
  cs_difficulty :: u64
  balances :: balances_map
  nonces :: nonces_map
  seen_txs :: "string set"
  seen_blocks :: "string set"
  side_blocks :: "(string, block) btree"
  cumulative_work :: "string \<Rightarrow> u128 option"
  orphan_pool :: "(string, orphan_entry list) btree"
  orphan_by_hash :: "string \<Rightarrow> string option"
  canon_index :: "string \<Rightarrow> u64 option"
  cached_state_root :: "(u64 \<times> string) option"
  pending_reorg_recovery :: "reorg_recovery option"
  db :: 'db

definition empty_chain :: "'db \<Rightarrow> 'db chain_state" where
  "empty_chain d =
     \<lparr>blocks = [], cs_difficulty = DIFFICULTY_FLOOR, balances = [], nonces = [], seen_txs = {},
      seen_blocks = {}, side_blocks = [], cumulative_work = Map.empty, orphan_pool = [],
      orphan_by_hash = Map.empty, canon_index = Map.empty, cached_state_root = None,
      pending_reorg_recovery = None, db = d\<rparr>"

section \<open>Queries\<close>

definition current_height :: "('db, 'm) chain_state_scheme \<Rightarrow> u64" where
  "current_height g = (if blocks g = [] then 0 else number (header (last (blocks g))))"

definition tip_hash :: "('db, 'm) chain_state_scheme \<Rightarrow> string" where
  "tip_hash g = (if blocks g = [] then replicate 64 (CHR ''0'') else pow_hash (header (last (blocks g))))"

definition block_at :: "('db, 'm) chain_state_scheme \<Rightarrow> u64 \<Rightarrow> block option" where
  "block_at g height = (if unat height < length (blocks g) then Some (blocks g ! unat height) else None)"

definition block_by_hash :: "('db, 'm) chain_state_scheme \<Rightarrow> string \<Rightarrow> block option" where
  "block_by_hash g hash =
     (case canon_index g hash of
        Some h \<Rightarrow> block_at g h
      | None \<Rightarrow> bt_lookup (side_blocks g) hash)"

definition resolve_block :: "('db, 'm) chain_state_scheme \<Rightarrow> string \<Rightarrow> block option" where
  "resolve_block g hash =
     (case canon_index g hash of
        Some height \<Rightarrow> block_at g height
      | None \<Rightarrow> bt_lookup (side_blocks g) hash)"

definition balance_of :: "('db, 'm) chain_state_scheme \<Rightarrow> string \<Rightarrow> u128" where
  "balance_of g a = (case bt_lookup (balances g) a of None \<Rightarrow> 0 | Some v \<Rightarrow> v)"

definition nonce_of :: "('db, 'm) chain_state_scheme \<Rightarrow> string \<Rightarrow> u64" where
  "nonce_of g a = (case bt_lookup (nonces g) a of None \<Rightarrow> 0 | Some v \<Rightarrow> v)"

section \<open>Account mutation\<close>

definition credit_balance ::
  "string \<Rightarrow> u128 \<Rightarrow> ('db, 'm) chain_state_scheme \<Rightarrow> ('db, 'm) chain_state_scheme" where
  "credit_balance a amt g =
     g\<lparr>balances := bt_insert a (saturating_add (balance_of g a) amt) (balances g)\<rparr>"

text \<open>The error carries what the account has and what the debit needs.\<close>

definition debit_balance ::
  "string \<Rightarrow> u128 \<Rightarrow> ('db, 'm) chain_state_scheme
     \<Rightarrow> ('db, 'm) chain_state_scheme \<times> (u128 \<times> u128 + unit)" where
  "debit_balance a amt g =
     (let bal = balance_of g a
      in if bal < amt then (g, Inl (bal, amt))
         else (g\<lparr>balances := bt_insert a (bal - amt) (balances g)\<rparr>, Inr ()))"

definition advance_nonce ::
  "string \<Rightarrow> u64 \<Rightarrow> ('db, 'm) chain_state_scheme \<Rightarrow> ('db, 'm) chain_state_scheme" where
  "advance_nonce a next_nonce g =
     g\<lparr>nonces := bt_insert a (if next_nonce > nonce_of g a then next_nonce else nonce_of g a) (nonces g)\<rparr>"

definition refresh_cached_state_root_from_tip ::
  "('db, 'm) chain_state_scheme \<Rightarrow> ('db, 'm) chain_state_scheme" where
  "refresh_cached_state_root_from_tip g =
     g\<lparr>cached_state_root :=
        (if blocks g = [] then None
         else Some (number (header (last (blocks g))), state_root (header (last (blocks g)))))\<rparr>"

section \<open>Walking the chain\<close>

text \<open>At most \<open>limit\<close> ancestors, newest first; the walk stops at the all-zero parent.\<close>

fun collect_ancestors :: "('db, 'm) chain_state_scheme \<Rightarrow> nat \<Rightarrow> string \<Rightarrow> block list" where
  "collect_ancestors g 0 current = []"
| "collect_ancestors g (Suc limit) current =
     (case resolve_block g current of
        None \<Rightarrow> []
      | Some blk \<Rightarrow>
          (let parent = parent_hash (header blk)
           in blk # (if list_all (\<lambda>c. c = CHR ''0'') parent then []
                     else collect_ancestors g limit parent)))"

definition collect_ancestor_window :: "('db, 'm) chain_state_scheme \<Rightarrow> string \<Rightarrow> block list" where
  "collect_ancestor_window g tip0 = rev (collect_ancestors g (unat RETARGET_WINDOW + 1) tip0)"

definition push_canonical ::
  "block \<Rightarrow> u128 \<Rightarrow> ('db, 'm) chain_state_scheme \<Rightarrow> ('db, 'm) chain_state_scheme" where
  "push_canonical blk cw g =
     g\<lparr>pending_reorg_recovery := None,
       cumulative_work := (cumulative_work g)(block_hash blk \<mapsto> cw),
       seen_blocks := insert (block_hash blk) (seen_blocks g),
       canon_index := (canon_index g)(block_hash blk \<mapsto> number (header blk)),
       blocks := blocks g @ [blk]\<rparr>"

text \<open>Account state as execution sees it.\<close>

definition account_state :: "('db, 'm) chain_state_scheme \<Rightarrow> tx_execution_state" where
  "account_state g = \<lparr>es_balances = balances g, es_nonces = nonces g\<rparr>"

section \<open>Facts\<close>

lemma resolve_block_by_hash: "resolve_block g = block_by_hash g"
  by (simp add: fun_eq_iff resolve_block_def block_by_hash_def)

lemma length_collect_ancestors: "length (collect_ancestors g n h) \<le> n"
  by (induction g n h rule: collect_ancestors.induct) (auto split: option.split simp: Let_def)

lemma length_collect_ancestor_window: "length (collect_ancestor_window g h) \<le> 21"
  using length_collect_ancestors [of g "unat RETARGET_WINDOW + 1" h]
  by (simp add: collect_ancestor_window_def RETARGET_WINDOW_def)

lemma balance_of_mutators [simp]:
  "balance_of (credit_balance a amt g) b =
     (if b = a then saturating_add (balance_of g a) amt else balance_of g b)"
  "balance_of (advance_nonce a n g) b = balance_of g b"
  by (simp_all add: balance_of_def credit_balance_def advance_nonce_def)

lemma nonce_of_mutators [simp]:
  "nonce_of (advance_nonce a n g) b = (if b = a then max (nonce_of g a) n else nonce_of g b)"
  "nonce_of (credit_balance a amt g) b = nonce_of g b"
  by (auto simp: nonce_of_def credit_balance_def advance_nonce_def max_def not_less)

end
