(* ===== verification/Historical_Vpow.thy ===== *)
theory Historical_Vpow
  imports Block
begin

text \<open>
  \<open>pow/historical_vpow.rs\<close>: the preimage that miners and validators hash. The lemmas give
  its layout (the nonce sits at the offset the miner injects it at) and the fields it commits
  to: the state root and the claimed hash are not among them.
\<close>

text \<open>The error strings of the proof-of-work modules, one constructor per format string.\<close>

datatype pow_error =
    InvalidHex string
  | WrongHashLength string nat
  | InvalidVisionXParameters
  | NonceOffsetOverflows nat
  | NonceOffsetNeeds nat nat nat

definition HISTORICAL_VPOW_NONCE_OFFSET :: nat where
  "HISTORICAL_VPOW_NONCE_OFFSET = 64"

definition VPOW_MAGIC :: "u8 list" where
  "VPOW_MAGIC = as_bytes ''VPOW''"

definition VPOW_VERSION :: u32 where
  "VPOW_VERSION = 1"

definition vpow_decode_hash_32 :: "('db, 'x) ext_scheme \<Rightarrow> string \<Rightarrow> string \<Rightarrow> pow_error + u8 list" where
  "vpow_decode_hash_32 X label s =
     (let s' = (case strip_prefix ''0x'' s of Some r \<Rightarrow> r | None \<Rightarrow> s)
      in case hex_decode X s' of
           None \<Rightarrow> Inl (InvalidHex label)
         | Some bytes \<Rightarrow>
             (if length bytes \<noteq> 32 then Inl (WrongHashLength label (length bytes)) else Inr bytes))"

definition historical_vpow_message_bytes :: "('db, 'x) ext_scheme \<Rightarrow> block_header \<Rightarrow> pow_error + u8 list" where
  "historical_vpow_message_bytes X h =
     (case vpow_decode_hash_32 X ''parent_hash'' (parent_hash h) of
        Inl e \<Rightarrow> Inl e
      | Inr ph \<Rightarrow>
          (case vpow_decode_hash_32 X ''tx_root'' (tx_root h) of
             Inl e \<Rightarrow> Inl e
           | Inr root \<Rightarrow>
               (let miner_bytes = as_bytes (miner h)
                in Inr (VPOW_MAGIC
                    @ u32_to_le_bytes VPOW_VERSION
                    @ ph
                    @ u64_to_le_bytes (number h)
                    @ u64_to_le_bytes (timestamp h)
                    @ u64_to_le_bytes (difficulty h)
                    @ u64_to_be_bytes (nonce h)
                    @ root
                    @ u32_to_le_bytes (word_of_nat (length miner_bytes))
                    @ miner_bytes))))"

definition historical_vpow_message_bytes_with_nonce_zero ::
  "('db, 'x) ext_scheme \<Rightarrow> block_header \<Rightarrow> pow_error + u8 list" where
  "historical_vpow_message_bytes_with_nonce_zero X h = historical_vpow_message_bytes X (h\<lparr>nonce := 0\<rparr>)"

lemma vpow_decode_hash_32_Inr:
  "vpow_decode_hash_32 X l s = Inr bs \<Longrightarrow> length bs = 32"
  by (auto simp: vpow_decode_hash_32_def Let_def split: option.splits if_splits)

lemma vpow_message_InrE:
  assumes "historical_vpow_message_bytes X h = Inr bs"
  obtains p r where "vpow_decode_hash_32 X ''parent_hash'' (parent_hash h) = Inr p"
    "vpow_decode_hash_32 X ''tx_root'' (tx_root h) = Inr r" "length p = 32" "length r = 32"
    "bs = VPOW_MAGIC @ u32_to_le_bytes VPOW_VERSION @ p @ u64_to_le_bytes (number h)
       @ u64_to_le_bytes (timestamp h) @ u64_to_le_bytes (difficulty h) @ u64_to_be_bytes (nonce h)
       @ r @ u32_to_le_bytes (word_of_nat (length (miner h))) @ as_bytes (miner h)"
  using assms vpow_decode_hash_32_Inr
  by (fastforce simp: historical_vpow_message_bytes_def Let_def split: sum.splits)

lemma length_VPOW_MAGIC [simp]: "length VPOW_MAGIC = 4"
  by (simp add: VPOW_MAGIC_def)

lemma vpow_message_length:
  "historical_vpow_message_bytes X h = Inr bs \<Longrightarrow> length bs = 108 + length (miner h)"
  by (elim vpow_message_InrE) simp

lemma vpow_nonce_at_offset:
  "historical_vpow_message_bytes X h = Inr bs \<Longrightarrow>
     take 8 (drop HISTORICAL_VPOW_NONCE_OFFSET bs) = u64_to_be_bytes (nonce h)"
  by (elim vpow_message_InrE) (simp add: HISTORICAL_VPOW_NONCE_OFFSET_def)

lemma vpow_message_inject:
  assumes h: "historical_vpow_message_bytes X h = Inr bs"
    and k: "historical_vpow_message_bytes X k = Inr bs"
  shows "number h = number k \<and> timestamp h = timestamp k \<and> difficulty h = difficulty k
    \<and> nonce h = nonce k \<and> miner h = miner k
    \<and> vpow_decode_hash_32 X ''parent_hash'' (parent_hash h) = vpow_decode_hash_32 X ''parent_hash'' (parent_hash k)
    \<and> vpow_decode_hash_32 X ''tx_root'' (tx_root h) = vpow_decode_hash_32 X ''tx_root'' (tx_root k)"
proof (rule vpow_message_InrE [OF h])
  fix p r
  assume h': "vpow_decode_hash_32 X ''parent_hash'' (parent_hash h) = Inr p"
    "vpow_decode_hash_32 X ''tx_root'' (tx_root h) = Inr r" "length p = 32" "length r = 32"
    "bs = VPOW_MAGIC @ u32_to_le_bytes VPOW_VERSION @ p @ u64_to_le_bytes (number h)
       @ u64_to_le_bytes (timestamp h) @ u64_to_le_bytes (difficulty h) @ u64_to_be_bytes (nonce h)
       @ r @ u32_to_le_bytes (word_of_nat (length (miner h))) @ as_bytes (miner h)"
  show ?thesis
    by (rule vpow_message_InrE [OF k]) (use h' in simp)
qed

text \<open>What the preimage leaves out.\<close>

lemma vpow_message_frame:
  "historical_vpow_message_bytes X (h\<lparr>state_root := s, pow_hash := p\<rparr>) = historical_vpow_message_bytes X h"
  by (simp add: historical_vpow_message_bytes_def Let_def split: sum.split)

end
