(* ===== verification/Difficulty.thy ===== *)
theory Difficulty
  imports Block
begin

text \<open>
  \<open>pow/difficulty.rs\<close>: the target encoding, the upper-64-bit acceptance rule and the
  linearly weighted moving average that sets the next difficulty. The accumulator loop runs on
  128-bit words as the code's; \<open>next_difficulty_spec\<close> is the same quantity over the
  naturals, and the refinement lemma shows that no step before the last one overflows. The last
  step is the cast to 64 bits, which can.
\<close>

section \<open>Targets\<close>

definition difficulty_to_target :: "u64 \<Rightarrow> u8 list" where
  "difficulty_to_target d = u64_to_be_bytes (- 1 div (max d 1)) @ replicate 24 255"

definition verify_pow_hash :: "('db, 'x) ext_scheme \<Rightarrow> string \<Rightarrow> u64 \<Rightarrow> bool" where
  "verify_pow_hash X hash_hex d =
     (case hex_decode X hash_hex of
        None \<Rightarrow> False
      | Some hash_bytes \<Rightarrow>
          length hash_bytes = 32 \<and> take 8 hash_bytes \<le> take 8 (difficulty_to_target d))"

lemma length_difficulty_to_target [simp]: "length (difficulty_to_target d) = 32"
  by (simp add: difficulty_to_target_def)

lemma take_8_target [simp]: "take 8 (difficulty_to_target d) = u64_to_be_bytes (- 1 div (max d 1))"
  by (simp add: difficulty_to_target_def)

text \<open>The numeral in the first eight bytes of a hash.\<close>

definition upper64 :: "u8 list \<Rightarrow> nat" where
  "upper64 hash = nat_le (rev (take 8 hash))"

lemma unat_target_word: "unat ((- 1 :: u64) div (max d 1)) = (2 ^ 64 - 1) div max (unat d) 1"
proof -
  have "unat (max d 1) = max (unat d) 1"
    by (simp add: max_def word_le_nat_alt)
  moreover have "unat (- 1 :: u64) = 2 ^ 64 - 1"
    by (simp add: unsigned_minus_1_eq_mask mask_eq_exp_minus_1)
  ultimately show ?thesis by (simp add: unat_div_distrib)
qed

lemma upper64_be: "upper64 (u64_to_be_bytes w @ rest) = unat w"
  using u64_bound [of w] by (simp add: upper64_def u64_to_be_bytes_def nat_le_le_nat)

text \<open>The slice comparison of the code, as arithmetic: a hash is accepted iff its upper 64
  bits times the difficulty stay below two to the 64.\<close>

lemma meets_target_iff:
  assumes "length hash = 32"
  shows "take 8 hash \<le> take 8 (difficulty_to_target d)
    \<longleftrightarrow> upper64 hash * max (unat d) 1 < 2 ^ 64"
proof -
  have "take 8 hash \<le> take 8 (difficulty_to_target d) \<longleftrightarrow>
      upper64 hash \<le> upper64 (difficulty_to_target d)"
    unfolding upper64_def by (rule lex_le_iff_numeral) (simp add: assms)
  also have "upper64 (difficulty_to_target d) = (2 ^ 64 - 1) div max (unat d) 1"
    by (simp only: difficulty_to_target_def upper64_be unat_target_word)
  also have "upper64 hash \<le> (2 ^ 64 - 1) div max (unat d) 1 \<longleftrightarrow> upper64 hash * max (unat d) 1 < 2 ^ 64"
    by (subst less_eq_div_iff_mult_less_eq) auto
  finally show ?thesis .
qed

section \<open>The moving average\<close>

type_synonym lwma_acc = "u128 \<times> u128 \<times> u128"

definition raw_interval :: "block list \<Rightarrow> nat \<Rightarrow> u64" where
  "raw_interval window i =
     saturating_sub (timestamp (header (window ! (i + 1)))) (timestamp (header (window ! i)))"

definition clamp_interval :: "u64 \<Rightarrow> u64" where
  "clamp_interval t = min (max t LWMA_MIN_INTERVAL_SECS) LWMA_MAX_INTERVAL_SECS"

text \<open>One iteration of the loop over the intervals of the window.\<close>

fun lwma_step :: "block list \<Rightarrow> nat \<Rightarrow> lwma_acc \<Rightarrow> lwma_acc" where
  "lwma_step window i (weighted_sum, weight_total, sum_difficulty) =
     (let weight = word_of_nat (i + 1)
      in (weighted_sum + ucast (clamp_interval (raw_interval window i)) * weight,
          weight_total + weight,
          sum_difficulty + ucast (difficulty (header (window ! (i + 1))))))"

definition lwma_loop :: "block list \<Rightarrow> nat \<Rightarrow> lwma_acc" where
  "lwma_loop window count = fold (lwma_step window) [0..<count] (0, 0, 0)"

definition stalled :: "u64 \<Rightarrow> u64 \<Rightarrow> bool" where
  "stalled now last_ts \<longleftrightarrow> saturating_sub now last_ts > TARGET_BLOCK_TIME * STALL_MULTIPLIER"

definition retarget_window :: "block list \<Rightarrow> block list" where
  "retarget_window blks =
     (let n = unat RETARGET_WINDOW
      in if length blks > n + 1 then drop (length blks - (n + 1)) blks else blks)"

definition calculate_next_difficulty :: "block list \<Rightarrow> u64 \<Rightarrow> u64" where
  "calculate_next_difficulty blks now_secs =
     (if length blks < 2 then DIFFICULTY_FLOOR
      else
        let window = retarget_window blks;
            count = length window - 1;
            (weighted_sum, weight_total, sum_difficulty) = lwma_loop window count;
            lwma_interval = max (weighted_sum div weight_total) 1;
            avg_difficulty = sum_difficulty div word_of_nat count;
            new_diff = saturating_mul avg_difficulty (ucast TARGET_BLOCK_TIME) div lwma_interval;
            last_ts = timestamp (header (last window));
            new_diff' = (if stalled now_secs last_ts then saturating_mul new_diff 3 div 4 else new_diff)
        in ucast (max new_diff' (ucast DIFFICULTY_FLOOR)))"

definition expected_block_difficulty :: "block list \<Rightarrow> u64 \<Rightarrow> u64" where
  "expected_block_difficulty blks candidate_ts = calculate_next_difficulty blks candidate_ts"

section \<open>Specification over the naturals\<close>

definition nat_interval :: "block list \<Rightarrow> nat \<Rightarrow> nat" where
  "nat_interval w i =
     min (max (unat (timestamp (header (w ! (i + 1)))) - unat (timestamp (header (w ! i)))) 7) 180"

definition avg_interval :: "block list \<Rightarrow> nat" where
  "avg_interval w =
     (\<Sum>i<length w - 1. nat_interval w i * (i + 1)) div (\<Sum>i<length w - 1. i + 1)"

definition avg_difficulty_of :: "block list \<Rightarrow> nat" where
  "avg_difficulty_of w = (\<Sum>i<length w - 1. unat (difficulty (header (w ! (i + 1))))) div (length w - 1)"

definition next_difficulty_spec :: "block list \<Rightarrow> u64 \<Rightarrow> nat" where
  "next_difficulty_spec w now =
     (let d = avg_difficulty_of w * 30 div max (avg_interval w) 1;
          d' = (if unat now - unat (timestamp (header (last w))) > 120 then d * 3 div 4 else d)
      in max d' 1)"

lemma length_retarget_window:
  "2 \<le> length blks \<Longrightarrow> 2 \<le> length (retarget_window blks) \<and> length (retarget_window blks) \<le> 21"
  by (auto simp: retarget_window_def RETARGET_WINDOW_def Let_def)

lemma unat_max: "unat (max a b) = max (unat a) (unat b)"
  by (simp add: max_def word_le_nat_alt)

lemma unat_min: "unat (min a b) = min (unat a) (unat b)"
  by (simp add: min_def word_le_nat_alt)

lemma unat_clamp_interval:
  "unat (clamp_interval (raw_interval w i)) = nat_interval w i"
proof -
  have "unat LWMA_MIN_INTERVAL_SECS = 7" "unat LWMA_MAX_INTERVAL_SECS = 180"
    by (simp_all add: const_defs)
  then show ?thesis
    by (simp add: clamp_interval_def raw_interval_def nat_interval_def unat_max unat_min int_simps)
qed

lemma nat_interval_bounds: "7 \<le> nat_interval w i \<and> nat_interval w i \<le> 180"
  by (simp add: nat_interval_def)

text \<open>The three accumulators hold the three sums: with at most twenty intervals nothing
  wraps.\<close>

lemma lwma_loop_sums:
  assumes "n \<le> 20"
  shows "case lwma_loop w n of (ws, wt, sd) \<Rightarrow>
     unat ws = (\<Sum>i<n. nat_interval w i * (i + 1)) \<and> unat wt = (\<Sum>i<n. i + 1) \<and>
     unat sd = (\<Sum>i<n. unat (difficulty (header (w ! (i + 1)))))"
  using assms
proof (induction n)
  case 0
  then show ?case by (simp add: lwma_loop_def)
next
  case (Suc n)
  obtain ws wt sd where acc: "lwma_loop w n = (ws, wt, sd)" by (cases "lwma_loop w n")
  then have IH: "unat ws = (\<Sum>i<n. nat_interval w i * (i + 1))" "unat wt = (\<Sum>i<n. i + 1)"
    "unat sd = (\<Sum>i<n. unat (difficulty (header (w ! (i + 1)))))"
    using Suc by simp_all
  define c :: u128 where "c = ucast (clamp_interval (raw_interval w n))"
  define k :: u128 where "k = word_of_nat (n + 1)"
  define d :: u128 where "d = ucast (difficulty (header (w ! (n + 1))))"
  have uc: "unat c = nat_interval w n" by (simp add: c_def unat_ucast_u64_u128 unat_clamp_interval)
  have uk: "unat k = n + 1" using Suc.prems unfolding k_def by (subst unat_of_nat) simp
  have ud: "unat d = unat (difficulty (header (w ! (n + 1))))" by (simp add: d_def unat_ucast_u64_u128)
  have next_acc: "lwma_loop w (Suc n) = (ws + c * k, wt + k, sd + d)"
    using acc by (simp add: lwma_loop_def c_def k_def d_def Let_def)
  have b1: "unat ws \<le> n * 3600"
  proof -
    have "(\<Sum>i<n. nat_interval w i * (i + 1)) \<le> (\<Sum>i<n. 180 * 20)"
    proof (rule sum_mono)
      fix i assume "i \<in> {..<n}"
      then have "i + 1 \<le> 20" using Suc.prems by simp
      then show "nat_interval w i * (i + 1) \<le> 180 * 20"
        using nat_interval_bounds [of w i] mult_le_mono by blast
    qed
    then show ?thesis using IH(1) by simp
  qed
  have b2: "unat wt \<le> n * 20"
  proof -
    have "(\<Sum>i<n. i + 1) \<le> (\<Sum>i<n. 20)" by (rule sum_mono) (use Suc.prems in simp)
    then show ?thesis using IH(2) by simp
  qed
  have b3: "unat sd \<le> n * 2 ^ 64"
  proof -
    have "(\<Sum>i<n. unat (difficulty (header (w ! (i + 1))))) \<le> (\<Sum>i<n. 2 ^ 64)"
      by (rule sum_mono) (simp add: less_imp_le)
    then show ?thesis using IH(3) by simp
  qed
  have ck: "unat (c * k) = nat_interval w n * (n + 1)"
  proof -
    have "nat_interval w n * (n + 1) \<le> 180 * 20"
      using nat_interval_bounds [of w n] Suc.prems by (intro mult_le_mono) simp_all
    then have "unat c * unat k < 2 ^ LENGTH(128)" using uc uk by simp
    then have "unat (c * k) = unat c * unat k" by (rule iffD1 [OF unat_mult_lem])
    then show ?thesis by (simp only: uc uk)
  qed
  have ckb: "unat (c * k) \<le> 3600"
    using ck nat_interval_bounds [of w n] Suc.prems mult_le_mono [of "nat_interval w n" 180 "n + 1" 20]
    by simp
  have "unat (ws + c * k) = unat ws + unat (c * k)"
    by (rule unat_plus_small) (use b1 ckb Suc.prems in simp)
  moreover have "unat (wt + k) = unat wt + unat k"
    by (rule unat_plus_small) (use b2 uk Suc.prems in simp)
  moreover have "unat (sd + d) = unat sd + unat d"
  proof (rule unat_plus_small)
    have "unat d < 2 ^ 64" using ud by simp
    moreover have "n * 2 ^ 64 \<le> 20 * (2 ^ 64 :: nat)" using Suc.prems by simp
    ultimately have "unat sd + unat d < 21 * 2 ^ 64" using b3 by simp
    then show "unat sd + unat d < 2 ^ LENGTH(128)" by simp
  qed
  ultimately show ?case using IH ck uk ud by (simp add: next_acc)
qed

lemma avg_difficulty_bound: "2 \<le> length w \<Longrightarrow> avg_difficulty_of w < 2 ^ 64"
proof -
  assume w: "2 \<le> length w"
  define n where "n = length w - 1"
  have "(\<Sum>i<n. unat (difficulty (header (w ! (i + 1))))) \<le> (\<Sum>i<n. 2 ^ 64 - 1)"
  proof (rule sum_mono)
    fix i
    show "unat (difficulty (header (w ! (i + 1)))) \<le> 2 ^ 64 - 1"
      using u64_bound [of "difficulty (header (w ! (i + 1)))"] by (simp del: u64_bound)
  qed
  then have "(\<Sum>i<n. unat (difficulty (header (w ! (i + 1))))) div n \<le> (n * (2 ^ 64 - 1)) div n"
    by (intro div_le_mono) simp
  also have "\<dots> = 2 ^ 64 - 1" using w by (simp add: n_def)
  finally show ?thesis by (simp add: avg_difficulty_of_def n_def)
qed

lemma avg_interval_bounds: "2 \<le> length w \<Longrightarrow> 7 \<le> avg_interval w \<and> avg_interval w \<le> 180"
proof -
  assume w: "2 \<le> length w"
  define n where "n = length w - 1"
  define W :: nat where "W = (\<Sum>i<n. i + 1)"
  have n: "0 < n" using w by (simp add: n_def)
  have "0 + 1 \<le> W" unfolding W_def by (rule member_le_sum [where i = 0]) (use n in auto)
  then have W: "0 < W" by simp
  have "7 * W \<le> (\<Sum>i<n. nat_interval w i * (i + 1))"
    unfolding W_def sum_distrib_left
    by (rule sum_mono) (metis mult_le_mono1 nat_interval_bounds)
  moreover have "(\<Sum>i<n. nat_interval w i * (i + 1)) \<le> 180 * W"
    unfolding W_def sum_distrib_left
    by (rule sum_mono) (metis mult_le_mono1 nat_interval_bounds)
  ultimately show ?thesis
    using W unfolding avg_interval_def n_def [symmetric] W_def [symmetric]
    by (metis div_le_mono nonzero_mult_div_cancel_right not_gr_zero)
qed

section \<open>Refinement\<close>

lemma unat_saturating_mul_small:
  fixes a b :: "'a::len word"
  shows "unat a * unat b < 2 ^ LENGTH('a) \<Longrightarrow> unat (saturating_mul a b) = unat a * unat b"
  by (simp add: unat_saturating_mul)

lemma stalled_iff: "stalled now last_ts \<longleftrightarrow> unat now - unat last_ts > 120"
  by (simp add: stalled_def const_defs word_less_nat_alt int_simps)

lemma calculate_next_difficulty_refines:
  assumes "2 \<le> length blks"
  shows "unat (calculate_next_difficulty blks now)
    = next_difficulty_spec (retarget_window blks) now mod 2 ^ 64"
proof -
  define w where "w = retarget_window blks"
  define n where "n = length w - 1"
  have w: "2 \<le> length w" and n: "n \<le> 20"
    using length_retarget_window [OF assms] by (auto simp: w_def n_def)
  obtain ws wt sd where acc: "lwma_loop w n = (ws, wt, sd)" by (cases "lwma_loop w n")
  have sums: "unat ws = (\<Sum>i<n. nat_interval w i * (i + 1))" "unat wt = (\<Sum>i<n. i + 1)"
    "unat sd = (\<Sum>i<n. unat (difficulty (header (w ! (i + 1)))))"
    using lwma_loop_sums [OF n, of w] acc by simp_all
  define lw where "lw = max (ws div wt) 1"
  define av where "av = sd div word_of_nat n"
  define nd where "nd = saturating_mul av (ucast TARGET_BLOCK_TIME) div lw"
  define nd' where "nd' = (if stalled now (timestamp (header (last w))) then saturating_mul nd 3 div 4 else nd)"
  have ulw: "unat lw = max (avg_interval w) 1"
    using sums by (simp add: lw_def unat_max unat_div_distrib avg_interval_def n_def)
  have "unat (word_of_nat n :: u128) = n" using n by (subst unat_of_nat) simp
  then have uav: "unat av = avg_difficulty_of w"
    using sums by (simp add: av_def unat_div_distrib avg_difficulty_of_def n_def)
  have avb: "avg_difficulty_of w < 2 ^ 64" using w by (rule avg_difficulty_bound)
  have t30: "unat (ucast TARGET_BLOCK_TIME :: u128) = 30"
    by (simp add: unat_ucast_u64_u128 const_defs)
  have "unat (saturating_mul av (ucast TARGET_BLOCK_TIME)) = avg_difficulty_of w * 30"
    using unat_saturating_mul_small [of av "ucast TARGET_BLOCK_TIME"] avb
    by (simp only: uav t30) simp
  then have und: "unat nd = avg_difficulty_of w * 30 div max (avg_interval w) 1"
    by (simp add: nd_def unat_div_distrib ulw)
  have ndb: "unat nd * unat (3 :: u128) < 2 ^ LENGTH(128)"
  proof -
    have "unat nd \<le> avg_difficulty_of w * 30" unfolding und by (rule div_le_dividend)
    then show ?thesis using avb by simp
  qed
  have und': "unat nd' = (if unat now - unat (timestamp (header (last w))) > 120
      then unat nd * 3 div 4 else unat nd)"
    using unat_saturating_mul_small [OF ndb]
    by (simp add: nd'_def stalled_iff unat_div_distrib)
  have n': "length w - Suc 0 = n" by (simp add: n_def)
  have "calculate_next_difficulty blks now = ucast (max nd' (ucast DIFFICULTY_FLOOR))"
    using assms acc
    by (simp add: calculate_next_difficulty_def Let_def w_def [symmetric] n'
        lw_def av_def nd_def nd'_def not_less)
  then have "unat (calculate_next_difficulty blks now) = unat (max nd' (ucast DIFFICULTY_FLOOR)) mod 2 ^ 64"
    by (simp add: unsigned_ucast_eq take_bit_eq_mod)
  also have "unat (max nd' (ucast DIFFICULTY_FLOOR)) = next_difficulty_spec w now"
    by (simp add: unat_max und' und next_difficulty_spec_def const_defs)
  finally show ?thesis by (simp only: w_def)
qed

text \<open>Bounds of the retarget: at most thirty sevenths of the average, at least an eighth of it
  (a sixth, or three quarters of that on a stall), never below the floor.\<close>

lemma next_difficulty_spec_bounds:
  assumes "2 \<le> length w"
  shows "1 \<le> next_difficulty_spec w now"
    and "next_difficulty_spec w now \<le> max (avg_difficulty_of w * 30 div 7) 1"
    and "avg_difficulty_of w * 30 div 180 * 3 div 4 \<le> next_difficulty_spec w now"
proof -
  define d where "d = avg_difficulty_of w * 30 div max (avg_interval w) 1"
  have iv: "7 \<le> avg_interval w" "avg_interval w \<le> 180" using avg_interval_bounds [OF assms] by simp_all
  have up: "d \<le> avg_difficulty_of w * 30 div 7"
    unfolding d_def by (rule div_le_mono2) (use iv in simp_all)
  have lo: "avg_difficulty_of w * 30 div 180 \<le> d"
    unfolding d_def by (rule div_le_mono2) (use iv in simp_all)
  have spec: "next_difficulty_spec w now =
      max (if unat now - unat (timestamp (header (last w))) > 120 then d * 3 div 4 else d) 1"
    by (simp only: next_difficulty_spec_def d_def Let_def)
  show "1 \<le> next_difficulty_spec w now" by (simp add: next_difficulty_spec_def Let_def)
  have "d * 3 div 4 \<le> d" by simp
  then show "next_difficulty_spec w now \<le> max (avg_difficulty_of w * 30 div 7) 1"
    using up by (auto simp: spec)
  have "avg_difficulty_of w * 30 div 180 * 3 div 4 \<le> d * 3 div 4"
    by (intro div_le_mono mult_le_mono1 lo)
  then show "avg_difficulty_of w * 30 div 180 * 3 div 4 \<le> next_difficulty_spec w now"
    using \<open>d * 3 div 4 \<le> d\<close> by (auto simp: spec)
qed

end
