(* ===== verification/VisionX.thy ===== *)
theory VisionX
  imports Historical_Vpow Difficulty
begin

unbundle bit_operations_syntax

text \<open>
  \<open>pow/visionx.rs\<close>, the hash engine: parameters, the SplitMix64 generator, the dataset of
  an epoch, the scratchpad and the mixing loop. Array reads that would panic out of range are
  \<open>None\<close>; the lemmas show that with a dataset and mask as the builder makes them no read is
  out of range, so a digest of 32 bytes is always produced. Quantities of type \<open>usize\<close> are
  naturals: the bounds the code checks on the parameters keep them far below the word size.
\<close>

section \<open>Parameters\<close>

record visionx_params =
  dataset_mb :: nat
  scratch_mb :: nat
  mix_iters :: u32
  reads_per_iter :: u32
  write_every :: u32
  epoch_blocks :: u32

definition VISIONX_PARAMS :: visionx_params where
  "VISIONX_PARAMS = \<lparr>dataset_mb = VISIONX_DATASET_MB, scratch_mb = VISIONX_SCRATCH_MB,
     mix_iters = VISIONX_MIX_ITERS, reads_per_iter = VISIONX_READS_PER_ITER,
     write_every = VISIONX_WRITE_EVERY, epoch_blocks = VISIONX_EPOCH_BLOCKS\<rparr>"

definition params_canonical :: "visionx_params \<Rightarrow> string" where
  "params_canonical p =
     ''visionx/v1 dataset_mb='' @ dec_of_nat (dataset_mb p)
     @ '' scratch_mb='' @ dec_of_nat (scratch_mb p)
     @ '' mix_iters='' @ dec_of_nat (unat (mix_iters p))
     @ '' reads_per_iter='' @ dec_of_nat (unat (reads_per_iter p))
     @ '' write_every='' @ dec_of_nat (unat (write_every p))
     @ '' epoch_blocks='' @ dec_of_nat (unat (epoch_blocks p))"

definition fingerprint :: "('db, 'x) ext_scheme \<Rightarrow> visionx_params \<Rightarrow> string" where
  "fingerprint X p = hex_encode X (blake3 X (as_bytes (params_canonical p)))"

text \<open>Division by a zero epoch length panics.\<close>

definition epoch_of :: "visionx_params \<Rightarrow> u64 \<Rightarrow> u64 option" where
  "epoch_of p height =
     (if epoch_blocks p = 0 then None else Some (height div ucast (epoch_blocks p)))"

definition params_within_bounds :: "visionx_params \<Rightarrow> bool" where
  "params_within_bounds p \<longleftrightarrow>
     dataset_mb p \<le> 512 \<and> scratch_mb p \<le> 128 \<and> mix_iters p \<le> 1000000 \<and> reads_per_iter p \<le> 8"

section \<open>Building blocks\<close>

definition nth_opt :: "'a list \<Rightarrow> nat \<Rightarrow> 'a option" where
  "nth_opt xs i = (if i < length xs then Some (xs ! i) else None)"

function chunks :: "nat \<Rightarrow> 'a list \<Rightarrow> 'a list list" where
  "chunks n xs = (if n = 0 \<or> xs = [] then [] else take n xs # chunks n (drop n xs))"
  by pat_completeness auto
termination
  by (relation "measure (\<lambda>(n, xs). length xs)") auto

declare chunks.simps [simp del]

text \<open>A chunk copied to the front of a zeroed buffer.\<close>

definition pad_to :: "nat \<Rightarrow> u8 list \<Rightarrow> u8 list" where
  "pad_to n c = c @ replicate (n - length c) 0"

fun splitmix_next :: "u64 \<Rightarrow> u64 \<times> u64" where
  "splitmix_next state =
     (let s = state + 0x9E3779B97F4A7C15;
          z1 = (s XOR drop_bit 30 s) * 0xBF58476D1CE4E5B9;
          z2 = (z1 XOR drop_bit 27 z1) * 0x94D049BB133111EB
      in (z2 XOR drop_bit 31 z2, s))"

declare splitmix_next.simps [simp del]

fun splitmix_fill :: "nat \<Rightarrow> u64 \<Rightarrow> u64 list" where
  "splitmix_fill 0 state = []"
| "splitmix_fill (Suc n) state =
     (case splitmix_next state of (z, s) \<Rightarrow> z # splitmix_fill n s)"

fun expand_rounds :: "nat \<Rightarrow> u64 \<times> u64 \<Rightarrow> u64 \<times> u64" where
  "expand_rounds 0 ab = ab"
| "expand_rounds (Suc n) (a, b) =
     (let a' = word_rotl 13 a XOR b * 0x9E3779B185EBCA87;
          b' = word_rotl 17 b XOR a' * 0xC2B2AE3D27D4EB4F
      in expand_rounds n (a', b'))"

definition expand_256 :: "u64 \<Rightarrow> u64 \<Rightarrow> u8 list" where
  "expand_256 a0 b0 =
     (let (a, b) = expand_rounds 4 (a0, b0);
          (c, s) = splitmix_next (a XOR b XOR 0xD6E8FEB86659FD93);
          (d, _) = splitmix_next s
      in u64_to_be_bytes a @ u64_to_be_bytes b @ u64_to_be_bytes c @ u64_to_be_bytes d)"

definition fold_seed :: "u8 list \<Rightarrow> u64 \<Rightarrow> u64" where
  "fold_seed prev_hash32 epoch_id =
     fold (\<lambda>chunk s.
        word_rotl 9 ((s XOR word_rotl 7 (u64_from_be_bytes (pad_to 8 chunk))) * 0x9E3779B97F4A7C15))
       (chunks 8 prev_hash32) (epoch_id XOR 0xA24BAED4963EE407)"

text \<open>\<open>while n < words { n <<= 1 }\<close>.\<close>

function double_until :: "nat \<Rightarrow> nat \<Rightarrow> nat" where
  "double_until words n = (if 0 < n \<and> n < words then double_until words (2 * n) else n)"
  by pat_completeness auto
termination
  by (relation "measure (\<lambda>(words, n). words - n)") auto

declare double_until.simps [simp del]

definition words_for_mb :: "nat \<Rightarrow> nat" where
  "words_for_mb mb = double_until (mb * 1024 * 1024 div 8) 1"

type_synonym dataset = "u64 list \<times> nat"

definition dataset_build :: "visionx_params \<Rightarrow> u8 list \<Rightarrow> u64 \<Rightarrow> dataset" where
  "dataset_build p prev_hash32 epoch =
     (let words = words_for_mb (dataset_mb p)
      in (splitmix_fill words (fold_seed prev_hash32 epoch), words - 1))"

text \<open>\<open>w as usize & mask\<close>.\<close>

definition mask_index :: "u64 \<Rightarrow> nat \<Rightarrow> nat" where
  "mask_index w msk = unat (w AND word_of_nat msk)"

section \<open>The scratchpad\<close>

definition scratch_seed :: "u8 list \<Rightarrow> u64 \<Rightarrow> u64" where
  "scratch_seed hdr nnc =
     fold (\<lambda>chunk s.
        word_rotl 7 ((s XOR word_rotl 13 (u64_from_be_bytes (pad_to 8 chunk))) * 0x9E3779B97F4A7C15))
       (chunks 8 hdr) (nnc XOR 0xDEADBEEFF00DFACE)"

fun fill_scratch :: "u64 list \<Rightarrow> nat \<Rightarrow> nat \<Rightarrow> u64 \<Rightarrow> u64 list option" where
  "fill_scratch base base_mask 0 state = Some []"
| "fill_scratch base base_mask (Suc n) state =
     (case splitmix_next state of (mix_seed, s) \<Rightarrow>
        do {
          v1 \<leftarrow> nth_opt base (mask_index (word_rotl 17 mix_seed) base_mask);
          v2 \<leftarrow> nth_opt base (mask_index (word_rotr 23 mix_seed) base_mask);
          rest \<leftarrow> fill_scratch base base_mask n s;
          Some ((v1 XOR v2 XOR mix_seed * 0xC2B2AE3D27D4EB4F) # rest)
        })"

definition init_scratch :: "visionx_params \<Rightarrow> u64 list \<Rightarrow> nat \<Rightarrow> u8 list \<Rightarrow> u64 \<Rightarrow> (u64 list \<times> nat) option" where
  "init_scratch p base base_mask hdr nnc =
     (let words = words_for_mb (scratch_mb p)
      in do {
        scratch \<leftarrow> fill_scratch base base_mask words (scratch_seed hdr nnc);
        Some (scratch, words - 1)
      })"

section \<open>The mixing loop\<close>

fun absorb_chunk :: "u8 list \<Rightarrow> u64 \<times> u64 \<Rightarrow> u64 \<times> u64" where
  "absorb_chunk chunk (a, b) =
     (let p = pad_to 16 chunk;
          x = u64_from_be_bytes (take 8 p);
          y = u64_from_be_bytes (take 8 (drop 8 p));
          a1 = a XOR x * 0x9E3779B185EBCA87;
          b1 = b XOR y * 0xC2B2AE3D27D4EB4F;
          a2 = word_rotl 13 a1 XOR word_rotr 7 b1;
          b2 = word_rotl 29 b1 XOR word_rotr 19 a2
      in (a2, b2))"

type_synonym mix_state = "u64 \<times> u64 \<times> u64 \<times> u64 list"

fun mix_step :: "visionx_params \<Rightarrow> nat \<Rightarrow> nat \<Rightarrow> mix_state \<Rightarrow> mix_state option" where
  "mix_step p smask i (a, b, acc, scratch) =
     (let iw = word_of_nat i :: u64 in
      do {
        v1 \<leftarrow> nth_opt scratch (mask_index (word_rotl 17 (a XOR b XOR acc XOR iw * 0x9E3779B9)) smask);
        v2 \<leftarrow> nth_opt scratch (mask_index (word_rotl 23 (v1 XOR a XOR acc)) smask);
        v3 \<leftarrow> nth_opt scratch (mask_index (word_rotl 19 (v2 XOR b XOR acc)) smask);
        v4 \<leftarrow> (if 4 \<le> reads_per_iter p
              then nth_opt scratch (mask_index (word_rotl 29 (v3 XOR v1 XOR acc)) smask)
              else Some v3);
        let mix = v1 XOR word_rotl 13 v2 XOR v3 * 0x94D049BB133111EB XOR word_rotr 7 v4;
        let a' = word_rotl 13 a XOR mix * 0xC2B2AE3D27D4EB4F;
        let b' = word_rotl 17 b XOR (mix XOR acc) * 0xBF58476D1CE4E5B9;
        let acc' = word_rotl 7 acc XOR (a' XOR b') * 0xD6E8FEB86659FD93;
        (if 0 < write_every p \<and> i mod unat (write_every p) = 0
         then do {
           let jw = mask_index (word_rotl 31
               (mix XOR a' XOR word_rotl 11 b' XOR iw * 0xA24BAED4963EE407)) smask;
           old \<leftarrow> nth_opt scratch jw;
           Some (a', b', acc',
             scratch[jw := word_rotl 41 (old + (mix XOR 0x9E3779B97F4A7C15))])
         }
         else Some (a', b', acc', scratch))
      })"

fun mix_loop :: "visionx_params \<Rightarrow> nat \<Rightarrow> nat \<Rightarrow> nat \<Rightarrow> mix_state \<Rightarrow> mix_state option" where
  "mix_loop p smask 0 i st = Some st"
| "mix_loop p smask (Suc n) i st =
     do { st' \<leftarrow> mix_step p smask i st; mix_loop p smask n (Suc i) st' }"

definition visionx_hash ::
  "visionx_params \<Rightarrow> u64 list \<Rightarrow> nat \<Rightarrow> u8 list \<Rightarrow> u64 \<Rightarrow> u8 list option" where
  "visionx_hash p base base_mask hdr nnc =
     do {
       (scratch, smask) \<leftarrow> init_scratch p base base_mask hdr nnc;
       let (a, b) = fold absorb_chunk (chunks 16 hdr)
         (0x243F6A8885A308D3 XOR word_rotl 17 nnc, 0x13198A2E03707344 XOR word_rotr 11 nnc);
       (a', b', acc, _) \<leftarrow> mix_loop p smask (unat (mix_iters p)) 0
         (a, b, a XOR b XOR 0xDEADBEEFF00DFACE, scratch);
       Some (expand_256 (a' XOR acc) (b' XOR word_rotl 3 acc))
     }"

definition nonce_from_header :: "u8 list \<Rightarrow> nat \<Rightarrow> u64 option" where
  "nonce_from_header header_with_nonce nonce_offset =
     (let end_off = nonce_offset + 8
      in if 2 ^ 64 \<le> end_off \<or> length header_with_nonce < end_off then None
         else Some (u64_from_be_bytes (take 8 (drop nonce_offset header_with_nonce))))"

definition meets_target :: "u8 list \<Rightarrow> u8 list \<Rightarrow> bool" where
  "meets_target hash target \<longleftrightarrow> take 8 hash \<le> take 8 target"

definition visionx_decode_hash_32 :: "('db, 'x) ext_scheme \<Rightarrow> string \<Rightarrow> pow_error + u8 list" where
  "visionx_decode_hash_32 X s =
     (let s' = (case strip_prefix ''0x'' s of Some r \<Rightarrow> r | None \<Rightarrow> s)
      in case hex_decode X s' of
           None \<Rightarrow> Inl (InvalidHex ''parent_hash'')
         | Some bytes \<Rightarrow>
             (if length bytes \<noteq> 32 then Inl (WrongHashLength ''parent_hash'' (length bytes))
              else Inr bytes))"

section \<open>Sizes\<close>

lemma double_until_pos: "0 < n \<Longrightarrow> 0 < double_until w n"
proof (induction w n rule: double_until.induct)
  case (1 w n)
  then show ?case by (subst double_until.simps) auto
qed

lemma double_until_power: "\<exists>j. double_until w (2 ^ k) = 2 ^ j"
proof (induction w "2 ^ k :: nat" arbitrary: k rule: double_until.induct)
  case (1 w)
  show ?case
  proof (cases "(2::nat) ^ k < w")
    case True
    then show ?thesis
      using 1(1) [of "Suc k"] by (subst double_until.simps) simp
  next
    case False
    then show ?thesis by (subst double_until.simps) auto
  qed
qed

lemma double_until_bounds:
  "0 < n \<Longrightarrow> w \<le> double_until w n \<and> double_until w n \<le> max n (2 * (w - 1))"
proof (induction w n rule: double_until.induct)
  case (1 w n)
  show ?case
  proof (cases "n < w")
    case True
    with 1 have "w \<le> double_until w (2 * n) \<and> double_until w (2 * n) \<le> max (2 * n) (2 * (w - 1))"
      by simp
    then show ?thesis using True 1(2) by (subst (1 2) double_until.simps) auto
  next
    case False
    then show ?thesis using 1(2) by (subst (1 2) double_until.simps) auto
  qed
qed

lemma words_for_mb_pos [simp]: "0 < words_for_mb mb"
  by (simp add: words_for_mb_def double_until_pos)

lemma length_splitmix_fill [simp]: "length (splitmix_fill n s) = n"
  by (induction n arbitrary: s) (auto split: prod.splits)

lemma length_expand_256 [simp]: "length (expand_256 a b) = 32"
  by (simp add: expand_256_def Let_def split: prod.splits)

lemma dataset_build_size:
  assumes "dataset_build p ph e = (mem, msk)"
  shows "length mem = msk + 1"
  using assms words_for_mb_pos [of "dataset_mb p"] by (auto simp: dataset_build_def Let_def)

section \<open>No read is out of range\<close>

lemma mask_index_le: "mask_index w msk \<le> msk"
proof -
  have "w AND word_of_nat msk \<le> word_of_nat msk" by (rule word_and_le1)
  then have "mask_index w msk \<le> unat (word_of_nat msk :: u64)"
    by (simp add: mask_index_def word_le_nat_alt)
  also have "\<dots> \<le> msk" by (simp add: unat_of_nat)
  finally show ?thesis .
qed

lemma nth_opt_mask: "msk < length xs \<Longrightarrow> nth_opt xs (mask_index w msk) = Some (xs ! mask_index w msk)"
  using mask_index_le [of w msk] by (simp add: nth_opt_def)

lemma fill_scratch_total:
  "base_mask < length base \<Longrightarrow>
     \<exists>scratch. fill_scratch base base_mask n s = Some scratch \<and> length scratch = n"
proof (induction n arbitrary: s)
  case 0
  then show ?case by simp
next
  case (Suc n)
  obtain z s' where "splitmix_next s = (z, s')" by (cases "splitmix_next s")
  moreover from Suc obtain rest where "fill_scratch base base_mask n s' = Some rest" "length rest = n"
    by blast
  ultimately show ?case using Suc.prems by (simp add: nth_opt_mask)
qed

lemma mix_step_total:
  assumes "smask < length scratch"
  shows "\<exists>a' b' acc' scratch'. mix_step p smask i (a, b, acc, scratch) = Some (a', b', acc', scratch')
    \<and> length scratch' = length scratch"
  using assms by (simp add: nth_opt_mask Let_def)

lemma mix_loop_total:
  "smask < length scratch \<Longrightarrow>
     \<exists>a' b' acc' scratch'. mix_loop p smask n i (a, b, acc, scratch) = Some (a', b', acc', scratch')"
proof (induction n arbitrary: i a b acc scratch)
  case 0
  then show ?case by simp
next
  case (Suc n)
  obtain a' b' acc' scratch' where
    "mix_step p smask i (a, b, acc, scratch) = Some (a', b', acc', scratch')"
    "length scratch' = length scratch"
    using mix_step_total [OF Suc.prems] by blast
  then show ?case using Suc by (simp del: mix_step.simps)
qed

lemma visionx_hash_total:
  assumes "base_mask < length base"
  shows "\<exists>d. visionx_hash p base base_mask hdr nnc = Some d \<and> length d = 32"
proof -
  define words where "words = words_for_mb (scratch_mb p)"
  obtain scratch where s: "fill_scratch base base_mask words (scratch_seed hdr nnc) = Some scratch"
    "length scratch = words"
    using fill_scratch_total [OF assms] by blast
  obtain a b where ab: "fold absorb_chunk (chunks 16 hdr)
      (0x243F6A8885A308D3 XOR word_rotl 17 nnc, 0x13198A2E03707344 XOR word_rotr 11 nnc) = (a, b)"
    by fastforce
  have "words - 1 < length scratch" using s(2) words_for_mb_pos by (simp add: words_def)
  from mix_loop_total [OF this] obtain a' b' acc' scratch' where
    "mix_loop p (words - 1) (unat (mix_iters p)) 0 (a, b, a XOR b XOR 0xDEADBEEFF00DFACE, scratch)
      = Some (a', b', acc', scratch')" by blast
  then show ?thesis
    using s(1) ab by (simp add: visionx_hash_def init_scratch_def Let_def words_def)
qed

lemma visionx_hash_dataset:
  "\<exists>d. visionx_hash p (fst (dataset_build p' ph e)) (snd (dataset_build p' ph e)) hdr nnc = Some d
     \<and> length d = 32"
proof -
  obtain mem msk where "dataset_build p' ph e = (mem, msk)" by fastforce
  then show ?thesis using dataset_build_size by (intro visionx_hash_total) fastforce
qed

end
