(* ===== verification/Bounded_Fifo.thy ===== *)
theory Bounded_Fifo
  imports Prelude
begin

text \<open>
  The contract shared by the three bounded first-in-first-out indexes of the node: the cache of
  pre-validated proof-of-work hashes, the VisionX dataset cache and the mempool. Each keeps an
  insertion order beside an index and evicts the oldest key when full. The lemmas say what a
  client can rely on: how many keys are held, that the newest is, and that after a run of fresh
  insertions exactly the last \<open>cap\<close> keys of the history remain, in order.
\<close>

locale bounded_fifo =
  fixes ord :: "'s \<Rightarrow> 'k list"
    and holds :: "'s \<Rightarrow> 'k \<Rightarrow> bool"
    and ins :: "'k \<Rightarrow> 'v \<Rightarrow> 's \<Rightarrow> 's"
    and cap :: nat
    and inv :: "'s \<Rightarrow> bool"
  assumes cap_pos: "0 < cap"
    and inv_distinct: "inv s \<Longrightarrow> distinct (ord s)"
    and inv_holds: "inv s \<Longrightarrow> holds s k \<longleftrightarrow> k \<in> set (ord s)"
    and inv_bound: "inv s \<Longrightarrow> length (ord s) \<le> cap"
    and inv_ins: "inv s \<Longrightarrow> inv (ins k v s)"
    and ins_known: "inv s \<Longrightarrow> holds s k \<Longrightarrow> ord (ins k v s) = ord s"
    and ins_fresh: "inv s \<Longrightarrow> \<not> holds s k \<Longrightarrow>
      ord (ins k v s) = drop (Suc (length (ord s)) - cap) (ord s @ [k])"
begin

lemma card_held: "inv s \<Longrightarrow> card {k. holds s k} \<le> cap"
  by (simp add: inv_holds) (rule le_trans [OF card_length inv_bound])

lemma newest_held:
  assumes "inv s"
  shows "holds (ins k v s) k"
proof (cases "holds s k")
  case True
  then show ?thesis using assms ins_known inv_holds inv_ins by metis
next
  case False
  have "Suc (length (ord s)) - cap \<le> length (ord s)" using cap_pos by simp
  then have "k \<in> set (ord (ins k v s))" using ins_fresh [OF assms False] by simp
  then show ?thesis using inv_holds [OF inv_ins [OF assms]] by simp
qed

lemma held_after_ins:
  assumes "inv s" "holds (ins k v s) j"
  shows "j = k \<or> holds s j"
proof (cases "holds s k")
  case True
  then show ?thesis using assms ins_known inv_holds inv_ins by metis
next
  case False
  have "j \<in> set (ord s @ [k])"
    using assms inv_holds [OF inv_ins [OF assms(1)]] ins_fresh [OF assms(1) False]
    by (metis in_set_dropD)
  then show ?thesis using inv_holds [OF assms(1)] by auto
qed

lemma window_of_history:
  assumes "inv s" "distinct (map fst kvs)" "set (map fst kvs) \<inter> set (ord s) = {}"
  shows "inv (foldl (\<lambda>s p. ins (fst p) (snd p) s) s kvs) \<and>
    ord (foldl (\<lambda>s p. ins (fst p) (snd p) s) s kvs)
      = drop (length (ord s) + length kvs - cap) (ord s @ map fst kvs)"
  using assms
proof (induction kvs arbitrary: s)
  case Nil
  then show ?case using inv_bound by simp
next
  case (Cons p kvs)
  let ?s = "ins (fst p) (snd p) s" and ?d = "Suc (length (ord s)) - cap"
  have fresh: "\<not> holds s (fst p)" using Cons.prems inv_holds by auto
  have o: "ord ?s = drop ?d (ord s @ [fst p])" using Cons.prems(1) fresh by (rule ins_fresh)
  have i: "inv ?s" using Cons.prems(1) by (rule inv_ins)
  have "set (ord ?s) \<subseteq> set (ord s) \<union> {fst p}" unfolding o using set_drop_subset by fastforce
  moreover have "set (map fst kvs) \<inter> (set (ord s) \<union> {fst p}) = {}" using Cons.prems(2,3) by auto
  ultimately have "set (map fst kvs) \<inter> set (ord ?s) = {}" by blast
  with Cons i have IH: "inv (foldl (\<lambda>s p. ins (fst p) (snd p) s) ?s kvs) \<and>
    ord (foldl (\<lambda>s p. ins (fst p) (snd p) s) ?s kvs)
      = drop (length (ord ?s) + length kvs - cap) (ord ?s @ map fst kvs)" by simp
  have b: "length (ord s) \<le> cap" using Cons.prems(1) by (rule inv_bound)
  have l: "length (ord ?s) = Suc (length (ord s)) - ?d" by (simp add: o)
  have "drop (length (ord ?s) + length kvs - cap) (ord ?s @ map fst kvs)
      = drop (length (ord ?s) + length kvs - cap) (drop ?d (ord s @ fst p # map fst kvs))"
  proof -
    have "?d \<le> Suc (length (ord s))" by simp
    then have "drop ?d (ord s @ fst p # map fst kvs) = ord ?s @ map fst kvs"
      unfolding o using drop_append [of ?d "ord s @ [fst p]" "map fst kvs"] by simp
    then show ?thesis by simp
  qed
  also have "\<dots> = drop (length (ord s) + length (p # kvs) - cap) (ord s @ map fst (p # kvs))"
  proof -
    have "length (ord ?s) + length kvs - cap + ?d = length (ord s) + length (p # kvs) - cap"
      using b by (auto simp: l)
    then show ?thesis by (simp only: drop_drop list.map)
  qed
  finally show ?case using IH by simp
qed

end

end
