(* ===== verification/VisionX_Cache.thy ===== *)
theory VisionX_Cache
  imports VisionX Bounded_Fifo "HOL-Library.AList"
begin

text \<open>
  \<open>pow/visionx.rs\<close>, the dataset cache and the entry points of the hash. A cache is coherent
  when every entry is what \<open>dataset_build\<close> produces for its key; then a lookup through the
  cache is a rebuild, so digests and verdicts do not depend on what the cache holds. Hash maps
  are association lists with distinct keys.
\<close>

section \<open>The cache\<close>

type_synonym ds_key = "visionx_params \<times> u64 \<times> u8 list"

record dataset_cache =
  dc_entries :: "(ds_key \<times> dataset) list"
  dc_order :: "ds_key list"

definition DATASET_CACHE_CAPACITY :: nat where
  "DATASET_CACHE_CAPACITY = 3"

definition dc_empty :: dataset_cache where
  "dc_empty = \<lparr>dc_entries = [], dc_order = []\<rparr>"

definition dc_get :: "dataset_cache \<Rightarrow> ds_key \<Rightarrow> dataset option" where
  "dc_get c k = map_of (dc_entries c) k"

fun retain_seen :: "('k \<Rightarrow> bool) \<Rightarrow> 'k list \<Rightarrow> 'k list \<Rightarrow> 'k list" where
  "retain_seen P seen [] = []"
| "retain_seen P seen (k # ks) =
     (if \<not> P k \<or> k \<in> set seen then retain_seen P seen ks
      else k # retain_seen P (seen @ [k]) ks)"

definition retain_order_for_entries :: "dataset_cache \<Rightarrow> dataset_cache" where
  "retain_order_for_entries c =
     c\<lparr>dc_order := retain_seen (\<lambda>k. map_of (dc_entries c) k \<noteq> None) [] (dc_order c)\<rparr>"

text \<open>The eviction loop: entries, queue, evicted keys, rotations.\<close>

function evict_loop :: "nat \<Rightarrow> 'k \<Rightarrow> ('k \<times> 'v) list \<Rightarrow> 'k list \<Rightarrow> 'k list \<Rightarrow> nat
    \<Rightarrow> ('k \<times> 'v) list \<times> 'k list \<times> 'k list" where
  "evict_loop capacity active es queue evicted rotations =
     (if capacity < length es \<and> rotations \<le> length queue
      then (case queue of
          [] \<Rightarrow> (es, queue, evicted)
        | candidate # rest \<Rightarrow>
            (if map_of es candidate = None
             then evict_loop capacity active es rest evicted rotations
             else if candidate = active
             then evict_loop capacity active es (rest @ [candidate]) evicted (rotations + 1)
             else evict_loop capacity active (AList.delete candidate es) rest (evicted @ [candidate]) 0))
      else (es, queue, evicted))"
  by pat_completeness auto
termination
  by (relation "measures [\<lambda>(_, _, _, queue, _, _). length queue,
      \<lambda>(_, _, _, queue, _, rotations). Suc (length queue) - rotations]") auto

declare evict_loop.simps [simp del]

definition evict_over_capacity_limit :: "dataset_cache \<Rightarrow> ds_key \<Rightarrow> nat \<Rightarrow> dataset_cache \<times> ds_key list" where
  "evict_over_capacity_limit c active capacity =
     (case evict_loop capacity active (dc_entries c) (dc_order c) [] 0 of
        (es, queue, evicted) \<Rightarrow>
          (retain_order_for_entries (c\<lparr>dc_entries := es, dc_order := queue\<rparr>), evicted))"

definition evict_over_capacity :: "dataset_cache \<Rightarrow> ds_key \<Rightarrow> dataset_cache \<times> ds_key list" where
  "evict_over_capacity c active = evict_over_capacity_limit c active DATASET_CACHE_CAPACITY"

record cache_insert_result =
  cir_dataset :: dataset
  cir_inserted :: bool
  cir_evicted :: "ds_key list"

definition insert_if_absent :: "ds_key \<Rightarrow> dataset \<Rightarrow> dataset_cache \<Rightarrow> dataset_cache \<times> cache_insert_result" where
  "insert_if_absent key ds c =
     (case dc_get c key of
        Some existing \<Rightarrow>
          (retain_order_for_entries c,
           \<lparr>cir_dataset = existing, cir_inserted = False, cir_evicted = []\<rparr>)
      | None \<Rightarrow>
          (let c1 = c\<lparr>dc_entries := AList.update key ds (dc_entries c),
                      dc_order := filter (\<lambda>q. q \<noteq> key) (dc_order c) @ [key]\<rparr>;
               (c2, evicted) = evict_over_capacity c1 key
           in (c2, \<lparr>cir_dataset = ds, cir_inserted = True, cir_evicted = evicted\<rparr>)))"

definition dc_clear :: "dataset_cache \<Rightarrow> dataset_cache" where
  "dc_clear c = c\<lparr>dc_entries := [], dc_order := []\<rparr>"

definition get_cached :: "visionx_params \<Rightarrow> u8 list \<Rightarrow> u64 \<Rightarrow> dataset_cache \<Rightarrow> dataset_cache \<times> dataset" where
  "get_cached p prev_hash32 epoch c =
     (let key = (p, epoch, prev_hash32)
      in case dc_get c key of
           Some ds \<Rightarrow> (c, ds)
         | None \<Rightarrow>
             (let (c', r) = insert_if_absent key (dataset_build p prev_hash32 epoch) c
              in (c', cir_dataset r)))"

section \<open>Digests and verification\<close>

text \<open>The result is \<open>None\<close> where the hash would panic.\<close>

definition visionx_digest ::
  "visionx_params \<Rightarrow> u8 list \<Rightarrow> u64 \<Rightarrow> u8 list \<Rightarrow> u64 \<Rightarrow> dataset_cache
     \<Rightarrow> (dataset_cache \<times> (pow_error + u8 list)) option" where
  "visionx_digest p prev_hash32 epoch header_bytes nnc c =
     (if \<not> params_within_bounds p then Some (c, Inl InvalidVisionXParameters)
      else (case get_cached p prev_hash32 epoch c of (c', ds) \<Rightarrow>
          map_option (\<lambda>d. (c', Inr d)) (visionx_hash p (fst ds) (snd ds) header_bytes nnc)))"

definition historical_block_digest ::
  "('db, 'x) ext_scheme \<Rightarrow> visionx_params \<Rightarrow> u64 \<Rightarrow> block_header \<Rightarrow> dataset_cache
     \<Rightarrow> (dataset_cache \<times> (pow_error + u8 list)) option" where
  "historical_block_digest X p epoch h c =
     (case visionx_decode_hash_32 X (parent_hash h) of
        Inl e \<Rightarrow> Some (c, Inl e)
      | Inr prev_hash32 \<Rightarrow>
          (case historical_vpow_message_bytes_with_nonce_zero X h of
             Inl e \<Rightarrow> Some (c, Inl e)
           | Inr preimage \<Rightarrow> visionx_digest p prev_hash32 epoch preimage (nonce h) c))"

definition visionx_verify ::
  "visionx_params \<Rightarrow> u8 list \<Rightarrow> u64 \<Rightarrow> u8 list \<Rightarrow> nat \<Rightarrow> u8 list \<Rightarrow> dataset_cache
     \<Rightarrow> (dataset_cache \<times> bool) option" where
  "visionx_verify p prev_hash32 epoch header_with_nonce nonce_offset target c =
     (if \<not> params_within_bounds p then Some (c, False)
      else (case nonce_from_header header_with_nonce nonce_offset of
          None \<Rightarrow> Some (c, False)
        | Some nnc \<Rightarrow>
            (case get_cached p prev_hash32 epoch c of (c', ds) \<Rightarrow>
              map_option (\<lambda>d. (c', meets_target d target))
                (visionx_hash p (fst ds) (snd ds) header_with_nonce nnc))))"

section \<open>The cache keeps its invariant\<close>

definition build_key :: "ds_key \<Rightarrow> dataset" where
  "build_key k = (case k of (p, e, ph) \<Rightarrow> dataset_build p ph e)"

text \<open>Shape: distinct keys, one queue position per entry, at most three entries.\<close>

definition dc_shape :: "dataset_cache \<Rightarrow> bool" where
  "dc_shape c \<longleftrightarrow> distinct (map fst (dc_entries c)) \<and> distinct (dc_order c)
     \<and> set (dc_order c) = set (map fst (dc_entries c))
     \<and> length (dc_entries c) \<le> DATASET_CACHE_CAPACITY"

definition dc_coherent :: "dataset_cache \<Rightarrow> bool" where
  "dc_coherent c \<longleftrightarrow> (\<forall>k ds. dc_get c k = Some ds \<longrightarrow> ds = build_key k)"

lemma retain_seen_distinct:
  "distinct ks \<Longrightarrow> set ks \<inter> set seen = {} \<Longrightarrow> \<forall>k\<in>set ks. P k \<Longrightarrow> retain_seen P seen ks = ks"
  by (induction P seen ks rule: retain_seen.induct) auto

lemma retain_order_shape:
  assumes "distinct (dc_order c)" "set (dc_order c) \<subseteq> set (map fst (dc_entries c))"
  shows "retain_order_for_entries c = c"
proof -
  have "\<forall>k\<in>set (dc_order c). map_of (dc_entries c) k \<noteq> None"
    using assms(2) by (auto simp: map_of_eq_None_iff)
  then have "retain_seen (\<lambda>k. map_of (dc_entries c) k \<noteq> None) [] (dc_order c) = dc_order c"
    using assms(1) by (intro retain_seen_distinct) auto
  then show ?thesis by (simp add: retain_order_for_entries_def)
qed

lemma length_order_entries:
  assumes "distinct (map fst es)" "distinct queue" "set queue = set (map fst es)"
  shows "length queue = length es"
  using assms by (metis distinct_card length_map)

lemma evict_loop_done: "length es \<le> capacity \<Longrightarrow> evict_loop capacity a es q ev r = (es, q, ev)"
  by (subst evict_loop.simps) simp

lemma length_delete_member:
  assumes "distinct (map fst es)" "k \<in> set (map fst es)"
  shows "Suc (length (AList.delete k es)) = length es"
  using assms
proof (induction es)
  case Nil
  then show ?case by simp
next
  case (Cons p es)
  show ?case
  proof (cases "fst p = k")
    case True
    then have "AList.delete k es = es" using Cons.prems(1) by (intro delete_id) auto
    then show ?thesis using True by (simp add: delete_simps case_prod_beta)
  next
    case False
    then show ?thesis using Cons by (auto simp: case_prod_beta)
  qed
qed

lemma delete_filter: "AList.delete k xs = filter (\<lambda>p. fst p \<noteq> k) xs"
  by (auto simp: AList.delete_eq intro: filter_cong)

lemma update_fresh: "k \<notin> fst ` set es \<Longrightarrow> AList.update k v es = es @ [(k, v)]"
  by (induction es) auto

text \<open>One key over capacity, the active key last in the queue: the loop evicts the head.\<close>

lemma evict_loop_head:
  assumes "distinct (map fst es)" "length es = Suc capacity" "candidate \<in> set (map fst es)"
    and "candidate \<noteq> active"
  shows "evict_loop capacity active es (candidate # rest) [] 0 = (AList.delete candidate es, rest, [candidate])"
proof -
  have some: "map_of es candidate \<noteq> None" using assms(3) by (simp add: map_of_eq_None_iff)
  have "length (AList.delete candidate es) = capacity"
    using length_delete_member [OF assms(1,3)] assms(2) by simp
  then have fin: "evict_loop capacity active (AList.delete candidate es) rest [candidate] 0
      = (AList.delete candidate es, rest, [candidate])"
    by (intro evict_loop_done) simp
  show ?thesis
    by (subst evict_loop.simps) (use some fin assms(2,4) in auto)
qed

lemma dc_shape_holds: "dc_shape c \<Longrightarrow> dc_get c k \<noteq> None \<longleftrightarrow> k \<in> set (dc_order c)"
  by (auto simp: dc_shape_def dc_get_def map_of_eq_None_iff)

lemma insert_known:
  "dc_shape c \<Longrightarrow> dc_get c k = Some ds' \<Longrightarrow>
     insert_if_absent k ds c = (c, \<lparr>cir_dataset = ds', cir_inserted = False, cir_evicted = []\<rparr>)"
  by (simp add: insert_if_absent_def retain_order_shape dc_shape_def)

text \<open>What a fresh insertion does.\<close>

lemma insert_fresh:
  assumes c: "dc_shape c" and fresh: "dc_get c k = None"
  defines "n \<equiv> Suc (length (dc_order c)) - DATASET_CACHE_CAPACITY"
  shows "fst (insert_if_absent k ds c) =
    c\<lparr>dc_entries := filter (\<lambda>p. fst p \<notin> set (take n (dc_order c))) (AList.update k ds (dc_entries c)),
      dc_order := drop n (dc_order c @ [k])\<rparr>"
    and "cir_dataset (snd (insert_if_absent k ds c)) = ds"
proof -
  let ?es = "AList.update k ds (dc_entries c)" and ?q = "dc_order c @ [k]"
  have shape: "distinct (map fst (dc_entries c))" "distinct (dc_order c)"
    "set (dc_order c) = set (map fst (dc_entries c))" "length (dc_entries c) \<le> 3"
    using c by (simp_all add: dc_shape_def DATASET_CACHE_CAPACITY_def)
  have k: "k \<notin> set (map fst (dc_entries c))" using fresh by (simp add: dc_get_def map_of_eq_None_iff)
  have es: "?es = dc_entries c @ [(k, ds)]" using k by (simp add: update_fresh)
  have q: "filter (\<lambda>q. q \<noteq> k) (dc_order c) = dc_order c" using k shape(3) by (auto simp: filter_id_conv)
  have len: "length (dc_order c) = length (dc_entries c)"
    using shape by (intro length_order_entries) auto
  have ins: "insert_if_absent k ds c =
      (case evict_over_capacity (c\<lparr>dc_entries := ?es, dc_order := ?q\<rparr>) k of
         (c2, ev) \<Rightarrow> (c2, \<lparr>cir_dataset = ds, cir_inserted = True, cir_evicted = ev\<rparr>))"
    using fresh by (simp add: insert_if_absent_def q)
  show "cir_dataset (snd (insert_if_absent k ds c)) = ds"
    unfolding ins by (simp split: prod.split)
  show "fst (insert_if_absent k ds c) =
    c\<lparr>dc_entries := filter (\<lambda>p. fst p \<notin> set (take n (dc_order c))) ?es,
      dc_order := drop n (dc_order c @ [k])\<rparr>"
  proof (cases "length (dc_entries c) < 3")
    case True
    then have n: "n = 0" using len by (simp add: n_def DATASET_CACHE_CAPACITY_def)
    have loop: "evict_loop 3 k ?es ?q [] 0 = (?es, ?q, [])"
      using True by (intro evict_loop_done) (simp add: es)
    have keep: "retain_order_for_entries (c\<lparr>dc_entries := ?es, dc_order := ?q\<rparr>)
        = c\<lparr>dc_entries := ?es, dc_order := ?q\<rparr>"
      using shape k by (intro retain_order_shape) (auto simp: es)
    show ?thesis
      unfolding ins by (simp add: evict_over_capacity_def evict_over_capacity_limit_def
        DATASET_CACHE_CAPACITY_def loop keep n)
  next
    case False
    then have three: "length (dc_entries c) = 3" using shape(4) by simp
    then obtain h t where ht: "dc_order c = h # t" using len by (cases "dc_order c") auto
    have n: "n = 1" using three len by (simp add: n_def DATASET_CACHE_CAPACITY_def)
    have h: "h \<in> set (map fst (dc_entries c))" "h \<noteq> k" using shape(3) k ht by auto
    have loop: "evict_loop 3 k ?es ?q [] 0 = (AList.delete h ?es, t @ [k], [h])"
      unfolding ht append_Cons
      by (rule evict_loop_head) (use shape(1) k three h in \<open>auto simp: es\<close>)
    have keep: "retain_order_for_entries (c\<lparr>dc_entries := AList.delete h ?es, dc_order := t @ [k]\<rparr>)
        = c\<lparr>dc_entries := AList.delete h ?es, dc_order := t @ [k]\<rparr>"
      using shape(2,3) k ht h
      by (intro retain_order_shape) (auto simp: delete_keys update_keys simp del: set_map)
    have "fst (insert_if_absent k ds c) = c\<lparr>dc_entries := AList.delete h ?es, dc_order := t @ [k]\<rparr>"
      unfolding ins by (simp add: evict_over_capacity_def evict_over_capacity_limit_def
        DATASET_CACHE_CAPACITY_def loop keep del: append_Cons)
    then show ?thesis by (simp add: n ht delete_filter)
  qed
qed

lemma keys_filter: "set (map fst (filter (\<lambda>p. fst p \<notin> A) xs)) = set (map fst xs) - A"
  by (induction xs) auto

lemma dc_shape_insert:
  assumes c: "dc_shape c"
  shows "dc_shape (fst (insert_if_absent k ds c))"
proof (cases "dc_get c k")
  case (Some ds')
  then show ?thesis using c by (simp add: insert_known)
next
  case None
  let ?n = "Suc (length (dc_order c)) - DATASET_CACHE_CAPACITY"
  have shape: "distinct (map fst (dc_entries c))" "distinct (dc_order c)"
    "set (dc_order c) = set (map fst (dc_entries c))" "length (dc_entries c) \<le> 3"
    using c by (simp_all add: dc_shape_def DATASET_CACHE_CAPACITY_def)
  have k: "k \<notin> set (dc_order c)" using None c dc_shape_holds by blast
  let ?es = "filter (\<lambda>p. fst p \<notin> set (take ?n (dc_order c))) (AList.update k ds (dc_entries c))"
  let ?q = "drop ?n (dc_order c @ [k])"
  have d: "distinct (map fst ?es)"
    using shape(1) by (simp add: distinct_update distinct_map_filter)
  have q: "distinct ?q" using shape(2) k by (intro distinct_drop) simp
  have n: "?n \<le> length (dc_order c)" by (simp add: DATASET_CACHE_CAPACITY_def)
  have split: "set (dc_order c) = set (take ?n (dc_order c)) \<union> set (drop ?n (dc_order c))"
    by (metis append_take_drop_id set_append)
  have disj: "set (take ?n (dc_order c)) \<inter> set (drop ?n (dc_order c)) = {}"
    using shape(2) by (simp add: set_take_disj_set_drop_if_distinct)
  have "set (map fst ?es) = insert k (set (map fst (dc_entries c))) - set (take ?n (dc_order c))"
    by (subst keys_filter) (simp add: dom_update)
  also have "\<dots> = insert k (set (drop ?n (dc_order c)))"
    using split disj k shape(3) in_set_takeD by fastforce
  also have "\<dots> = set ?q" using n by simp
  finally have s: "set ?q = set (map fst ?es)" by simp
  have "length ?es = length ?q" using length_order_entries [OF d q s] by simp
  then have "length ?es \<le> 3" by (simp add: DATASET_CACHE_CAPACITY_def)
  then show ?thesis
    using d q s by (simp add: insert_fresh(1) [OF c None] dc_shape_def DATASET_CACHE_CAPACITY_def)
qed

interpretation dcache: bounded_fifo dc_order "\<lambda>c k. dc_get c k \<noteq> None"
  "\<lambda>k ds c. fst (insert_if_absent k ds c)" DATASET_CACHE_CAPACITY dc_shape
proof unfold_locales
  fix s :: dataset_cache and k ds
  assume s: "dc_shape s"
  show "length (dc_order s) \<le> DATASET_CACHE_CAPACITY"
    using s length_order_entries unfolding dc_shape_def by metis
  show "(dc_get s k \<noteq> None) = (k \<in> set (dc_order s))" using s by (rule dc_shape_holds)
  show "dc_shape (fst (insert_if_absent k ds s))" using s by (rule dc_shape_insert)
  show "dc_get s k \<noteq> None \<Longrightarrow> dc_order (fst (insert_if_absent k ds s)) = dc_order s"
    using s by (auto simp: insert_known)
  show "\<not> dc_get s k \<noteq> None \<Longrightarrow> dc_order (fst (insert_if_absent k ds s)) =
      drop (Suc (length (dc_order s)) - DATASET_CACHE_CAPACITY) (dc_order s @ [k])"
    using s by (simp add: insert_fresh(1) del: drop_append not_None_eq not_Some_eq)
qed (auto simp: dc_shape_def DATASET_CACHE_CAPACITY_def)

section \<open>Coherence, and independence of the cache\<close>

lemma map_of_filter_keys: "map_of (filter (\<lambda>p. fst p \<notin> A) xs) j = (if j \<in> A then None else map_of xs j)"
  by (induction xs) auto

lemma dc_coherentD: "dc_coherent c \<Longrightarrow> dc_get c k = Some ds \<Longrightarrow> ds = build_key k"
  unfolding dc_coherent_def by blast

lemma dc_coherent_insert:
  assumes c: "dc_shape c" "dc_coherent c" and ds: "ds = build_key k"
  shows "dc_coherent (fst (insert_if_absent k ds c))"
proof (cases "dc_get c k")
  case (Some ds')
  then show ?thesis using c by (simp add: insert_known)
next
  case None
  have sub: "dc_get c j = Some d" if "j \<noteq> k" "dc_get (fst (insert_if_absent k ds c)) j = Some d" for j d
    using that unfolding insert_fresh(1) [OF c(1) None]
    by (simp add: dc_get_def map_of_filter_keys update_conv' split: if_splits)
  have new: "d = ds" if "dc_get (fst (insert_if_absent k ds c)) k = Some d" for d
    using that unfolding insert_fresh(1) [OF c(1) None]
    by (simp add: dc_get_def map_of_filter_keys update_conv' split: if_splits)
  show ?thesis unfolding dc_coherent_def
  proof (intro allI impI)
    fix j d assume "dc_get (fst (insert_if_absent k ds c)) j = Some d"
    then show "d = build_key j" using sub [of j d] new [of d] dc_coherentD [OF c(2), of j d] ds
      by (cases "j = k") blast+
  qed
qed

definition dc_ok :: "dataset_cache \<Rightarrow> bool" where
  "dc_ok c \<longleftrightarrow> dc_shape c \<and> dc_coherent c"

lemma dc_ok_empty [simp]: "dc_ok dc_empty" "dc_ok (dc_clear c)"
  by (simp_all add: dc_ok_def dc_shape_def dc_coherent_def dc_get_def dc_empty_def dc_clear_def
      DATASET_CACHE_CAPACITY_def)

text \<open>A lookup through a good cache is a rebuild, and leaves a good cache.\<close>

lemma get_cached_ok:
  assumes "dc_ok c"
  shows "snd (get_cached p ph e c) = dataset_build p ph e" and "dc_ok (fst (get_cached p ph e c))"
proof -
  let ?k = "(p, e, ph)"
  have b: "build_key ?k = dataset_build p ph e" by (simp add: build_key_def)
  have "snd (get_cached p ph e c) = dataset_build p ph e \<and> dc_ok (fst (get_cached p ph e c))"
  proof (cases "dc_get c ?k")
    case (Some ds)
    then have "ds = dataset_build p ph e" using assms b dc_coherentD unfolding dc_ok_def by metis
    then show ?thesis using Some assms by (simp add: get_cached_def)
  next
    case None
    have sh: "dc_shape c" using assms by (simp add: dc_ok_def)
    have "cir_dataset (snd (insert_if_absent ?k (dataset_build p ph e) c)) = dataset_build p ph e"
      using sh None by (rule insert_fresh(2))
    moreover have "dc_ok (fst (insert_if_absent ?k (dataset_build p ph e) c))"
      using assms b by (simp add: dc_ok_def dc_shape_insert dc_coherent_insert)
    ultimately show ?thesis using None by (simp add: get_cached_def case_prod_beta)
  qed
  then show "snd (get_cached p ph e c) = dataset_build p ph e" "dc_ok (fst (get_cached p ph e c))"
    by simp_all
qed

text \<open>The digest a header has, with no cache in sight.\<close>

definition pure_digest :: "visionx_params \<Rightarrow> u8 list \<Rightarrow> u64 \<Rightarrow> u8 list \<Rightarrow> u64 \<Rightarrow> u8 list option" where
  "pure_digest p prev_hash32 epoch bs nnc =
     (case dataset_build p prev_hash32 epoch of (d, m) \<Rightarrow> visionx_hash p d m bs nnc)"

lemma visionx_digest_pure:
  assumes "dc_ok c" "params_within_bounds p"
  shows "map_option snd (visionx_digest p ph e bs nnc c) = map_option Inr (pure_digest p ph e bs nnc)"
    and "visionx_digest p ph e bs nnc c = Some (c', r) \<Longrightarrow> dc_ok c'"
  using assms get_cached_ok [OF assms(1), of p ph e]
  by (auto simp: visionx_digest_def pure_digest_def case_prod_beta option.map_comp o_def)

lemma pure_digest_Some: "\<exists>d. pure_digest p ph e bs nnc = Some d \<and> length d = 32"
  using visionx_hash_dataset [of p p ph e bs nnc] by (simp add: pure_digest_def case_prod_beta)

lemma visionx_digest_ok:
  assumes "dc_ok c" "params_within_bounds p"
  shows "\<exists>c' d. visionx_digest p ph e bs nnc c = Some (c', Inr d) \<and> dc_ok c'
    \<and> pure_digest p ph e bs nnc = Some d \<and> length d = 32"
proof -
  obtain d where d: "pure_digest p ph e bs nnc = Some d" "length d = 32"
    using pure_digest_Some by blast
  then have "map_option snd (visionx_digest p ph e bs nnc c) = Some (Inr d)"
    using visionx_digest_pure(1) [OF assms] by simp
  then obtain c' where "visionx_digest p ph e bs nnc c = Some (c', Inr d)" by auto
  then show ?thesis using d visionx_digest_pure(2) [OF assms] by blast
qed

end
