(* ===== verification/Pow_Cache.thy ===== *)
theory Pow_Cache
  imports Chain_State VisionX_Cache Difficulty
begin

text \<open>
  The process-wide state beside the chain and the proof-of-work check of \<open>chain/accept.rs\<close>.
  A \<open>machine\<close> extends the chain state with the bounded cache of pre-validated hashes, the
  VisionX dataset cache and the wall clock. Every read of the clock takes the next value of an
  arbitrary sequence, so the theorems hold however time passes between two reads.
\<close>

record 'db machine = "'db chain_state" +
  pow_order :: "string list"
  pow_set :: "string set"
  ds_cache :: dataset_cache
  clock :: "nat \<Rightarrow> u64"
  ticks :: nat

definition wall_clock_secs :: "('db, 'm) machine_scheme \<Rightarrow> ('db, 'm) machine_scheme \<times> u64" where
  "wall_clock_secs m = (m\<lparr>ticks := ticks m + 1\<rparr>, clock m (ticks m))"

section \<open>Pre-validated hashes\<close>

definition POW_CACHE_CAPACITY :: nat where
  "POW_CACHE_CAPACITY = 500"

fun evict_pow :: "string list \<Rightarrow> string set \<Rightarrow> string list \<times> string set" where
  "evict_pow [] s = ([], s)"
| "evict_pow (h # order) s =
     (if length (h # order) > POW_CACHE_CAPACITY then evict_pow order (s - {h}) else (h # order, s))"

definition mark_pow_prevalidated :: "string \<Rightarrow> ('db, 'm) machine_scheme \<Rightarrow> ('db, 'm) machine_scheme" where
  "mark_pow_prevalidated h m =
     (if h \<in> pow_set m then m
      else (case evict_pow (pow_order m @ [h]) (insert h (pow_set m)) of
              (order, s) \<Rightarrow> m\<lparr>pow_order := order, pow_set := s\<rparr>))"

definition is_pow_prevalidated :: "string \<Rightarrow> ('db, 'm) machine_scheme \<Rightarrow> bool" where
  "is_pow_prevalidated h m = (h \<in> pow_set m)"

definition clear_pow_prevalidation :: "string \<Rightarrow> ('db, 'm) machine_scheme \<Rightarrow> ('db, 'm) machine_scheme" where
  "clear_pow_prevalidation h m =
     (if h \<in> pow_set m
      then m\<lparr>pow_set := pow_set m - {h}, pow_order := filter (\<lambda>k. k \<noteq> h) (pow_order m)\<rparr>
      else m)"

definition pow_cache_ok :: "('db, 'm) machine_scheme \<Rightarrow> bool" where
  "pow_cache_ok m \<longleftrightarrow> distinct (pow_order m) \<and> set (pow_order m) = pow_set m
     \<and> length (pow_order m) \<le> POW_CACHE_CAPACITY"

lemma evict_pow_eq:
  assumes "distinct order" "length order \<le> Suc POW_CACHE_CAPACITY"
  shows "evict_pow order s =
    (drop (length order - POW_CACHE_CAPACITY) order, s - set (take (length order - POW_CACHE_CAPACITY) order))"
proof (cases order)
  case Nil
  then show ?thesis by simp
next
  case (Cons h t)
  show ?thesis
  proof (cases "length order > POW_CACHE_CAPACITY")
    case True
    then have t: "length t = POW_CACHE_CAPACITY" using assms Cons by simp
    have "evict_pow t r = (t, r)" for r
      using t by (cases t) (simp_all add: POW_CACHE_CAPACITY_def)
    then show ?thesis using Cons True t by simp
  next
    case False
    then show ?thesis using Cons by simp
  qed
qed

lemma mark_fresh:
  assumes "pow_cache_ok m" "h \<notin> pow_set m"
  defines "n \<equiv> Suc (length (pow_order m)) - POW_CACHE_CAPACITY"
  shows "mark_pow_prevalidated h m =
    m\<lparr>pow_order := drop n (pow_order m @ [h]), pow_set := insert h (pow_set m) - set (take n (pow_order m @ [h]))\<rparr>"
proof -
  have "distinct (pow_order m @ [h])" "length (pow_order m @ [h]) \<le> Suc POW_CACHE_CAPACITY"
    using assms(1,2) by (auto simp: pow_cache_ok_def)
  then show ?thesis
    using assms(2) evict_pow_eq [of "pow_order m @ [h]" "insert h (pow_set m)"]
    by (simp add: mark_pow_prevalidated_def n_def del: drop_append take_append)
qed

lemma pow_cache_ok_mark:
  assumes ok: "pow_cache_ok m"
  shows "pow_cache_ok (mark_pow_prevalidated h m)"
proof (cases "h \<in> pow_set m")
  case True
  then show ?thesis using ok by (simp add: mark_pow_prevalidated_def)
next
  case False
  let ?o = "pow_order m @ [h]" and ?n = "Suc (length (pow_order m)) - POW_CACHE_CAPACITY"
  have d: "distinct ?o" "set ?o = insert h (pow_set m)" using ok False by (auto simp: pow_cache_ok_def)
  have "set (take ?n ?o) \<union> set (drop ?n ?o) = set ?o" by (metis append_take_drop_id set_append)
  moreover have "set (take ?n ?o) \<inter> set (drop ?n ?o) = {}"
    using d(1) by (simp only: set_take_disj_set_drop_if_distinct)
  ultimately have "set (drop ?n ?o) = insert h (pow_set m) - set (take ?n ?o)" using d(2) by blast
  moreover have "distinct (drop ?n ?o)" using d(1) by (rule distinct_drop)
  moreover have "length (drop ?n ?o) \<le> POW_CACHE_CAPACITY" by simp
  ultimately show ?thesis
    unfolding mark_fresh [OF ok False] by (simp add: pow_cache_ok_def del: drop_append take_append)
qed

lemma pow_cache_ok_clear: "pow_cache_ok m \<Longrightarrow> pow_cache_ok (clear_pow_prevalidation h m)"
  by (auto simp: pow_cache_ok_def clear_pow_prevalidation_def intro: le_trans [OF length_filter_le])

interpretation pow_cache: bounded_fifo pow_order "\<lambda>m h. is_pow_prevalidated h m"
  "\<lambda>h (u :: unit) m. mark_pow_prevalidated h m" POW_CACHE_CAPACITY pow_cache_ok
proof unfold_locales
  fix s :: "('db, 'm) machine_scheme" and k u
  assume s: "pow_cache_ok s"
  show "distinct (pow_order s)" "length (pow_order s) \<le> POW_CACHE_CAPACITY"
    using s by (simp_all add: pow_cache_ok_def)
  show "is_pow_prevalidated k s = (k \<in> set (pow_order s))"
    using s by (simp add: pow_cache_ok_def is_pow_prevalidated_def)
  show "pow_cache_ok (mark_pow_prevalidated k s)" using s by (rule pow_cache_ok_mark)
  show "is_pow_prevalidated k s \<Longrightarrow> pow_order (mark_pow_prevalidated k s) = pow_order s"
    by (simp add: is_pow_prevalidated_def mark_pow_prevalidated_def)
  show "\<not> is_pow_prevalidated k s \<Longrightarrow> pow_order (mark_pow_prevalidated k s) =
      drop (Suc (length (pow_order s)) - POW_CACHE_CAPACITY) (pow_order s @ [k])"
    using s by (simp add: is_pow_prevalidated_def mark_fresh del: drop_append)
qed (simp add: POW_CACHE_CAPACITY_def)

section \<open>The proof-of-work check\<close>

datatype pow_failure = PowEncoding pow_error | PowFailed | PowHashMismatch

text \<open>\<open>None\<close> is a panic.\<close>

definition verify_visionx_pow ::
  "('db, 'x) ext_scheme \<Rightarrow> block \<Rightarrow> ('db, 'm) machine_scheme
     \<Rightarrow> (('db, 'm) machine_scheme \<times> (pow_failure + unit)) option" where
  "verify_visionx_pow X blk m =
     (case epoch_of VISIONX_PARAMS (number (header blk)) of
        None \<Rightarrow> None
      | Some epoch \<Rightarrow>
          (case historical_block_digest X VISIONX_PARAMS epoch (header blk) (ds_cache m) of
             None \<Rightarrow> None
           | Some (c, Inl e) \<Rightarrow> Some (m\<lparr>ds_cache := c\<rparr>, Inl (PowEncoding e))
           | Some (c, Inr digest) \<Rightarrow>
               (let target = difficulty_to_target (difficulty (header blk))
                in if take 8 digest > take 8 target
                   then Some (m\<lparr>ds_cache := c\<rparr>, Inl PowFailed)
                   else if block_hash blk \<noteq> hex_encode X digest
                   then Some (m\<lparr>ds_cache := c\<rparr>, Inl PowHashMismatch)
                   else Some (m\<lparr>ds_cache := c\<rparr>, Inr ()))))"

definition verify_pow_only ::
  "('db, 'x) ext_scheme \<Rightarrow> block \<Rightarrow> ('db, 'm) machine_scheme
     \<Rightarrow> (('db, 'm) machine_scheme \<times> (pow_failure + unit)) option" where
  "verify_pow_only X blk m =
     (case verify_visionx_pow X blk m of
        None \<Rightarrow> None
      | Some (m', Inl e) \<Rightarrow> Some (m', Inl e)
      | Some (m', Inr _) \<Rightarrow> Some (mark_pow_prevalidated (block_hash blk) m', Inr ()))"

text \<open>The verdict, with no cache in sight.\<close>

definition header_digest :: "('db, 'x) ext_scheme \<Rightarrow> block_header \<Rightarrow> pow_error + u8 list" where
  "header_digest X h =
     (case visionx_decode_hash_32 X (parent_hash h) of
        Inl e \<Rightarrow> Inl e
      | Inr ph \<Rightarrow>
          (case historical_vpow_message_bytes_with_nonce_zero X h of
             Inl e \<Rightarrow> Inl e
           | Inr pre \<Rightarrow>
               Inr (the (pure_digest VISIONX_PARAMS ph (number h div 32) pre (nonce h)))))"

definition pow_verdict :: "('db, 'x) ext_scheme \<Rightarrow> block \<Rightarrow> pow_failure + unit" where
  "pow_verdict X blk =
     (case header_digest X (header blk) of
        Inl e \<Rightarrow> Inl (PowEncoding e)
      | Inr d \<Rightarrow>
          if take 8 d > take 8 (difficulty_to_target (difficulty (header blk))) then Inl PowFailed
          else if block_hash blk \<noteq> hex_encode X d then Inl PowHashMismatch
          else Inr ())"

lemma VISIONX_PARAMS_bounds [simp]: "params_within_bounds VISIONX_PARAMS"
  by (simp add: params_within_bounds_def VISIONX_PARAMS_def const_defs)

lemma VISIONX_epoch: "epoch_of VISIONX_PARAMS h = Some (h div 32)"
  by (simp add: epoch_of_def VISIONX_PARAMS_def const_defs)

lemma historical_block_digest_ok:
  assumes "dc_ok c"
  shows "\<exists>c'. historical_block_digest X VISIONX_PARAMS (number h div 32) h c = Some (c', header_digest X h)
    \<and> dc_ok c'"
proof (cases "visionx_decode_hash_32 X (parent_hash h)")
  case (Inl e)
  then show ?thesis using assms by (simp add: historical_block_digest_def header_digest_def)
next
  case (Inr ph)
  show ?thesis
  proof (cases "historical_vpow_message_bytes_with_nonce_zero X h")
    case (Inl e)
    then show ?thesis using Inr assms by (simp add: historical_block_digest_def header_digest_def)
  next
    case pre: (Inr pre)
    from visionx_digest_ok [OF assms VISIONX_PARAMS_bounds, of ph "number h div 32" pre "nonce h"]
    show ?thesis using Inr pre by (auto simp: historical_block_digest_def header_digest_def)
  qed
qed

text \<open>With a good dataset cache the check never panics, changes only that cache, and its
  verdict depends on the block alone.\<close>

lemma verify_visionx_pow_ok:
  assumes "dc_ok (ds_cache m)"
  shows "\<exists>c. verify_visionx_pow X blk m = Some (m\<lparr>ds_cache := c\<rparr>, pow_verdict X blk) \<and> dc_ok c"
proof -
  obtain c where c: "dc_ok c"
    and d: "historical_block_digest X VISIONX_PARAMS (number (header blk) div 32) (header blk) (ds_cache m)
      = Some (c, header_digest X (header blk))"
    using historical_block_digest_ok [OF assms] by blast
  have "verify_visionx_pow X blk m = Some (m\<lparr>ds_cache := c\<rparr>, pow_verdict X blk)"
    unfolding verify_visionx_pow_def VISIONX_epoch pow_verdict_def
    using d by (simp add: Let_def split: sum.split)
  then show ?thesis using c by blast
qed

lemma header_digest_length: "header_digest X h = Inr d \<Longrightarrow> length d = 32"
proof -
  assume "header_digest X h = Inr d"
  then obtain ph pre where "d = the (pure_digest VISIONX_PARAMS ph (number h div 32) pre (nonce h))"
    by (auto simp: header_digest_def split: sum.splits)
  then show ?thesis using pure_digest_Some [of VISIONX_PARAMS ph "number h div 32" pre "nonce h"] by auto
qed

end
