(* ===== verification/Orphan.thy ===== *)
theory Orphan
  imports Pow_Cache
begin

text \<open>
  \<open>chain/orphan.rs\<close> without the promotion loop, which calls block acceptance and is modelled
  with it: adding an orphan, and evicting the oldest one when the pool is full. The lemmas bound
  the pool, and say that eviction takes the first entry with the least arrival time.
\<close>

section \<open>The pool\<close>

definition pool_total :: "(string, orphan_entry list) btree \<Rightarrow> nat" where
  "pool_total pool = (\<Sum>p\<leftarrow>bt_entries pool. length (snd p))"

text \<open>Every entry with its key and position, in the order the nested loops visit them.\<close>

definition pool_positions :: "(string, orphan_entry list) btree \<Rightarrow> (string \<times> nat \<times> u64) list" where
  "pool_positions pool =
     concat (map (\<lambda>p. map (\<lambda>(pos, e). (fst p, pos, fst (snd e))) (enumerate 0 (snd p))) (bt_entries pool))"

definition scan_oldest ::
  "(string \<times> nat \<times> u64) option \<Rightarrow> string \<times> nat \<times> u64 \<Rightarrow> (string \<times> nat \<times> u64) option" where
  "scan_oldest oldest e =
     (case oldest of
        None \<Rightarrow> Some e
      | Some (_, _, old_ts) \<Rightarrow> if snd (snd e) < old_ts then Some e else oldest)"

definition find_oldest :: "(string, orphan_entry list) btree \<Rightarrow> (string \<times> nat \<times> u64) option" where
  "find_oldest pool = foldl scan_oldest None (pool_positions pool)"

definition remove_at :: "nat \<Rightarrow> 'a list \<Rightarrow> 'a list" where
  "remove_at pos xs = take pos xs @ drop (Suc pos) xs"

text \<open>\<open>entries.remove(pos)\<close> reads in range: the position comes from the scan.\<close>

definition prune_old_orphans :: "('db, 'm) machine_scheme \<Rightarrow> ('db, 'm) machine_scheme" where
  "prune_old_orphans g =
     (if pool_total (orphan_pool g) < ORPHAN_POOL_MAX then g
      else (case find_oldest (orphan_pool g) of
          None \<Rightarrow> g
        | Some (key, pos, _) \<Rightarrow>
            (case bt_lookup (orphan_pool g) key of
               None \<Rightarrow> g
             | Some entries \<Rightarrow>
                 (let evicted = fst (entries ! pos);
                      rest = remove_at pos entries
                  in g\<lparr>orphan_by_hash := (orphan_by_hash g)(block_hash evicted := None),
                       orphan_pool := (if rest = [] then bt_remove key (orphan_pool g)
                                       else bt_insert key rest (orphan_pool g))\<rparr>))))"

definition add_orphan :: "block \<Rightarrow> string \<Rightarrow> ('db, 'm) machine_scheme \<Rightarrow> ('db, 'm) machine_scheme" where
  "add_orphan blk source_peer g =
     (let parent = parent_hash (header blk);
          hash = block_hash blk;
          g1 = prune_old_orphans g;
          g2 = g1\<lparr>orphan_by_hash := (orphan_by_hash g1)(hash \<mapsto> parent)\<rparr>;
          (g3, now) = wall_clock_secs g2;
          waiting = (case bt_lookup (orphan_pool g3) parent of None \<Rightarrow> [] | Some v \<Rightarrow> v)
      in g3\<lparr>orphan_pool := bt_insert parent (waiting @ [(blk, now, source_peer)]) (orphan_pool g3)\<rparr>)"

section \<open>Facts\<close>

lemma pool_total_bt: "pool_total m = bt_total length m"
  by (simp add: pool_total_def bt_total_def)

lemma pool_total_insert:
  "bt_wf m \<Longrightarrow> pool_total (bt_insert k v m)
     + (case bt_lookup m k of None \<Rightarrow> 0 | Some u \<Rightarrow> length u) = pool_total m + length v"
  unfolding pool_total_bt by (rule bt_total_insert)

lemma pool_total_remove:
  "bt_wf m \<Longrightarrow> bt_lookup m k = Some v \<Longrightarrow> pool_total (bt_remove k m) + length v = pool_total m"
proof (induction m)
  case Nil
  then show ?case by simp
next
  case (Cons p m)
  have wf: "bt_wf m" and less: "\<forall>j\<in>set (map fst m). fst p < j" using Cons.prems(1) by (simp_all add: bt_wf_def)
  show ?case
  proof (cases "fst p = k")
    case True
    then have "k \<notin> set (map fst m)" using less by auto
    then have "bt_remove k m = m" by (force simp: bt_remove_def intro!: filter_True)
    then show ?thesis using True Cons.prems(2)
      by (cases p) (simp add: bt_remove_def bt_lookup_def pool_total_def bt_entries_def)
  next
    case False
    then have "bt_lookup m k = Some v" using Cons.prems(2) by (cases p) (simp add: bt_lookup_def)
    then have "pool_total (bt_remove k m) + length v = pool_total m" using Cons.IH wf by simp
    then show ?thesis using False by (simp add: bt_remove_def pool_total_def bt_entries_def)
  qed
qed

lemma pool_total_lookup: "bt_lookup m k = Some v \<Longrightarrow> length v \<le> pool_total m"
  unfolding pool_total_bt by (rule bt_total_lookup_le)

text \<open>The scan keeps the first entry whose time no later entry undercuts.\<close>

lemma scan_oldest_simps:
  "scan_oldest None e = Some e"
  "scan_oldest (Some a) e = (if snd (snd e) < snd (snd a) then Some e else Some a)"
  by (simp_all add: scan_oldest_def case_prod_beta)

lemma foldl_scan_oldest:
  "foldl scan_oldest (Some e) es = Some r \<Longrightarrow>
     (r = e \<or> r \<in> set es) \<and> snd (snd r) \<le> snd (snd e) \<and> (\<forall>x\<in>set es. snd (snd r) \<le> snd (snd x))"
proof (induction es arbitrary: e)
  case Nil
  then show ?case by simp
next
  case (Cons x es)
  show ?case
  proof (cases "snd (snd x) < snd (snd e)")
    case True
    then have "foldl scan_oldest (Some x) es = Some r" using Cons.prems by (simp add: scan_oldest_simps)
    then show ?thesis using Cons.IH [of x] True by auto
  next
    case False
    then have "foldl scan_oldest (Some e) es = Some r" using Cons.prems by (simp add: scan_oldest_simps)
    then show ?thesis using Cons.IH [of e] False by auto
  qed
qed

lemma foldl_scan_oldest_Some: "\<exists>r. foldl scan_oldest (Some e) es = Some r"
  by (induction es arbitrary: e) (auto simp: scan_oldest_simps)

lemma find_oldest_least:
  assumes "find_oldest pool = Some r"
  shows "r \<in> set (pool_positions pool)" and "x \<in> set (pool_positions pool) \<Longrightarrow> snd (snd r) \<le> snd (snd x)"
proof -
  obtain e es where es: "pool_positions pool = e # es"
    using assms by (cases "pool_positions pool") (auto simp: find_oldest_def)
  then have "foldl scan_oldest (Some e) es = Some r" using assms by (simp add: find_oldest_def scan_oldest_simps)
  from foldl_scan_oldest [OF this] show "r \<in> set (pool_positions pool)"
    "x \<in> set (pool_positions pool) \<Longrightarrow> snd (snd r) \<le> snd (snd x)" using es by auto
qed

lemma find_oldest_None: "find_oldest pool = None \<longleftrightarrow> pool_positions pool = []"
proof (cases "pool_positions pool")
  case Nil
  then show ?thesis by (simp add: find_oldest_def)
next
  case (Cons e es)
  then show ?thesis using foldl_scan_oldest_Some [of e es] by (auto simp: find_oldest_def scan_oldest_simps)
qed

lemma pool_positions_member:
  assumes "bt_wf pool" "(k, pos, ts) \<in> set (pool_positions pool)"
  shows "\<exists>es. bt_lookup pool k = Some es \<and> pos < length es \<and> ts = fst (snd (es ! pos))"
proof -
  obtain p e where p: "p \<in> set (bt_entries pool)"
    and e: "(pos, e) \<in> set (enumerate 0 (snd p))" "k = fst p" "ts = fst (snd e)"
    using assms(2) unfolding pool_positions_def by force
  have "bt_lookup pool k = Some (snd p)"
    using p e(2) bt.set_entries [OF assms(1), of "fst p" "snd p"] by simp
  moreover have "pos < length (snd p)" "e = snd p ! pos"
    using e(1) by (simp_all add: in_set_enumerate_eq)
  ultimately show ?thesis using e(3) by blast
qed

lemma pool_positions_Nil: "pool_positions pool = [] \<Longrightarrow> pool_total pool = 0"
  by (auto simp: pool_positions_def pool_total_def enumerate_eq_zip sum_list_eq_0_iff)

lemma length_remove_at: "pos < length xs \<Longrightarrow> Suc (length (remove_at pos xs)) = length xs"
  by (simp add: remove_at_def)

text \<open>Pruning evicts one entry exactly when the pool is full.\<close>

lemma prune_total:
  assumes wf: "bt_wf (orphan_pool g)" and full: "ORPHAN_POOL_MAX \<le> pool_total (orphan_pool g)"
  shows "Suc (pool_total (orphan_pool (prune_old_orphans g))) = pool_total (orphan_pool g)"
    and "bt_wf (orphan_pool (prune_old_orphans g))"
proof -
  let ?p = "orphan_pool g"
  have "pool_total ?p \<noteq> 0" using full by (simp add: ORPHAN_POOL_MAX_def)
  then have "pool_positions ?p \<noteq> []" by (rule contrapos_nn) (rule pool_positions_Nil)
  then obtain k pos ts where f: "find_oldest ?p = Some (k, pos, ts)"
    using find_oldest_None [of ?p] by (cases "find_oldest ?p") auto
  obtain es where es: "bt_lookup ?p k = Some es" "pos < length es"
    using pool_positions_member [OF wf find_oldest_least(1) [OF f]] by blast
  have new: "orphan_pool (prune_old_orphans g) =
      (if remove_at pos es = [] then bt_remove k ?p else bt_insert k (remove_at pos es) ?p)"
    using full f es by (simp add: prune_old_orphans_def Let_def)
  show "bt_wf (orphan_pool (prune_old_orphans g))" using wf unfolding new by simp
  have "pool_total (bt_remove k ?p) + length es = pool_total ?p"
    using wf es(1) by (rule pool_total_remove)
  moreover have "pool_total (bt_insert k (remove_at pos es) ?p) + length es
      = pool_total ?p + length (remove_at pos es)"
    using pool_total_insert [OF wf, of k "remove_at pos es"] es(1) by simp
  ultimately show "Suc (pool_total (orphan_pool (prune_old_orphans g))) = pool_total ?p"
    using length_remove_at [OF es(2)] unfolding new by auto
qed

lemma prune_not_full: "pool_total (orphan_pool g) < ORPHAN_POOL_MAX \<Longrightarrow> prune_old_orphans g = g"
  by (simp add: prune_old_orphans_def)

lemma add_orphan_pool:
  "orphan_pool (add_orphan blk peer g) =
     (let p = orphan_pool (prune_old_orphans g); k = parent_hash (header blk);
          w = (case bt_lookup p k of None \<Rightarrow> [] | Some v \<Rightarrow> v)
      in bt_insert k (w @ [(blk, clock (prune_old_orphans g) (ticks (prune_old_orphans g)), peer)]) p)"
  by (simp add: add_orphan_def Let_def wall_clock_secs_def)

lemma add_orphan_wf: "bt_wf (orphan_pool g) \<Longrightarrow> bt_wf (orphan_pool (add_orphan blk peer g))"
  using prune_total(2) [of g] prune_not_full [of g]
  by (cases "pool_total (orphan_pool g) < ORPHAN_POOL_MAX") (simp_all add: add_orphan_pool Let_def)

lemma add_orphan_total:
  assumes wf: "bt_wf (orphan_pool g)"
  shows "pool_total (orphan_pool (add_orphan blk peer g)) =
    (if pool_total (orphan_pool g) < ORPHAN_POOL_MAX then Suc (pool_total (orphan_pool g))
     else pool_total (orphan_pool g))"
proof -
  let ?p = "orphan_pool (prune_old_orphans g)"
  have wf': "bt_wf ?p" using prune_total(2) [of g] prune_not_full [of g] wf
    by (cases "pool_total (orphan_pool g) < ORPHAN_POOL_MAX") simp_all
  let ?k = "parent_hash (header blk)"
  let ?w = "case bt_lookup ?p ?k of None \<Rightarrow> [] | Some v \<Rightarrow> v"
  let ?e = "(blk, clock (prune_old_orphans g) (ticks (prune_old_orphans g)), peer)"
  have "pool_total (bt_insert ?k (?w @ [?e]) ?p) + length ?w = pool_total ?p + length (?w @ [?e])"
    using pool_total_insert [OF wf', of ?k "?w @ [?e]"] by (simp split: option.splits)
  then have "pool_total (orphan_pool (add_orphan blk peer g)) = Suc (pool_total ?p)"
    by (simp add: add_orphan_pool Let_def)
  then show ?thesis
    using prune_total(1) [OF wf] prune_not_full [of g] by (auto simp: not_less)
qed

text \<open>Only the pool, its index and the clock change.\<close>

lemma prune_frame:
  "\<exists>h p. prune_old_orphans g = g\<lparr>orphan_by_hash := h, orphan_pool := p\<rparr>"
proof (cases "prune_old_orphans g = g")
  case True
  then show ?thesis by (intro exI [of _ "orphan_pool g"] exI [of _ "orphan_by_hash g"]) simp
next
  case False
  then show ?thesis
    unfolding prune_old_orphans_def Let_def by (simp split: if_split_asm option.split_asm prod.split_asm) blast+
qed

lemma add_orphan_frame:
  "\<exists>h t p. add_orphan blk peer g = g\<lparr>orphan_by_hash := h, ticks := t, orphan_pool := p\<rparr>"
proof -
  obtain h p where "prune_old_orphans g = g\<lparr>orphan_by_hash := h, orphan_pool := p\<rparr>"
    using prune_frame by blast
  then show ?thesis by (simp add: add_orphan_def Let_def wall_clock_secs_def) blast
qed

end
