(* ===== verification/Storage.thy ===== *)
theory Storage
  imports Chain_State
begin

text \<open>
  \<open>chain/storage.rs\<close>: the keys of the database, the writes (one block, an atomic canonical
  extension, an atomic reorg) and the reload of the canonical chain. Writes return the state
  with the new handle and whether the store accepted them.
\<close>

section \<open>Keys\<close>

definition block_key :: "string \<Rightarrow> u8 list" where
  "block_key hash = as_bytes (''block:'' @ hash)"

definition height_key :: "u64 \<Rightarrow> u8 list" where
  "height_key h = as_bytes (''height:'' @ u64_to_string h)"

definition meta_key :: "string \<Rightarrow> u8 list" where
  "meta_key k = as_bytes (''meta:'' @ k)"

section \<open>Writes\<close>

definition store_block ::
  "('db, 'x) ext_scheme \<Rightarrow> block \<Rightarrow> ('db, 'm) chain_state_scheme \<Rightarrow> ('db, 'm) chain_state_scheme \<times> bool" where
  "store_block X blk g =
     (case sled_insert X (db g) (block_key (block_hash blk)) (bincode_block X blk) of
        (d, ok) \<Rightarrow> (g\<lparr>db := d\<rparr>, ok))"

definition extension_batch :: "('db, 'x) ext_scheme \<Rightarrow> block \<Rightarrow> batch_op list" where
  "extension_batch X blk =
     (let hash = block_hash blk; height = number (header blk)
      in [BatchInsert (block_key hash) (bincode_block X blk),
          BatchInsert (height_key height) (as_bytes hash),
          BatchInsert (meta_key ''tip_height'') (as_bytes (u64_to_string height)),
          BatchInsert (meta_key ''tip_hash'') (as_bytes hash)])"

definition persist_canonical_extension ::
  "('db, 'x) ext_scheme \<Rightarrow> block \<Rightarrow> ('db, 'm) chain_state_scheme \<Rightarrow> ('db, 'm) chain_state_scheme \<times> bool" where
  "persist_canonical_extension X blk g =
     (case sled_apply_batch X (db g) (extension_batch X blk) of (d, ok) \<Rightarrow> (g\<lparr>db := d\<rparr>, ok))"

definition reorg_batch :: "('db, 'x) ext_scheme \<Rightarrow> block list \<Rightarrow> block \<Rightarrow> u64 \<Rightarrow> batch_op list" where
  "reorg_batch X canonical_blocks tip_blk previous_tip_height =
     (let new_tip_height = number (header tip_blk)
      in concat (map (\<lambda>blk.
             [BatchInsert (block_key (block_hash blk)) (bincode_block X blk),
              BatchInsert (height_key (number (header blk))) (as_bytes (block_hash blk))])
           canonical_blocks)
         @ map (\<lambda>h. BatchRemove (height_key (word_of_nat h)))
             [unat (new_tip_height + 1)..<Suc (unat previous_tip_height)]
         @ [BatchInsert (meta_key ''tip_height'') (as_bytes (u64_to_string new_tip_height)),
            BatchInsert (meta_key ''tip_hash'') (as_bytes (block_hash tip_blk))])"

definition persist_canonical_reorg ::
  "('db, 'x) ext_scheme \<Rightarrow> block list \<Rightarrow> u64 \<Rightarrow> ('db, 'm) chain_state_scheme
     \<Rightarrow> ('db, 'm) chain_state_scheme \<times> bool" where
  "persist_canonical_reorg X canonical_blocks previous_tip_height g =
     (if canonical_blocks = [] then (g, False)
      else (case sled_apply_batch X (db g)
               (reorg_batch X canonical_blocks (last canonical_blocks) previous_tip_height) of
              (d, ok) \<Rightarrow> (g\<lparr>db := d\<rparr>, ok)))"

definition store_height_index ::
  "('db, 'x) ext_scheme \<Rightarrow> u64 \<Rightarrow> string \<Rightarrow> ('db, 'm) chain_state_scheme \<Rightarrow> ('db, 'm) chain_state_scheme \<times> bool" where
  "store_height_index X height hash g =
     (case sled_insert X (db g) (height_key height) (as_bytes hash) of
        (d1, False) \<Rightarrow> (g\<lparr>db := d1\<rparr>, False)
      | (d1, True) \<Rightarrow>
         (case sled_get X d1 (meta_key ''tip_height'') of
            None \<Rightarrow> (g\<lparr>db := d1\<rparr>, False)
          | Some stored \<Rightarrow>
             (let current_tip =
                    (case Option.bind (Option.bind stored from_utf8) parse_u64 of None \<Rightarrow> 0 | Some n \<Rightarrow> n)
              in if height \<ge> current_tip
                 then (case sled_insert X d1 (meta_key ''tip_height'') (as_bytes (u64_to_string height)) of
                         (d2, False) \<Rightarrow> (g\<lparr>db := d2\<rparr>, False)
                       | (d2, True) \<Rightarrow>
                          (case sled_insert X d2 (meta_key ''tip_hash'') (as_bytes hash) of
                             (d3, ok) \<Rightarrow> (g\<lparr>db := d3\<rparr>, ok)))
                 else (g\<lparr>db := d1\<rparr>, True))))"

definition store_meta ::
  "('db, 'x) ext_scheme \<Rightarrow> string \<Rightarrow> string \<Rightarrow> ('db, 'm) chain_state_scheme \<Rightarrow> ('db, 'm) chain_state_scheme \<times> bool" where
  "store_meta X key v g =
     (case sled_insert X (db g) (meta_key key) (as_bytes v) of (d, ok) \<Rightarrow> (g\<lparr>db := d\<rparr>, ok))"

definition persist_tip ::
  "('db, 'x) ext_scheme \<Rightarrow> ('db, 'm) chain_state_scheme \<Rightarrow> ('db, 'm) chain_state_scheme \<times> bool" where
  "persist_tip X g =
     (case sled_insert X (db g) (meta_key ''tip_hash'') (as_bytes (tip_hash g)) of
        (d1, False) \<Rightarrow> (g\<lparr>db := d1\<rparr>, False)
      | (d1, True) \<Rightarrow>
         (case sled_insert X d1 (meta_key ''tip_height'') (as_bytes (u64_to_string (current_height g))) of
            (d2, ok) \<Rightarrow> (g\<lparr>db := d2\<rparr>, ok)))"

section \<open>Reads\<close>

datatype storage_error =
    StoreIo
  | BadUtf8
  | BadNumber
  | BadBlockBytes
  | HeightIndexMissing u64
  | BlockMissing string u64

definition load_block ::
  "('db, 'x) ext_scheme \<Rightarrow> ('db, 'm) chain_state_scheme \<Rightarrow> string \<Rightarrow> storage_error + block option" where
  "load_block X g hash =
     (case sled_get X (db g) (block_key hash) of
        None \<Rightarrow> Inl StoreIo
      | Some None \<Rightarrow> Inr None
      | Some (Some bs) \<Rightarrow>
          (case unbincode_block X bs of None \<Rightarrow> Inl BadBlockBytes | Some b \<Rightarrow> Inr (Some b)))"

definition load_utf8 ::
  "('db, 'x) ext_scheme \<Rightarrow> ('db, 'm) chain_state_scheme \<Rightarrow> u8 list \<Rightarrow> storage_error + string option" where
  "load_utf8 X g key =
     (case sled_get X (db g) key of
        None \<Rightarrow> Inl StoreIo
      | Some None \<Rightarrow> Inr None
      | Some (Some bs) \<Rightarrow>
          (case from_utf8 bs of None \<Rightarrow> Inl BadUtf8 | Some s \<Rightarrow> Inr (Some s)))"

definition load_height_index ::
  "('db, 'x) ext_scheme \<Rightarrow> ('db, 'm) chain_state_scheme \<Rightarrow> u64 \<Rightarrow> storage_error + string option" where
  "load_height_index X g h = load_utf8 X g (height_key h)"

definition load_meta ::
  "('db, 'x) ext_scheme \<Rightarrow> ('db, 'm) chain_state_scheme \<Rightarrow> string \<Rightarrow> storage_error + string option" where
  "load_meta X g key = load_utf8 X g (meta_key key)"

text \<open>One iteration of the reload: state, work so far and height.\<close>

definition load_canon_step ::
  "('db, 'x) ext_scheme \<Rightarrow> u64 \<Rightarrow> u128 \<Rightarrow> ('db, 'm) chain_state_scheme
     \<Rightarrow> storage_error + u128 \<times> ('db, 'm) chain_state_scheme" where
  "load_canon_step X h cumulative g =
     (case load_height_index X g h of
        Inl e \<Rightarrow> Inl e
      | Inr None \<Rightarrow> Inl (HeightIndexMissing h)
      | Inr (Some hash) \<Rightarrow>
          (case load_block X g hash of
             Inl e \<Rightarrow> Inl e
           | Inr None \<Rightarrow> Inl (BlockMissing hash h)
           | Inr (Some blk) \<Rightarrow>
               (let cw = cumulative + ucast (difficulty (header blk))
                in Inr (cw,
                    g\<lparr>seen_blocks := insert hash (seen_blocks g),
                      canon_index := (canon_index g)(hash \<mapsto> number (header blk)),
                      cumulative_work := (cumulative_work g)(hash \<mapsto> cw),
                      blocks := blocks g @ [blk]\<rparr>))))"

text \<open>The loop over the heights. The code mutates the state as it goes, so an error leaves what
  was loaded before it: the state is returned beside the result.\<close>

fun load_canon_loop ::
  "('db, 'x) ext_scheme \<Rightarrow> u64 list \<Rightarrow> u128 \<Rightarrow> ('db, 'm) chain_state_scheme
     \<Rightarrow> ('db, 'm) chain_state_scheme \<times> (storage_error + unit)" where
  "load_canon_loop X [] cumulative g = (g, Inr ())"
| "load_canon_loop X (h # hs) cumulative g =
     (case load_canon_step X h cumulative g of
        Inl e \<Rightarrow> (g, Inl e)
      | Inr (cw, g') \<Rightarrow> load_canon_loop X hs cw g')"

definition heights_upto :: "u64 \<Rightarrow> u64 list" where
  "heights_upto h = map word_of_nat [0..<Suc (unat h)]"

definition load_canon_chain ::
  "('db, 'x) ext_scheme \<Rightarrow> ('db, 'm) chain_state_scheme
     \<Rightarrow> ('db, 'm) chain_state_scheme \<times> (storage_error + unit)" where
  "load_canon_chain X g =
     (case sled_get X (db g) (meta_key ''tip_height'') of
        None \<Rightarrow> (g, Inl StoreIo)
      | Some None \<Rightarrow> (g, Inr ())
      | Some (Some bs) \<Rightarrow>
          (case from_utf8 bs of
             None \<Rightarrow> (g, Inl BadUtf8)
           | Some s \<Rightarrow>
              (case parse_u64 s of
                 None \<Rightarrow> (g, Inl BadNumber)
               | Some tip_height \<Rightarrow> load_canon_loop X (heights_upto tip_height) 0 g)))"

text \<open>\<open>ChainState::open_with_genesis\<close>, given the handle \<open>sled::open\<close> returned: a
  failed reload is an error only if a tip had been persisted.\<close>

definition open_with_genesis :: "('db, 'x) ext_scheme \<Rightarrow> 'db \<Rightarrow> storage_error + 'db chain_state" where
  "open_with_genesis X d =
     (case load_meta X (empty_chain d) ''tip_height'' of
        Inl e \<Rightarrow> Inl e
      | Inr stored \<Rightarrow>
          (case load_canon_chain X (empty_chain d) of
             (g, Inl e) \<Rightarrow> (if stored \<noteq> None then Inl e else Inr g)
           | (g, Inr _) \<Rightarrow> Inr g))"

end
