(* ===== verification/Reorg.thy ===== *)
theory Reorg
  imports Storage
begin

text \<open>
  \<open>chain/reorg.rs\<close>: tracing a side chain to its canonical ancestor, replaying it, and the swap
  of the canonical chain. The walk over the side blocks has no bound in the code; here it takes
  fuel, one more than the number of side blocks. The lemmas show that this is exact: a walk that
  outlives it visits a hash twice and never ends, and where parents rank below their children it
  always ends.
\<close>

section \<open>Tracing ancestry\<close>

text \<open>The loop shared by \<open>collect_new_segment\<close> and \<open>reconstruct_parent_state_for_side_chain\<close>:
  the blocks passed, newest last, and where the walk stopped: at a canonical hash or at an
  unknown one.\<close>

fun walk_side ::
  "nat \<Rightarrow> (string \<Rightarrow> u64 option) \<Rightarrow> (string, block) btree \<Rightarrow> block list \<Rightarrow> string
     \<Rightarrow> (block list \<times> string \<times> u64 option) outcome" where
  "walk_side 0 canon side acc current = OutOfFuel"
| "walk_side (Suc n) canon side acc current =
     (case canon current of
        Some height \<Rightarrow> Ret (acc, current, Some height)
      | None \<Rightarrow>
          (case bt_lookup side current of
             None \<Rightarrow> Ret (acc, current, None)
           | Some blk \<Rightarrow> walk_side n canon side (acc @ [blk]) (parent_hash (header blk))))"

definition walk_fuel :: "(string, block) btree \<Rightarrow> nat" where
  "walk_fuel side = Suc (length side)"

definition collect_new_segment :: "('db, 'm) chain_state_scheme \<Rightarrow> string \<Rightarrow> block list outcome" where
  "collect_new_segment g tip0 =
     (case walk_side (walk_fuel (side_blocks g)) (canon_index g) (side_blocks g) [] tip0 of
        Ret (acc, _, Some _) \<Rightarrow> Ret (rev acc)
      | Ret (_, _, None) \<Rightarrow> Ret []
      | Panic \<Rightarrow> Panic
      | OutOfFuel \<Rightarrow> OutOfFuel)"

section \<open>Replaying with state roots\<close>

datatype side_state_error =
    SideBrokenAncestry string string
  | SideExecution tx_execution_error
  | SideCoinbaseReward coinbase_error
  | SideStateRootConstructionFailed
  | SideStateRootMismatch string string string

text \<open>The body both replay loops share: the transactions, the reward, and the comparison of the
  computed root with the one in the header.\<close>

definition replay_checked ::
  "('db, 'x) ext_scheme \<Rightarrow> tx_execution_state \<Rightarrow> block \<Rightarrow> side_state_error + tx_execution_state" where
  "replay_checked X s blk =
     (case run_all (simulate_tx_execution X) 1 s (drop 1 (txs blk)) of
        (_, Inl (_, e)) \<Rightarrow> Inl (SideExecution e)
      | (s1, Inr _) \<Rightarrow>
          if number (header blk) \<noteq> 0
          then (case apply_coinbase_reward s1 (miner (header blk)) (number (header blk)) of
                  (_, Inl e) \<Rightarrow> Inl (SideCoinbaseReward e)
                | (s2, Inr _) \<Rightarrow>
                    (case compute_state_root X (es_balances s2) (es_nonces s2) of
                       Inl _ \<Rightarrow> Inl SideStateRootConstructionFailed
                     | Inr computed_root \<Rightarrow>
                         if computed_root \<noteq> state_root (header blk)
                         then Inl (SideStateRootMismatch (block_hash blk) (state_root (header blk)) computed_root)
                         else Inr s2))
          else Inr s1)"

fun replay_checked_all ::
  "('db, 'x) ext_scheme \<Rightarrow> tx_execution_state \<Rightarrow> block list \<Rightarrow> side_state_error + tx_execution_state" where
  "replay_checked_all X s [] = Inr s"
| "replay_checked_all X s (blk # blks) =
     (case replay_checked X s blk of Inl e \<Rightarrow> Inl e | Inr s' \<Rightarrow> replay_checked_all X s' blks)"

definition reorg_reconstruct_canonical ::
  "('db, 'x) ext_scheme \<Rightarrow> ('db, 'm) chain_state_scheme \<Rightarrow> u64 \<Rightarrow> side_state_error + tx_execution_state" where
  "reorg_reconstruct_canonical X g height =
     replay_checked_all X tx_execution_state_new (take (unat (height + 1)) (blocks g))"

fun reconstruct_branch_state ::
  "('db, 'x) ext_scheme \<Rightarrow> string \<Rightarrow> tx_execution_state \<Rightarrow> block list \<Rightarrow> side_state_error + tx_execution_state" where
  "reconstruct_branch_state X expected_parent s [] = Inr s"
| "reconstruct_branch_state X expected_parent s (blk # branch) =
     (if parent_hash (header blk) \<noteq> expected_parent
      then Inl (SideBrokenAncestry expected_parent (parent_hash (header blk)))
      else (case replay_checked X s blk of
              Inl e \<Rightarrow> Inl e
            | Inr s' \<Rightarrow> reconstruct_branch_state X (block_hash blk) s' branch))"

section \<open>The swap\<close>

definition segment_tx_ids :: "('db, 'x) ext_scheme \<Rightarrow> block list \<Rightarrow> string list" where
  "segment_tx_ids X segment = concat (map (\<lambda>b. map (canonical_tx_id X) (drop 1 (txs b))) segment)"

definition compute_displaced_txs :: "('db, 'x) ext_scheme \<Rightarrow> block list \<Rightarrow> block list \<Rightarrow> tx list" where
  "compute_displaced_txs X abandoned segment =
     filter (\<lambda>t. canonical_tx_id X t \<notin> set (segment_tx_ids X segment))
       (concat (map (\<lambda>b. drop 1 (txs b)) abandoned))"

text \<open>Demoting the canonical blocks above the ancestor.\<close>

definition demote ::
  "block \<Rightarrow> (string \<Rightarrow> u64 option) \<times> (string, block) btree \<Rightarrow> (string \<Rightarrow> u64 option) \<times> (string, block) btree" where
  "demote blk p = ((fst p)(block_hash blk := None), bt_insert (block_hash blk) blk (snd p))"

record promotion =
  pr_cw :: u128
  pr_canon :: "string \<Rightarrow> u64 option"
  pr_side :: "(string, block) btree"
  pr_work :: "string \<Rightarrow> u128 option"
  pr_seen :: "string set"
  pr_blocks :: "block list"

definition promote_block :: "block \<Rightarrow> promotion \<Rightarrow> promotion" where
  "promote_block blk p =
     (let hash = block_hash blk; cw = pr_cw p + ucast (difficulty (header blk))
      in \<lparr>pr_cw = cw,
          pr_canon = (pr_canon p)(hash \<mapsto> number (header blk)),
          pr_side = bt_remove hash (pr_side p),
          pr_work = (pr_work p)(hash \<mapsto> cw),
          pr_seen = insert hash (pr_seen p),
          pr_blocks = pr_blocks p @ [blk]\<rparr>)"

definition reorg_promotion :: "('db, 'm) chain_state_scheme \<Rightarrow> string \<Rightarrow> nat \<Rightarrow> block list \<Rightarrow> promotion" where
  "reorg_promotion g common_hash common_height segment =
     (let kept = take (common_height + 1) (blocks g);
          (canon1, side1) = fold demote (drop (common_height + 1) (blocks g)) (canon_index g, side_blocks g);
          cw0 = (case cumulative_work g common_hash of
                   Some w \<Rightarrow> w
                 | None \<Rightarrow> sum_list (map (\<lambda>b. ucast (difficulty (header b))) kept))
      in fold promote_block segment
           \<lparr>pr_cw = cw0, pr_canon = canon1, pr_side = side1, pr_work = cumulative_work g,
            pr_seen = seen_blocks g, pr_blocks = kept\<rparr>)"

text \<open>\<open>try_reorg\<close>; the slice up to the common height panics when it is out of range.\<close>

definition try_reorg ::
  "('db, 'x) ext_scheme \<Rightarrow> block \<Rightarrow> ('db, 'm) chain_state_scheme
     \<Rightarrow> (('db, 'm) chain_state_scheme \<times> reorg_recovery option) outcome" where
  "try_reorg X new_tip g =
     (case collect_new_segment g (block_hash new_tip) of
        Panic \<Rightarrow> Panic
      | OutOfFuel \<Rightarrow> OutOfFuel
      | Ret [] \<Rightarrow> Ret (g, None)
      | Ret (first # rest) \<Rightarrow>
         (let segment = first # rest; common_hash = parent_hash (header first) in
          case canon_index g common_hash of
            None \<Rightarrow> Ret (g, None)
          | Some common_height \<Rightarrow>
             (case reorg_reconstruct_canonical X g common_height of
                Inl _ \<Rightarrow> Ret (g, None)
              | Inr ancestor_state \<Rightarrow>
                 (case reconstruct_branch_state X common_hash ancestor_state segment of
                    Inl _ \<Rightarrow> Ret (g, None)
                  | Inr replay_state \<Rightarrow>
                     (case compute_state_root X (es_balances replay_state) (es_nonces replay_state) of
                        Inl _ \<Rightarrow> Ret (g, None)
                      | Inr computed \<Rightarrow>
                         if computed \<noteq> state_root (header new_tip) then Ret (g, None)
                         else if length (blocks g) \<le> unat common_height then Panic
                         else
                          (let p = reorg_promotion g common_hash (unat common_height) segment;
                               displaced = compute_displaced_txs X (drop (unat common_height + 1) (blocks g)) segment
                           in case persist_canonical_reorg X (pr_blocks p) (current_height g) g of
                                (g1, False) \<Rightarrow> Ret (g1, None)
                              | (g1, True) \<Rightarrow>
                                  Ret (g1\<lparr>blocks := pr_blocks p,
                                          balances := es_balances replay_state,
                                          nonces := es_nonces replay_state,
                                          seen_blocks := pr_seen p,
                                          side_blocks := pr_side p,
                                          cumulative_work := pr_work p,
                                          canon_index := pr_canon p,
                                          cached_state_root := Some (number (header new_tip), computed)\<rparr>,
                                    Some \<lparr>displaced_txs = displaced,
                                          winning_tx_ids = sort (remdups (segment_tx_ids X segment))\<rparr>)))))))"

text \<open>The diagnostic lookup of a block's cumulative work.\<close>

fun scan_work :: "block list \<Rightarrow> string \<Rightarrow> u128 \<Rightarrow> u128" where
  "scan_work [] h acc = 0"
| "scan_work (b # bs) h acc =
     (let acc' = acc + ucast (difficulty (header b))
      in if block_hash b = h then acc' else scan_work bs h acc')"

definition cumulative_work_of :: "('db, 'm) chain_state_scheme \<Rightarrow> string \<Rightarrow> u128" where
  "cumulative_work_of g h =
     (case cumulative_work g h of Some cw \<Rightarrow> cw | None \<Rightarrow> scan_work (blocks g) h 0)"

section \<open>The walk\<close>

text \<open>Where the walk stands after \<open>n\<close> steps.\<close>

fun walk_pos :: "(string, block) btree \<Rightarrow> nat \<Rightarrow> string \<Rightarrow> string" where
  "walk_pos side 0 h = h"
| "walk_pos side (Suc n) h =
     (case bt_lookup side h of None \<Rightarrow> h | Some b \<Rightarrow> walk_pos side n (parent_hash (header b)))"

lemma walk_side_no_panic: "walk_side n canon side acc h \<noteq> Panic"
  by (induction n arbitrary: acc h) (auto split: option.split)

lemma walk_side_mono:
  "walk_side n canon side acc h = Ret r \<Longrightarrow> walk_side (n + k) canon side acc h = Ret r"
  by (induction n arbitrary: acc h) (auto split: option.splits)

text \<open>A walk that runs out stands on a side block that is not canonical at every step.\<close>

lemma walk_side_out:
  "walk_side n canon side acc h = OutOfFuel \<longleftrightarrow>
     (\<forall>i<n. canon (walk_pos side i h) = None \<and> bt_lookup side (walk_pos side i h) \<noteq> None)"
proof (induction n arbitrary: acc h)
  case 0
  then show ?case by simp
next
  case (Suc n)
  show ?case
  proof (cases "canon h = None \<and> bt_lookup side h \<noteq> None")
    case True
    then obtain b where b: "canon h = None" "bt_lookup side h = Some b" by auto
    have "walk_side (Suc n) canon side acc h = OutOfFuel \<longleftrightarrow>
        walk_side n canon side (acc @ [b]) (parent_hash (header b)) = OutOfFuel"
      using b by simp
    also have "\<dots> \<longleftrightarrow> (\<forall>i<n. canon (walk_pos side (Suc i) h) = None \<and> bt_lookup side (walk_pos side (Suc i) h) \<noteq> None)"
      using Suc [of "acc @ [b]" "parent_hash (header b)"] b by simp
    also have "\<dots> \<longleftrightarrow> (\<forall>i<Suc n. canon (walk_pos side i h) = None \<and> bt_lookup side (walk_pos side i h) \<noteq> None)"
      using True by (auto simp: less_Suc_eq_0_disj)
    finally show ?thesis .
  next
    case False
    then have "walk_side (Suc n) canon side acc h \<noteq> OutOfFuel" by (auto split: option.split)
    moreover have "\<not> (\<forall>i<Suc n. canon (walk_pos side i h) = None \<and> bt_lookup side (walk_pos side i h) \<noteq> None)"
      using False by (intro notI) (metis walk_pos.simps(1) zero_less_Suc)
    ultimately show ?thesis by blast
  qed
qed

lemma walk_pos_add: "walk_pos side (i + j) h = walk_pos side j (walk_pos side i h)"
proof (induction i arbitrary: h)
  case 0
  then show ?case by simp
next
  case (Suc i)
  show ?case
  proof (cases "bt_lookup side h")
    case None
    then have "walk_pos side n h = h" for n by (cases n) auto
    then show ?thesis by metis
  next
    case (Some b)
    then show ?thesis using Suc by simp
  qed
qed

text \<open>Standing on side blocks for longer than there are side blocks means standing on one of
  them twice, and from then on for ever.\<close>

lemma walk_pos_repeats:
  assumes "\<forall>i<walk_fuel side. bt_lookup side (walk_pos side i h) \<noteq> None"
  shows "\<exists>i j. i < j \<and> j < walk_fuel side \<and> walk_pos side i h = walk_pos side j h"
proof -
  let ?f = "\<lambda>i. walk_pos side i h"
  have "?f ` {..<walk_fuel side} \<subseteq> fst ` set side"
    using assms by (force simp: bt_lookup_def dest: map_of_SomeD)
  then have "card (?f ` {..<walk_fuel side}) \<le> card (fst ` set side)"
    by (intro card_mono) auto
  also have "\<dots> \<le> length side" by (metis card_length list.set_map length_map)
  finally have "\<not> inj_on ?f {..<walk_fuel side}"
    using card_image [of ?f "{..<walk_fuel side}"] by (auto simp: walk_fuel_def)
  then obtain i j where "i < walk_fuel side" "j < walk_fuel side" "i \<noteq> j" "?f i = ?f j"
    by (auto simp: inj_on_def)
  then show ?thesis by (metis nat_neq_iff)
qed

lemma walk_pos_periodic:
  assumes "walk_pos side i h = walk_pos side (i + p) h" "0 < p"
  shows "\<exists>k<i + p. walk_pos side n h = walk_pos side k h"
proof (induction n rule: less_induct)
  case (less n)
  show ?case
  proof (cases "n < i + p")
    case True
    then show ?thesis by blast
  next
    case False
    define d where "d = n - (i + p)"
    have n: "n = (i + p) + d" using False by (simp add: d_def)
    have "walk_pos side n h = walk_pos side d (walk_pos side (i + p) h)"
      unfolding n by (rule walk_pos_add)
    also have "\<dots> = walk_pos side d (walk_pos side i h)" using assms(1) by simp
    also have "\<dots> = walk_pos side (i + d) h" by (rule walk_pos_add [symmetric])
    finally have "walk_pos side n h = walk_pos side (i + d) h" .
    moreover have "i + d < n" using n assms(2) by simp
    ultimately show ?thesis using less [of "i + d"] by auto
  qed
qed

lemma walk_side_diverges:
  assumes out: "walk_side (walk_fuel side) canon side acc h = OutOfFuel"
  shows "walk_side n canon side acc' h = OutOfFuel"
proof -
  have stand: "\<forall>i<walk_fuel side. canon (walk_pos side i h) = None \<and> bt_lookup side (walk_pos side i h) \<noteq> None"
    using out by (simp add: walk_side_out)
  then obtain i j where ij: "i < j" "j < walk_fuel side" "walk_pos side i h = walk_pos side j h"
    using walk_pos_repeats [of side h] by blast
  have "\<exists>k<walk_fuel side. walk_pos side m h = walk_pos side k h" for m
  proof -
    have "i + (j - i) = j" using ij(1) by simp
    then show ?thesis using walk_pos_periodic [of side i h "j - i" m] ij less_trans by auto
  qed
  then show ?thesis using stand unfolding walk_side_out by metis
qed

text \<open>Parents rank below their children.\<close>

definition ranked :: "(string \<Rightarrow> nat) \<Rightarrow> (string, block) btree \<Rightarrow> bool" where
  "ranked rank side \<longleftrightarrow> (\<forall>h b. bt_lookup side h = Some b \<longrightarrow> rank (parent_hash (header b)) < rank h)"

lemma walk_pos_ranked:
  "ranked rank side \<Longrightarrow> \<forall>i<n. bt_lookup side (walk_pos side i h) \<noteq> None \<Longrightarrow>
     rank (walk_pos side n h) + n \<le> rank h"
proof (induction n arbitrary: h)
  case 0
  then show ?case by simp
next
  case (Suc n)
  then obtain b where b: "bt_lookup side h = Some b" by fastforce
  have "\<forall>i<n. bt_lookup side (walk_pos side i (parent_hash (header b))) \<noteq> None"
    using Suc.prems(2) b by (metis Suc_mono option.simps(5) walk_pos.simps(2))
  then have "rank (walk_pos side n (parent_hash (header b))) + n \<le> rank (parent_hash (header b))"
    using Suc by blast
  moreover have "rank (parent_hash (header b)) < rank h" using Suc.prems(1) b by (simp add: ranked_def)
  ultimately show ?case using b by simp
qed

lemma walk_side_returns:
  assumes "ranked rank side"
  shows "\<exists>r. walk_side (walk_fuel side) canon side acc h = Ret r"
proof (cases "walk_side (walk_fuel side) canon side acc h")
  case OutOfFuel
  then have "walk_side (Suc (rank h)) canon side acc h = OutOfFuel" by (rule walk_side_diverges)
  then have "\<forall>i<Suc (rank h). bt_lookup side (walk_pos side i h) \<noteq> None"
    unfolding walk_side_out by blast
  from walk_pos_ranked [OF assms this] show ?thesis by simp
qed (use walk_side_no_panic in auto)

end
