(* ===== verification/Snapshots.thy ===== *)
theory Snapshots
  imports Storage
begin

text \<open>
  \<open>chain/snapshots.rs\<close>: periodic snapshots of the account state and the restore that trusts a
  snapshot only when its hash and root agree with the stored canonical block.
\<close>

definition snap_key :: "string \<Rightarrow> u64 \<Rightarrow> u8 list" where
  "snap_key prefix h = as_bytes (prefix @ u64_to_string h)"

definition SNAPSHOT_META_PREFIX :: string where
  "SNAPSHOT_META_PREFIX = ''meta:snapshot:''"

datatype snapshot_error =
    SnapshotStoreIo
  | SnapshotRootFailed state_root_error
  | SnapshotMetadataMissing
  | SnapshotBadBytes
  | SnapshotMetadataHeight u64 u64
  | SnapshotStorage storage_error
  | SnapshotHeightIndexMissing u64
  | SnapshotHashMismatch string string
  | SnapshotBlockMissing string u64
  | SnapshotStoredRootMismatch string string
  | SnapshotBlockRootMismatch string string
  | NoSnapshot u64
  | NoValidSnapshot u64 "(u64 \<times> snapshot_error) list"

section \<open>Saving\<close>

text \<open>Four insertions, each of which can fail and end the sequence.\<close>

fun insert_all :: "('db, 'x) ext_scheme \<Rightarrow> 'db \<Rightarrow> (u8 list \<times> u8 list) list \<Rightarrow> 'db \<times> bool" where
  "insert_all X d [] = (d, True)"
| "insert_all X d ((k, v) # kvs) =
     (case sled_insert X d k v of
        (d', False) \<Rightarrow> (d', False)
      | (d', True) \<Rightarrow> insert_all X d' kvs)"

definition snapshot_entries ::
  "('db, 'x) ext_scheme \<Rightarrow> ('db, 'm) chain_state_scheme \<Rightarrow> u64 \<Rightarrow> string \<Rightarrow> (u8 list \<times> u8 list) list" where
  "snapshot_entries X g height root =
     [(snap_key ''snap:balances:'' height, bincode_balances X (balances g)),
      (snap_key ''snap:nonces:'' height, bincode_nonces X (nonces g)),
      (snap_key SNAPSHOT_META_PREFIX height, bincode_snap_meta X (height, tip_hash g)),
      (snap_key ''meta:snapshot_state_root:'' height, bincode_string X root)]"

definition save_snapshot ::
  "('db, 'x) ext_scheme \<Rightarrow> u64 \<Rightarrow> ('db, 'm) chain_state_scheme
     \<Rightarrow> ('db, 'm) chain_state_scheme \<times> (snapshot_error + unit)" where
  "save_snapshot X height g =
     (case compute_state_root X (balances g) (nonces g) of
        Inl e \<Rightarrow> (g, Inl (SnapshotRootFailed e))
      | Inr root \<Rightarrow>
          (case insert_all X (db g) (snapshot_entries X g height root) of
             (d, ok) \<Rightarrow> (g\<lparr>db := d\<rparr>, if ok then Inr () else Inl SnapshotStoreIo)))"

definition maybe_save_snapshot ::
  "('db, 'x) ext_scheme \<Rightarrow> ('db, 'm) chain_state_scheme
     \<Rightarrow> ('db, 'm) chain_state_scheme \<times> (snapshot_error + unit)" where
  "maybe_save_snapshot X g =
     (let height = current_height g
      in if height = 0 \<or> height mod SNAPSHOT_EVERY \<noteq> 0 then (g, Inr ())
         else save_snapshot X height g)"

section \<open>Restoring\<close>

definition normalize_snapshot_state :: "balances_map \<Rightarrow> nonces_map \<Rightarrow> balances_map \<times> nonces_map" where
  "normalize_snapshot_state bals ncs = (bt_retain (\<lambda>_ v. v \<noteq> 0) bals, bt_retain (\<lambda>_ v. v \<noteq> 0) ncs)"

text \<open>A stored map: absent reads as empty.\<close>

definition load_map ::
  "('db, 'x) ext_scheme \<Rightarrow> (u8 list \<Rightarrow> ('k, 'v) btree option) \<Rightarrow> 'db \<Rightarrow> u8 list
     \<Rightarrow> snapshot_error + ('k, 'v) btree" where
  "load_map X decode d key =
     (case sled_get X d key of
        None \<Rightarrow> Inl SnapshotStoreIo
      | Some None \<Rightarrow> Inr []
      | Some (Some bs) \<Rightarrow> (case decode bs of None \<Rightarrow> Inl SnapshotBadBytes | Some m \<Rightarrow> Inr m))"

text \<open>The canonical block a snapshot must agree with.\<close>

definition snapshot_block ::
  "('db, 'x) ext_scheme \<Rightarrow> u64 \<Rightarrow> ('db, 'm) chain_state_scheme \<Rightarrow> snapshot_error + block" where
  "snapshot_block X height g =
     (case sled_get X (db g) (snap_key SNAPSHOT_META_PREFIX height) of
        None \<Rightarrow> Inl SnapshotStoreIo
      | Some None \<Rightarrow> Inl SnapshotMetadataMissing
      | Some (Some bs) \<Rightarrow>
        (case unbincode_snap_meta X bs of
           None \<Rightarrow> Inl SnapshotBadBytes
         | Some (metadata_height, snapshot_hash) \<Rightarrow>
             if metadata_height \<noteq> height then Inl (SnapshotMetadataHeight height metadata_height)
             else (case load_height_index X g height of
                 Inl e \<Rightarrow> Inl (SnapshotStorage e)
               | Inr None \<Rightarrow> Inl (SnapshotHeightIndexMissing height)
               | Inr (Some canonical_hash) \<Rightarrow>
                   if snapshot_hash \<noteq> canonical_hash
                   then Inl (SnapshotHashMismatch snapshot_hash canonical_hash)
                   else (case load_block X g canonical_hash of
                       Inl e \<Rightarrow> Inl (SnapshotStorage e)
                     | Inr None \<Rightarrow> Inl (SnapshotBlockMissing canonical_hash height)
                     | Inr (Some b) \<Rightarrow> Inr b))))"

text \<open>The comparison with the stored root, when there is one.\<close>

definition check_stored_root ::
  "('db, 'x) ext_scheme \<Rightarrow> u64 \<Rightarrow> string \<Rightarrow> ('db, 'm) chain_state_scheme \<Rightarrow> snapshot_error + unit" where
  "check_stored_root X height computed g =
     (case sled_get X (db g) (snap_key ''meta:snapshot_state_root:'' height) of
        None \<Rightarrow> Inl SnapshotStoreIo
      | Some None \<Rightarrow> Inr ()
      | Some (Some bs) \<Rightarrow>
        (case unbincode_string X bs of
           None \<Rightarrow> Inl SnapshotBadBytes
         | Some stored \<Rightarrow>
             if stored \<noteq> computed then Inl (SnapshotStoredRootMismatch stored computed) else Inr ()))"

text \<open>Rebuilding the indexes over the kept blocks.\<close>

definition rebuild_step ::
  "block \<Rightarrow> u128 \<times> (string \<Rightarrow> u64 option) \<times> (string \<Rightarrow> u128 option)
     \<Rightarrow> u128 \<times> (string \<Rightarrow> u64 option) \<times> (string \<Rightarrow> u128 option)" where
  "rebuild_step b p =
     (case p of (cw, idx, work) \<Rightarrow>
        (let cw' = cw + ucast (difficulty (header b))
         in (cw', idx(block_hash b \<mapsto> number (header b)), work(block_hash b \<mapsto> cw'))))"

definition install_snapshot ::
  "u64 \<Rightarrow> balances_map \<Rightarrow> nonces_map \<Rightarrow> string
     \<Rightarrow> ('db, 'm) chain_state_scheme \<Rightarrow> ('db, 'm) chain_state_scheme" where
  "install_snapshot height bals ncs computed g =
     (let keep = unat (height + 1);
          kept = (if length (blocks g) > keep then take keep (blocks g) else blocks g);
          (_, idx, work) = fold rebuild_step kept (0, Map.empty, Map.empty)
      in g\<lparr>blocks := kept,
           balances := bals,
           nonces := ncs,
           seen_blocks := set (map block_hash kept),
           cumulative_work := work,
           canon_index := idx,
           cached_state_root := Some (height, computed)\<rparr>)"

definition restore_snapshot_at ::
  "('db, 'x) ext_scheme \<Rightarrow> u64 \<Rightarrow> ('db, 'm) chain_state_scheme
     \<Rightarrow> snapshot_error + ('db, 'm) chain_state_scheme" where
  "restore_snapshot_at X height g =
     (case snapshot_block X height g of
        Inl e \<Rightarrow> Inl e
      | Inr canonical_block \<Rightarrow>
       (case load_map X (unbincode_balances X) (db g) (snap_key ''snap:balances:'' height) of
          Inl e \<Rightarrow> Inl e
        | Inr raw_balances \<Rightarrow>
         (case load_map X (unbincode_nonces X) (db g) (snap_key ''snap:nonces:'' height) of
            Inl e \<Rightarrow> Inl e
          | Inr raw_nonces \<Rightarrow>
           (case normalize_snapshot_state raw_balances raw_nonces of
              (bals, ncs) \<Rightarrow>
               (case compute_state_root X bals ncs of
                  Inl e \<Rightarrow> Inl (SnapshotRootFailed e)
                | Inr computed \<Rightarrow>
                 (case check_stored_root X height computed g of
                    Inl e \<Rightarrow> Inl e
                  | Inr _ \<Rightarrow>
                     (let is_genesis_dev_snapshot =
                            (height = 0 \<and> state_root (header canonical_block) = replicate 64 (CHR ''0''))
                      in if state_root (header canonical_block) \<noteq> computed \<and> \<not> is_genesis_dev_snapshot
                         then Inl (SnapshotBlockRootMismatch computed (state_root (header canonical_block)))
                         else Inr (install_snapshot height bals ncs computed g))))))))"

definition snapshot_heights ::
  "('db, 'x) ext_scheme \<Rightarrow> u64 \<Rightarrow> ('db, 'm) chain_state_scheme \<Rightarrow> u64 list" where
  "snapshot_heights X max_height g =
     rev (sort (List.map_filter
       (\<lambda>e. case from_utf8 (fst e) of
              None \<Rightarrow> None
            | Some s \<Rightarrow>
                (case strip_prefix SNAPSHOT_META_PREFIX s of
                   None \<Rightarrow> None
                 | Some n \<Rightarrow>
                     (case parse_u64 n of
                        None \<Rightarrow> None
                      | Some h \<Rightarrow> if h \<le> max_height then Some h else None)))
       (sled_scan_prefix X (db g) (as_bytes SNAPSHOT_META_PREFIX))))"

fun try_snapshots ::
  "('db, 'x) ext_scheme \<Rightarrow> u64 \<Rightarrow> u64 list \<Rightarrow> (u64 \<times> snapshot_error) list
     \<Rightarrow> ('db, 'm) chain_state_scheme \<Rightarrow> ('db, 'm) chain_state_scheme \<times> (snapshot_error + u64)" where
  "try_snapshots X max_height [] reasons g =
     (g, Inl (if reasons = [] then NoSnapshot max_height else NoValidSnapshot max_height reasons))"
| "try_snapshots X max_height (h # hs) reasons g =
     (case restore_snapshot_at X h g of
        Inr g' \<Rightarrow> (g', Inr h)
      | Inl e \<Rightarrow> try_snapshots X max_height hs (reasons @ [(h, e)]) g)"

definition restore_latest_snapshot ::
  "('db, 'x) ext_scheme \<Rightarrow> u64 \<Rightarrow> ('db, 'm) chain_state_scheme
     \<Rightarrow> ('db, 'm) chain_state_scheme \<times> (snapshot_error + u64)" where
  "restore_latest_snapshot X max_height g =
     try_snapshots X max_height (snapshot_heights X max_height g) [] g"

section \<open>Frames\<close>

lemma save_snapshot_frame: "\<exists>d r. save_snapshot X h g = (g\<lparr>db := d\<rparr>, r)"
proof (cases "compute_state_root X (balances g) (nonces g)")
  case (Inl e)
  then show ?thesis by (intro exI [of _ "db g"]) (simp add: save_snapshot_def)
next
  case (Inr root)
  then show ?thesis by (cases "insert_all X (db g) (snapshot_entries X g h root)") (simp add: save_snapshot_def, blast)
qed

lemma maybe_save_snapshot_frame: "\<exists>d r. maybe_save_snapshot X g = (g\<lparr>db := d\<rparr>, r)"
proof (cases "current_height g = 0 \<or> current_height g mod SNAPSHOT_EVERY \<noteq> 0")
  case True
  then show ?thesis by (intro exI [of _ "db g"]) (auto simp: maybe_save_snapshot_def Let_def)
next
  case False
  then show ?thesis using save_snapshot_frame [of X "current_height g" g] by (simp add: maybe_save_snapshot_def Let_def)
qed

end
