(* ===== verification/Genesis.thy ===== *)
theory Genesis
  imports Block
begin

text \<open>
  \<open>genesis/genesis.rs\<close>: the genesis block, the two hashes that identify the network, and
  their validation. BLAKE3 is external, so that the locked constants are what it yields is the
  hypothesis \<open>genesis_validated\<close>, which the node checks at start-up.
\<close>

definition GENESIS_HASH :: string where
  "GENESIS_HASH = ''d6469ec95f56b56be4921ef40b9795902c96f2ad26582ef8db8fac46f4a7aa13''"

definition ECON_HASH :: string where
  "ECON_HASH = ''a18f9f82aeb6276b5cfb353e351cd0cf9b34aad962e29f4ac6268f0659c55f95''"

definition GENESIS_HEIGHT :: u64 where "GENESIS_HEIGHT = 0"
definition GENESIS_TIMESTAMP :: u64 where "GENESIS_TIMESTAMP = 0"
definition GENESIS_DIFFICULTY :: u64 where "GENESIS_DIFFICULTY = DIFFICULTY_FLOOR"
definition GENESIS_NONCE :: u64 where "GENESIS_NONCE = 0"
definition GENESIS_MINER :: string where "GENESIS_MINER = ''network_genesis''"

definition VAULT_ACCOUNTS :: "(string \<times> u32) list" where
  "VAULT_ACCOUNTS =
     [(''0xb977c16e539670ddfecc0ac902fcb916ec4b944e'', 5000),
      (''0x8bb8edcd4cdbcb132cc5e88ff90ba48cebf11cbd'', 3000),
      (''0xdf7a79291bb96e9dd1c77da089933767999eabf0'', 1000),
      (''0x083f95edd48e3e9da396891b704994b86e7790e7'', 1000)]"

definition genesis_block :: block where
  "genesis_block =
     (let null = replicate 64 (CHR ''0'')
      in \<lparr>header = \<lparr>parent_hash = null, number = GENESIS_HEIGHT, timestamp = GENESIS_TIMESTAMP,
            difficulty = GENESIS_DIFFICULTY, nonce = GENESIS_NONCE, pow_hash = GENESIS_HASH,
            state_root = null, tx_root = null, miner = GENESIS_MINER\<rparr>,
          txs = [], weight = 0\<rparr>)"

definition genesis_balances :: balances_map where
  "genesis_balances = []"

definition compute_genesis_pow_hash :: "('db, 'x) ext_scheme \<Rightarrow> string" where
  "compute_genesis_pow_hash X = compute_hash X (header genesis_block)"

definition compute_econ_hash :: "('db, 'x) ext_scheme \<Rightarrow> string" where
  "compute_econ_hash X =
     hex_encode X (blake3 X (concat (map (\<lambda>(addr, _). as_bytes addr) VAULT_ACCOUNTS)
       @ concat (map (\<lambda>(_, bps). u32_to_le_bytes bps) VAULT_ACCOUNTS)))"

text \<open>The validators return whether they succeed; their error only carries the two hashes.\<close>

definition validate_genesis_hash :: "('db, 'x) ext_scheme \<Rightarrow> bool" where
  "validate_genesis_hash X = (compute_genesis_pow_hash X = GENESIS_HASH)"

definition validate_econ_hash :: "('db, 'x) ext_scheme \<Rightarrow> bool" where
  "validate_econ_hash X = (compute_econ_hash X = ECON_HASH)"

definition verify_stored_genesis :: "string \<Rightarrow> bool" where
  "verify_stored_genesis stored = (stored = GENESIS_HASH)"

definition verify_peer_genesis :: "string \<Rightarrow> bool" where
  "verify_peer_genesis peer = (peer = GENESIS_HASH)"

lemma genesis_header [simp]:
  "number (header genesis_block) = 0" "pow_hash (header genesis_block) = GENESIS_HASH"
  "difficulty (header genesis_block) = 1" "timestamp (header genesis_block) = 0"
  "txs genesis_block = []" "weight genesis_block = 0"
  "tx_root (header genesis_block) = null_hash" "parent_hash (header genesis_block) = null_hash"
  by (simp_all add: genesis_block_def Let_def GENESIS_HEIGHT_def GENESIS_DIFFICULTY_def
      GENESIS_TIMESTAMP_def DIFFICULTY_FLOOR_def null_hash_def)

lemma GENESIS_HASH_lower: "is_lowercase_hex_32_bytes GENESIS_HASH"
  by (simp add: is_lowercase_hex_32_bytes_def is_lowercase_hex_def GENESIS_HASH_def
      is_lower_hex_char_def)

lemma genesis_tx_root: "compute_tx_root X (txs genesis_block) = tx_root (header genesis_block)"
  by (simp add: compute_tx_root_def)

end
