(* ===== verification/Accept.thy ===== *)
theory Accept
  imports Orphan Reorg Snapshots Genesis
begin

text \<open>
  \<open>chain/accept.rs\<close>: the acceptance pipeline, one definition per stage, and
  \<open>process_orphans\<close> of \<open>chain/orphan.rs\<close>, which calls back into it. The recursion
  between the two takes fuel, one more than the number of pooled orphans; that this is enough is
  proved here, and \<open>apply_block\<close> then satisfies the code's recursion equations without fuel.
  A panic of the code is the outcome \<open>Panic\<close>, a loop that does not end \<open>OutOfFuel\<close>.
\<close>

section \<open>Results\<close>

datatype reject_reason =
    WeightExceedsLimit u64
  | TxRootMismatch string string
  | MissingCoinbase
  | FirstTxNotCoinbase
  | DuplicateBlock string
  | GenesisHashMismatch string
  | GenesisAlreadyApplied
  | CanonicalPersistenceFailed
  | TimestampNotMonotonic u64 u64
  | TimestampTooFarInFuture u64 u64
  | DifficultyBelowFloor u64
  | DifficultyMismatch u64 u64 u64
  | PowRejected pow_failure
  | CoinbaseArgsLength nat
  | CoinbaseHeightMismatch u64 u64
  | DuplicateCanonicalTx string
  | ParentReplayFailed replay_error
  | BrokenSideAncestry string
  | TxInvalid nat tx_execution_error
  | CoinbaseRewardRejected coinbase_error
  | StateRootConstructionFailed
  | StateRootMismatch string string
  | SidePersistenceFailed

datatype accept_result =
    CanonExtension u64
  | SideChain u64
  | StoredOrphan string
  | Rejected reject_reason

definition is_accepted :: "accept_result \<Rightarrow> bool" where
  "is_accepted r = (case r of Rejected _ \<Rightarrow> False | _ \<Rightarrow> True)"

section \<open>The checks\<close>

text \<open>Stage 1: structure and duplicates.\<close>

definition structural_check :: "('db, 'x) ext_scheme \<Rightarrow> ('db, 'm) chain_state_scheme \<Rightarrow> block \<Rightarrow> reject_reason option" where
  "structural_check X g blk =
     (if weight blk > BLOCK_WEIGHT_LIMIT then Some (WeightExceedsLimit (weight blk))
      else let computed_tx_root = compute_tx_root X (txs blk) in
        if tx_root (header blk) \<noteq> computed_tx_root
        then Some (TxRootMismatch (tx_root (header blk)) computed_tx_root)
        else if number (header blk) > 0 \<and> txs blk = [] then Some MissingCoinbase
        else if number (header blk) > 0 \<and>
            (module (hd (txs blk)) \<noteq> ''coinbase'' \<or> method_name (hd (txs blk)) \<noteq> ''reward'')
        then Some FirstTxNotCoinbase
        else if block_hash blk \<in> seen_blocks g then Some (DuplicateBlock (block_hash blk))
        else None)"

text \<open>Stage 3: strictly later than the parent, not too far ahead of the clock.\<close>

definition check_timestamp ::
  "block \<Rightarrow> block \<Rightarrow> ('db, 'm) machine_scheme \<Rightarrow> ('db, 'm) machine_scheme \<times> reject_reason option" where
  "check_timestamp blk parent m =
     (if timestamp (header blk) \<le> timestamp (header parent)
      then (m, Some (TimestampNotMonotonic (timestamp (header blk)) (timestamp (header parent))))
      else (case wall_clock_secs m of
          (m1, now) \<Rightarrow>
            (m1, if timestamp (header blk) > now + MAX_FUTURE_TIMESTAMP_SECS
                 then Some (TimestampTooFarInFuture (timestamp (header blk)) (now + MAX_FUTURE_TIMESTAMP_SECS))
                 else None)))"

text \<open>Stage 4: the retarget of the parent's chain.\<close>

definition check_difficulty :: "('db, 'm) chain_state_scheme \<Rightarrow> block \<Rightarrow> reject_reason option" where
  "check_difficulty g blk =
     (let ancestor_window = collect_ancestor_window g (parent_hash (header blk));
          expected_diff = calculate_next_difficulty ancestor_window (timestamp (header blk))
      in if difficulty (header blk) < DIFFICULTY_FLOOR
         then Some (DifficultyBelowFloor (difficulty (header blk)))
         else if difficulty (header blk) \<noteq> expected_diff
         then Some (DifficultyMismatch (number (header blk)) (difficulty (header blk)) expected_diff)
         else None)"

text \<open>Stage 6a and 6b: the height in the coinbase, repeated transactions.\<close>

definition check_coinbase_height :: "block \<Rightarrow> reject_reason option" where
  "check_coinbase_height blk =
     (if number (header blk) > 0
      then let cb_args = args (hd (txs blk)) in
        if length cb_args \<noteq> 8 then Some (CoinbaseArgsLength (length cb_args))
        else let encoded_height = u64_from_be_bytes cb_args in
          if encoded_height \<noteq> number (header blk)
          then Some (CoinbaseHeightMismatch encoded_height (number (header blk)))
          else None
      else None)"

fun first_duplicate_tx :: "('db, 'x) ext_scheme \<Rightarrow> string list \<Rightarrow> tx list \<Rightarrow> string option" where
  "first_duplicate_tx X seen [] = None"
| "first_duplicate_tx X seen (t # ts) =
     (let tid = canonical_tx_id X t
      in if tid \<in> set seen then Some tid else first_duplicate_tx X (tid # seen) ts)"

section \<open>Parent state\<close>

definition reconstruct_canonical_state_at_height ::
  "('db, 'x) ext_scheme \<Rightarrow> ('db, 'm) chain_state_scheme \<Rightarrow> u64 \<Rightarrow> replay_error + tx_execution_state" where
  "reconstruct_canonical_state_at_height X g height =
     replay_blocks X tx_execution_state_new (take (unat (height + 1)) (blocks g))"

definition reconstruct_parent_state_for_side_chain ::
  "('db, 'x) ext_scheme \<Rightarrow> ('db, 'm) chain_state_scheme \<Rightarrow> string \<Rightarrow> (reject_reason + tx_execution_state) outcome" where
  "reconstruct_parent_state_for_side_chain X g parent =
     (case canon_index g parent of
        Some height \<Rightarrow>
          Ret (case reconstruct_canonical_state_at_height X g height of
                 Inl e \<Rightarrow> Inl (ParentReplayFailed e)
               | Inr s \<Rightarrow> Inr s)
      | None \<Rightarrow>
          (case walk_side (walk_fuel (side_blocks g)) (canon_index g) (side_blocks g) [] parent of
             Panic \<Rightarrow> Panic
           | OutOfFuel \<Rightarrow> OutOfFuel
           | Ret (branch, _, None) \<Rightarrow> Ret (Inl (BrokenSideAncestry parent))
           | Ret (branch, _, Some height) \<Rightarrow>
               Ret (case reconstruct_canonical_state_at_height X g height of
                      Inl e \<Rightarrow> Inl (ParentReplayFailed e)
                    | Inr s \<Rightarrow>
                        (case replay_blocks X s (rev branch) of
                           Inl e \<Rightarrow> Inl (ParentReplayFailed e)
                         | Inr s' \<Rightarrow> Inr s'))))"

definition parent_state ::
  "('db, 'x) ext_scheme \<Rightarrow> ('db, 'm) chain_state_scheme \<Rightarrow> block \<Rightarrow> (reject_reason + tx_execution_state) outcome" where
  "parent_state X g blk =
     (if parent_hash (header blk) = tip_hash g then Ret (Inr (account_state g))
      else reconstruct_parent_state_for_side_chain X g (parent_hash (header blk)))"

text \<open>Stage 6c: execution against the parent state, the reward, and the state root.\<close>

definition execute_candidate ::
  "('db, 'x) ext_scheme \<Rightarrow> tx_execution_state \<Rightarrow> block \<Rightarrow> reject_reason + tx_execution_state" where
  "execute_candidate X s blk =
     (case run_all (simulate_tx_execution X) 1 s (drop 1 (txs blk)) of
        (_, Inl (i, e)) \<Rightarrow> Inl (TxInvalid i e)
      | (s1, Inr _) \<Rightarrow>
          (case (if number (header blk) \<noteq> 0
                 then apply_coinbase_reward s1 (miner (header blk)) (number (header blk))
                 else (s1, Inr ())) of
             (_, Inl e) \<Rightarrow> Inl (CoinbaseRewardRejected e)
           | (s2, Inr _) \<Rightarrow>
               (case compute_state_root X (es_balances s2) (es_nonces s2) of
                  Inl _ \<Rightarrow> Inl StateRootConstructionFailed
                | Inr computed \<Rightarrow>
                    if state_root (header blk) \<noteq> computed
                    then Inl (StateRootMismatch (state_root (header blk)) computed)
                    else Inr s2)))"

section \<open>Integration\<close>

text \<open>What is left to do after a block has been handled: nothing, or promote the orphans that
  wait for it and then report.\<close>

datatype accept_step = Final accept_result | Promote accept_result

definition apply_genesis :: "('db, 'x) ext_scheme \<Rightarrow> block \<Rightarrow> 'db machine \<Rightarrow> 'db machine \<times> accept_result" where
  "apply_genesis X blk m =
     (if block_hash blk \<noteq> GENESIS_HASH then (m, Rejected (GenesisHashMismatch (block_hash blk)))
      else if blocks m \<noteq> [] then (m, Rejected GenesisAlreadyApplied)
      else (case persist_canonical_extension X blk m of
              (m1, False) \<Rightarrow> (m1, Rejected CanonicalPersistenceFailed)
            | (m1, True) \<Rightarrow>
                (push_canonical blk (ucast (difficulty (header blk))) m1, CanonExtension 0)))"

definition integrate_tip ::
  "('db, 'x) ext_scheme \<Rightarrow> block \<Rightarrow> tx_execution_state \<Rightarrow> u128 \<Rightarrow> 'db machine \<Rightarrow> 'db machine \<times> accept_step" where
  "integrate_tip X blk s candidate_cw m =
     (case persist_canonical_extension X blk m of
        (m1, False) \<Rightarrow> (m1, Final (Rejected CanonicalPersistenceFailed))
      | (m1, True) \<Rightarrow>
          (let m2 = m1\<lparr>balances := es_balances s, nonces := es_nonces s\<rparr>;
               m3 = push_canonical blk candidate_cw m2;
               m4 = fst (maybe_save_snapshot X m3)
           in (m4, Promote (CanonExtension (number (header blk))))))"

definition record_side_block :: "block \<Rightarrow> u128 \<Rightarrow> ('db, 'm) chain_state_scheme \<Rightarrow> ('db, 'm) chain_state_scheme" where
  "record_side_block blk cw g =
     g\<lparr>seen_blocks := insert (block_hash blk) (seen_blocks g),
       side_blocks := bt_insert (block_hash blk) blk (side_blocks g),
       cumulative_work := (cumulative_work g)(block_hash blk \<mapsto> cw)\<rparr>"

definition integrate_side ::
  "('db, 'x) ext_scheme \<Rightarrow> block \<Rightarrow> u128 \<Rightarrow> u128 \<Rightarrow> 'db machine \<Rightarrow> ('db machine \<times> accept_step) outcome" where
  "integrate_side X blk candidate_cw tip_cw m =
     (case store_block X blk m of
        (m1, False) \<Rightarrow> Ret (m1, Final (Rejected SidePersistenceFailed))
      | (m1, True) \<Rightarrow>
          (let m2 = record_side_block blk candidate_cw m1 in
           if candidate_cw > tip_cw
           then (case try_reorg X blk m2 of
                   Panic \<Rightarrow> Panic
                 | OutOfFuel \<Rightarrow> OutOfFuel
                 | Ret (m3, Some recovery) \<Rightarrow>
                     Ret (m3\<lparr>pending_reorg_recovery := Some recovery\<rparr>,
                          Promote (CanonExtension (number (header blk))))
                 | Ret (m3, None) \<Rightarrow> Ret (m3, Promote (SideChain (number (header blk)))))
           else Ret (m2, Promote (SideChain (number (header blk))))))"

definition work_at :: "('db, 'm) chain_state_scheme \<Rightarrow> string \<Rightarrow> u128" where
  "work_at g h = (case cumulative_work g h of Some w \<Rightarrow> w | None \<Rightarrow> 0)"

text \<open>Stages 6 to 8, for a block whose header has passed.\<close>

definition accept_body ::
  "('db, 'x) ext_scheme \<Rightarrow> block \<Rightarrow> u128 \<Rightarrow> u128 \<Rightarrow> 'db machine \<Rightarrow> ('db machine \<times> accept_step) outcome" where
  "accept_body X blk candidate_cw tip_cw m =
     (case check_coinbase_height blk of
        Some r \<Rightarrow> Ret (m, Final (Rejected r))
      | None \<Rightarrow>
       (case first_duplicate_tx X [] (txs blk) of
          Some tid \<Rightarrow> Ret (m, Final (Rejected (DuplicateCanonicalTx tid)))
        | None \<Rightarrow>
         (case parent_state X m blk of
            Panic \<Rightarrow> Panic
          | OutOfFuel \<Rightarrow> OutOfFuel
          | Ret (Inl r) \<Rightarrow> Ret (m, Final (Rejected r))
          | Ret (Inr s) \<Rightarrow>
             (case execute_candidate X s blk of
                Inl r \<Rightarrow> Ret (m, Final (Rejected r))
              | Inr s' \<Rightarrow>
                  if parent_hash (header blk) = tip_hash m
                  then Ret (integrate_tip X blk s' candidate_cw m)
                  else integrate_side X blk candidate_cw tip_cw m))))"

text \<open>Stages 3 to 5, for a block whose parent is known.\<close>

definition accept_header ::
  "('db, 'x) ext_scheme \<Rightarrow> block \<Rightarrow> 'db machine \<Rightarrow> ('db machine \<times> reject_reason option) outcome" where
  "accept_header X blk m =
     (case resolve_block m (parent_hash (header blk)) of
        None \<Rightarrow> Panic
      | Some parent_blk \<Rightarrow>
         (case check_timestamp blk parent_blk m of
            (m1, Some r) \<Rightarrow> Ret (m1, Some r)
          | (m1, None) \<Rightarrow>
             (case check_difficulty m1 blk of
                Some r \<Rightarrow> Ret (m1, Some r)
              | None \<Rightarrow>
                (case verify_visionx_pow X blk m1 of
                   None \<Rightarrow> Panic
                 | Some (m2, Inl e) \<Rightarrow> Ret (m2, Some (PowRejected e))
                 | Some (m2, Inr _) \<Rightarrow> Ret (m2, None)))))"

text \<open>\<open>apply_block\<close> up to its calls of \<open>process_orphans\<close>.\<close>

definition apply_core ::
  "('db, 'x) ext_scheme \<Rightarrow> block \<Rightarrow> string option \<Rightarrow> 'db machine \<Rightarrow> ('db machine \<times> accept_step) outcome" where
  "apply_core X blk source_peer m0 =
     (let hash = block_hash blk; m = clear_pow_prevalidation hash m0 in
      case structural_check X m blk of
        Some r \<Rightarrow> Ret (m, Final (Rejected r))
      | None \<Rightarrow>
       if number (header blk) = 0
       then (case apply_genesis X blk m of (m', r) \<Rightarrow> Ret (m', Final r))
       else
        (let parent = parent_hash (header blk);
             tip_cw = work_at m (tip_hash m);
             candidate_cw = work_at m parent + ucast (difficulty (header blk)) in
         if canon_index m parent = None \<and> bt_lookup (side_blocks m) parent = None
         then Ret (add_orphan blk (case source_peer of None \<Rightarrow> ''anon'' | Some p \<Rightarrow> p) m,
                   Final (StoredOrphan hash))
         else (case accept_header X blk m of
             Panic \<Rightarrow> Panic
           | OutOfFuel \<Rightarrow> OutOfFuel
           | Ret (m', Some r) \<Rightarrow> Ret (m', Final (Rejected r))
           | Ret (m', None) \<Rightarrow> accept_body X blk candidate_cw tip_cw m')))"

section \<open>Promotion of orphans\<close>

definition take_waiting :: "string \<Rightarrow> ('db, 'm) machine_scheme \<Rightarrow> ('db, 'm) machine_scheme \<times> orphan_entry list" where
  "take_waiting parent m =
     (case bt_lookup (orphan_pool m) parent of
        None \<Rightarrow> (m, [])
      | Some v \<Rightarrow> (m\<lparr>orphan_pool := bt_remove parent (orphan_pool m)\<rparr>, v))"

definition forget_orphan :: "block \<Rightarrow> ('db, 'm) machine_scheme \<Rightarrow> ('db, 'm) machine_scheme" where
  "forget_orphan blk m = m\<lparr>orphan_by_hash := (orphan_by_hash m)(block_hash blk := None)\<rparr>"

function (sequential) apply_fuel ::
    "nat \<Rightarrow> ('db, 'x) ext_scheme \<Rightarrow> block \<Rightarrow> string option \<Rightarrow> 'db machine \<Rightarrow> ('db machine \<times> accept_result) outcome"
  and promote_fuel ::
    "nat \<Rightarrow> ('db, 'x) ext_scheme \<Rightarrow> orphan_entry list \<Rightarrow> nat \<Rightarrow> 'db machine \<Rightarrow> ('db machine \<times> nat) outcome" where
  "apply_fuel 0 X blk source_peer m = OutOfFuel"
| "apply_fuel (Suc n) X blk source_peer m =
     (case apply_core X blk source_peer m of
        Panic \<Rightarrow> Panic
      | OutOfFuel \<Rightarrow> OutOfFuel
      | Ret (m1, Final r) \<Rightarrow> Ret (m1, r)
      | Ret (m1, Promote r) \<Rightarrow>
          (case take_waiting (block_hash blk) m1 of
             (m2, waiting) \<Rightarrow>
               (case promote_fuel n X waiting 0 m2 of
                  Panic \<Rightarrow> Panic
                | OutOfFuel \<Rightarrow> OutOfFuel
                | Ret (m3, _) \<Rightarrow> Ret (m3, r))))"
| "promote_fuel n X [] promoted m = Ret (m, promoted)"
| "promote_fuel n X (e # waiting) promoted m =
     (case apply_fuel n X (fst e) (Some (snd (snd e))) (forget_orphan (fst e) m) of
        Panic \<Rightarrow> Panic
      | OutOfFuel \<Rightarrow> OutOfFuel
      | Ret (m1, r) \<Rightarrow> promote_fuel n X waiting (if is_accepted r then promoted + 1 else promoted) m1)"
  by pat_completeness auto
termination
  by (relation "measures [\<lambda>x. case x of Inl (n, _) \<Rightarrow> n | Inr (n, _) \<Rightarrow> n,
      \<lambda>x. case x of Inl _ \<Rightarrow> 0 | Inr (_, _, ws, _) \<Rightarrow> Suc (length ws)]") auto

definition apply_block ::
  "('db, 'x) ext_scheme \<Rightarrow> block \<Rightarrow> string option \<Rightarrow> 'db machine \<Rightarrow> ('db machine \<times> accept_result) outcome" where
  "apply_block X blk source_peer m = apply_fuel (Suc (pool_total (orphan_pool m))) X blk source_peer m"

definition process_orphans ::
  "('db, 'x) ext_scheme \<Rightarrow> string \<Rightarrow> 'db machine \<Rightarrow> ('db machine \<times> nat) outcome" where
  "process_orphans X parent m =
     (case take_waiting parent m of
        (m1, waiting) \<Rightarrow> promote_fuel (pool_total (orphan_pool m)) X waiting 0 m1)"

end
