(* ===== verification/Accept_Steps.thy ===== *)
theory Accept_Steps
  imports Accept
begin

text \<open>
  What one pass through the pipeline can do. A pass that rejects changes no part of the chain; the
  others are a genesis, an orphan, an extension of the tip, a side block or a reorg. The elimination
  rule \<open>apply_core_cases\<close> states each with the checks it passed; the invariants of the chain
  are proved from it, one case per outcome.
\<close>

section \<open>Equal up to the parts outside the chain\<close>

definition same_chain :: "'db machine \<Rightarrow> 'db machine \<Rightarrow> bool" where
  "same_chain m m' \<longleftrightarrow>
     (\<exists>d po ps c t. m' = m\<lparr>db := d, pow_order := po, pow_set := ps, ds_cache := c, ticks := t\<rparr>)"

lemma same_chain_refl [simp]: "same_chain m m"
  unfolding same_chain_def
  by (intro exI [of _ "db m"] exI [of _ "pow_order m"] exI [of _ "pow_set m"]
      exI [of _ "ds_cache m"] exI [of _ "ticks m"]) simp

lemma same_chain_trans: "same_chain a b \<Longrightarrow> same_chain b c \<Longrightarrow> same_chain a c"
  unfolding same_chain_def by fastforce

lemma same_chainI:
  assumes "blocks m' = blocks m" "cs_difficulty m' = cs_difficulty m" "balances m' = balances m"
    "nonces m' = nonces m" "seen_txs m' = seen_txs m" "seen_blocks m' = seen_blocks m"
    "side_blocks m' = side_blocks m" "cumulative_work m' = cumulative_work m"
    "orphan_pool m' = orphan_pool m" "orphan_by_hash m' = orphan_by_hash m"
    "canon_index m' = canon_index m" "cached_state_root m' = cached_state_root m"
    "pending_reorg_recovery m' = pending_reorg_recovery m" "clock m' = clock m"
  shows "same_chain m m'"
  unfolding same_chain_def
  by (intro exI [of _ "db m'"] exI [of _ "pow_order m'"] exI [of _ "pow_set m'"]
      exI [of _ "ds_cache m'"] exI [of _ "ticks m'"]) (use assms in \<open>simp add: machine.equality\<close>)

lemma same_chainD:
  assumes "same_chain m m'"
  shows "blocks m' = blocks m" "cs_difficulty m' = cs_difficulty m" "balances m' = balances m"
    "nonces m' = nonces m" "seen_txs m' = seen_txs m" "seen_blocks m' = seen_blocks m"
    "side_blocks m' = side_blocks m" "cumulative_work m' = cumulative_work m"
    "orphan_pool m' = orphan_pool m" "orphan_by_hash m' = orphan_by_hash m"
    "canon_index m' = canon_index m" "cached_state_root m' = cached_state_root m"
    "pending_reorg_recovery m' = pending_reorg_recovery m" "clock m' = clock m"
  using assms by (auto simp: same_chain_def)

lemma same_chain_db [simp]: "same_chain m (m\<lparr>db := d\<rparr>)"
  by (rule same_chainI) simp_all

lemma same_chain_ds_cache [simp]: "same_chain m (m\<lparr>ds_cache := c\<rparr>)"
  by (rule same_chainI) simp_all

lemma same_chain_clear [simp]: "same_chain m (clear_pow_prevalidation h m)"
  by (rule same_chainI) (simp_all add: clear_pow_prevalidation_def)

lemma same_chain_queries:
  assumes "same_chain m m'"
  shows "tip_hash m' = tip_hash m" "current_height m' = current_height m"
    "account_state m' = account_state m" "work_at m' h = work_at m h"
    "resolve_block m' h = resolve_block m h" "block_at m' n = block_at m n"
  unfolding tip_hash_def current_height_def account_state_def work_at_def resolve_block_def
    block_at_def same_chainD [OF assms] by (rule refl)+

lemma same_chain_window:
  assumes "same_chain m m'"
  shows "collect_ancestors m' n h = collect_ancestors m n h"
proof (induction n arbitrary: h)
  case 0
  then show ?case by simp
next
  case (Suc n)
  then show ?case
    by (auto simp: same_chain_queries(5) [OF assms] Let_def split: option.split)
qed

lemma same_chain_checks:
  assumes "same_chain m m'"
  shows "structural_check X m' blk = structural_check X m blk"
    "check_difficulty m' blk = check_difficulty m blk"
    "parent_state X m' blk = parent_state X m blk"
  unfolding structural_check_def check_difficulty_def collect_ancestor_window_def
    same_chain_window [OF assms] parent_state_def reconstruct_parent_state_for_side_chain_def
    reconstruct_canonical_state_at_height_def same_chainD [OF assms] same_chain_queries [OF assms]
  by (rule refl)+

section \<open>The stages\<close>

lemma verify_visionx_pow_frame:
  "verify_visionx_pow X blk m = Some (m', r) \<Longrightarrow> same_chain m m'"
  by (auto simp: verify_visionx_pow_def Let_def split: option.splits sum.splits prod.splits if_splits)

lemma check_timestamp_frame: "check_timestamp blk p m = (m', r) \<Longrightarrow> same_chain m m'"
  by (auto simp: check_timestamp_def wall_clock_secs_def split: if_splits intro!: same_chainI)

lemma accept_header_frame: "accept_header X blk m = Ret (m', r) \<Longrightarrow> same_chain m m'"
  by (auto simp: accept_header_def split: option.splits prod.splits sum.splits
      intro: same_chain_trans dest!: verify_visionx_pow_frame check_timestamp_frame)

lemma accept_header_ok:
  assumes "accept_header X blk m = Ret (m', None)"
  shows "\<exists>p. resolve_block m (parent_hash (header blk)) = Some p
    \<and> timestamp (header p) < timestamp (header blk) \<and> check_difficulty m blk = None"
proof -
  obtain p m1 where p: "resolve_block m (parent_hash (header blk)) = Some p"
    and t: "check_timestamp blk p m = (m1, None)" and d: "check_difficulty m1 blk = None"
    using assms by (auto simp: accept_header_def split: option.splits prod.splits)
  have "same_chain m m1" using t by (rule check_timestamp_frame)
  then have "check_difficulty m blk = None" using d same_chain_checks(2) by metis
  moreover have "timestamp (header p) < timestamp (header blk)"
    using t by (auto simp: check_timestamp_def split: if_splits)
  ultimately show ?thesis using p by blast
qed

lemma persist_extension_frame:
  "persist_canonical_extension X blk m = (m', ok) \<Longrightarrow> \<exists>d. m' = m\<lparr>db := d\<rparr>"
  by (auto simp: persist_canonical_extension_def split: prod.splits)

lemma persist_reorg_frame:
  "persist_canonical_reorg X bs h m = (m', ok) \<Longrightarrow> \<exists>d. m' = m\<lparr>db := d\<rparr>"
proof (cases "bs = []")
  case True
  assume "persist_canonical_reorg X bs h m = (m', ok)"
  then show ?thesis using True by (intro exI [of _ "db m"]) (simp add: persist_canonical_reorg_def)
next
  case False
  assume "persist_canonical_reorg X bs h m = (m', ok)"
  then show ?thesis using False by (auto simp: persist_canonical_reorg_def split: prod.splits)
qed

lemma store_block_frame: "store_block X blk m = (m', ok) \<Longrightarrow> \<exists>d. m' = m\<lparr>db := d\<rparr>"
  by (auto simp: store_block_def split: prod.splits)

section \<open>Reorg\<close>

lemma try_reorg_None: "try_reorg X blk g = Ret (g', None) \<Longrightarrow> \<exists>d. g' = g\<lparr>db := d\<rparr>"
proof -
  assume "try_reorg X blk g = Ret (g', None)"
  then have "g' = g \<or> (\<exists>bs h. persist_canonical_reorg X bs h g = (g', False))"
    by (auto simp: try_reorg_def Let_def split: outcome.splits list.splits option.splits sum.splits
        if_splits prod.splits bool.splits)
  then show ?thesis
  proof
    assume "g' = g"
    then show ?thesis by (intro exI [of _ "db g"]) simp
  next
    assume "\<exists>bs h. persist_canonical_reorg X bs h g = (g', False)"
    then show ?thesis
      by (auto simp: persist_canonical_reorg_def split: if_splits prod.splits)
        (intro exI [of _ "db g"], simp)
  qed
qed

text \<open>A reorg that happened: the segment it installed, with everything that was checked.\<close>

lemma try_reorg_SomeE:
  assumes "try_reorg X blk g = Ret (g', Some recovery)"
  obtains segment common_hash common_height anc st d where
    "collect_new_segment g (block_hash blk) = Ret segment" "segment \<noteq> []"
    "common_hash = parent_hash (header (hd segment))"
    "canon_index g common_hash = Some common_height"
    "unat common_height < length (blocks g)"
    "reorg_reconstruct_canonical X g common_height = Inr anc"
    "reconstruct_branch_state X common_hash anc segment = Inr st"
    "compute_state_root X (es_balances st) (es_nonces st) = Inr (state_root (header blk))"
    "persist_canonical_reorg X (pr_blocks (reorg_promotion g common_hash (unat common_height) segment))
       (current_height g) g = (g\<lparr>db := d\<rparr>, True)"
    "g' = g\<lparr>db := d,
            blocks := pr_blocks (reorg_promotion g common_hash (unat common_height) segment),
            balances := es_balances st, nonces := es_nonces st,
            seen_blocks := pr_seen (reorg_promotion g common_hash (unat common_height) segment),
            side_blocks := pr_side (reorg_promotion g common_hash (unat common_height) segment),
            cumulative_work := pr_work (reorg_promotion g common_hash (unat common_height) segment),
            canon_index := pr_canon (reorg_promotion g common_hash (unat common_height) segment),
            cached_state_root := Some (number (header blk), state_root (header blk))\<rparr>"
    "recovery = \<lparr>displaced_txs = compute_displaced_txs X (drop (unat common_height + 1) (blocks g)) segment,
            winning_tx_ids = sort (remdups (segment_tx_ids X segment))\<rparr>"
proof -
  obtain first rest where seg: "collect_new_segment g (block_hash blk) = Ret (first # rest)"
    using assms by (auto simp: try_reorg_def split: outcome.splits list.splits)
  let ?seg = "first # rest" and ?ch = "parent_hash (header first)"
  obtain h where h: "canon_index g ?ch = Some h"
    using assms seg by (auto simp: try_reorg_def Let_def split: option.splits)
  obtain anc where anc: "reorg_reconstruct_canonical X g h = Inr anc"
    using assms seg h by (auto simp: try_reorg_def Let_def split: sum.splits)
  obtain st where st: "reconstruct_branch_state X ?ch anc ?seg = Inr st"
    using assms seg h anc by (auto simp: try_reorg_def Let_def simp del: reconstruct_branch_state.simps split: sum.splits)
  obtain root where root: "compute_state_root X (es_balances st) (es_nonces st) = Inr root"
    using assms seg h anc st by (auto simp: try_reorg_def Let_def simp del: reconstruct_branch_state.simps split: sum.splits)
  let ?p = "reorg_promotion g ?ch (unat h) ?seg"
  have rest: "root = state_root (header blk)" "\<not> length (blocks g) \<le> unat h"
    using assms seg h anc st root
    by (auto simp: try_reorg_def Let_def simp del: reconstruct_branch_state.simps split: if_splits)
  obtain g1 ok where pr: "persist_canonical_reorg X (pr_blocks ?p) (current_height g) g = (g1, ok)"
    by fastforce
  then obtain d where g1: "g1 = g\<lparr>db := d\<rparr>"
  proof (cases "pr_blocks ?p = []")
    case True
    then show ?thesis using pr that [of "db g"] by (simp add: persist_canonical_reorg_def)
  next
    case False
    then show ?thesis using pr that by (auto simp: persist_canonical_reorg_def split: prod.splits)
  qed
  have ok: "ok" and fin: "g' = g1\<lparr>blocks := pr_blocks ?p,
            balances := es_balances st, nonces := es_nonces st,
            seen_blocks := pr_seen ?p, side_blocks := pr_side ?p,
            cumulative_work := pr_work ?p, canon_index := pr_canon ?p,
            cached_state_root := Some (number (header blk), root)\<rparr>"
    "recovery = \<lparr>displaced_txs = compute_displaced_txs X (drop (unat h + 1) (blocks g)) ?seg,
            winning_tx_ids = sort (remdups (segment_tx_ids X ?seg))\<rparr>"
    using assms seg h anc st root rest pr
    by (auto simp: try_reorg_def Let_def simp del: reconstruct_branch_state.simps split: bool.splits)
  show thesis
    by (rule that [OF seg _ _ h _ anc st])
      (use rest root pr g1 ok fin in simp_all)
qed

section \<open>One pass\<close>

definition passed :: "('db, 'x) ext_scheme \<Rightarrow> block \<Rightarrow> 'db machine \<Rightarrow> tx_execution_state \<Rightarrow> bool" where
  "passed X blk m s' \<longleftrightarrow>
     structural_check X m blk = None \<and> number (header blk) \<noteq> 0
     \<and> (\<exists>p. resolve_block m (parent_hash (header blk)) = Some p \<and> timestamp (header p) < timestamp (header blk))
     \<and> check_difficulty m blk = None \<and> check_coinbase_height blk = None
     \<and> first_duplicate_tx X [] (txs blk) = None
     \<and> (\<exists>s. parent_state X m blk = Ret (Inr s) \<and> execute_candidate X s blk = Inr s')"

definition candidate_work :: "('db, 'm) chain_state_scheme \<Rightarrow> block \<Rightarrow> u128" where
  "candidate_work g blk = work_at g (parent_hash (header blk)) + ucast (difficulty (header blk))"

text \<open>The chain after a block has been pushed on its tip.\<close>

definition extend_chain :: "block \<Rightarrow> u128 \<Rightarrow> tx_execution_state \<Rightarrow> 'db machine \<Rightarrow> 'db machine" where
  "extend_chain blk cw s m = push_canonical blk cw (m\<lparr>balances := es_balances s, nonces := es_nonces s\<rparr>)"

lemma integrate_tip_cases:
  assumes "integrate_tip X blk s cw m = (m', st)"
  shows "(\<exists>r. st = Final (Rejected r) \<and> same_chain m m')
    \<or> (\<exists>m1. st = Promote (CanonExtension (number (header blk))) \<and> same_chain m m1
        \<and> same_chain (extend_chain blk cw s m1) m')"
proof -
  obtain m1 ok where p: "persist_canonical_extension X blk m = (m1, ok)" by fastforce
  then have sc: "same_chain m m1" using persist_extension_frame by fastforce
  obtain d r where s: "maybe_save_snapshot X (extend_chain blk cw s m1) = ((extend_chain blk cw s m1)\<lparr>db := d\<rparr>, r)"
    using maybe_save_snapshot_frame [of X "extend_chain blk cw s m1"] by auto
  show ?thesis
    using assms p sc s by (cases ok) (auto simp: integrate_tip_def Let_def extend_chain_def)
qed

lemma integrate_side_cases:
  assumes "integrate_side X blk cw tip_cw m = Ret (m', st)"
  shows "(\<exists>r. st = Final (Rejected r) \<and> same_chain m m')
    \<or> (\<exists>m1. st = Promote (SideChain (number (header blk))) \<and> same_chain m m1
        \<and> same_chain (record_side_block blk cw m1) m'
        \<and> (cw \<le> tip_cw \<or> try_reorg X blk (record_side_block blk cw m1) = Ret (m', None)))
    \<or> (\<exists>m1 m2 recovery. st = Promote (CanonExtension (number (header blk))) \<and> same_chain m m1 \<and> tip_cw < cw
        \<and> try_reorg X blk (record_side_block blk cw m1) = Ret (m2, Some recovery)
        \<and> m' = m2\<lparr>pending_reorg_recovery := Some recovery\<rparr>)"
proof -
  obtain m1 ok where p: "store_block X blk m = (m1, ok)" by fastforce
  then have sc: "same_chain m m1" using store_block_frame by fastforce
  show ?thesis
  proof (cases ok)
    case False
    then show ?thesis using assms p sc by (auto simp: integrate_side_def)
  next
    case True
    show ?thesis
    proof (cases "tip_cw < cw")
      case False
      then show ?thesis using assms p sc True by (auto simp: integrate_side_def Let_def)
    next
      case more: True
      then obtain m3 rec where t: "try_reorg X blk (record_side_block blk cw m1) = Ret (m3, rec)"
        using assms p True by (auto simp: integrate_side_def Let_def split: outcome.splits)
      show ?thesis
      proof (cases rec)
        case None
        then obtain d where "m3 = (record_side_block blk cw m1)\<lparr>db := d\<rparr>"
          using t try_reorg_None by blast
        then have "same_chain (record_side_block blk cw m1) m3" by simp
        then show ?thesis using assms p sc True more t None
          by (intro disjI2 disjI1 exI [of _ m1]) (simp add: integrate_side_def Let_def)
      next
        case (Some recovery)
        then show ?thesis using assms p sc True more t by (auto simp: integrate_side_def Let_def)
      qed
    qed
  qed
qed

text \<open>The dataset cache stays good, and with a good cache the proof of work is judged on the
  block alone.\<close>

lemma accept_header_pow:
  assumes "accept_header X blk m = Ret (m', r)" "dc_ok (ds_cache m)"
  shows "dc_ok (ds_cache m')" and "r = None \<Longrightarrow> pow_verdict X blk = Inr ()"
proof -
  obtain p m1 r1 where t: "check_timestamp blk p m = (m1, r1)"
    and rest: "(case r1 of Some r \<Rightarrow> Ret (m1, Some r)
       | None \<Rightarrow> (case check_difficulty m1 blk of Some r \<Rightarrow> Ret (m1, Some r)
           | None \<Rightarrow> (case verify_visionx_pow X blk m1 of None \<Rightarrow> Panic
                | Some (m2, Inl e) \<Rightarrow> Ret (m2, Some (PowRejected e))
                | Some (m2, Inr _) \<Rightarrow> Ret (m2, None)))) = Ret (m', r)"
    using assms(1) by (auto simp: accept_header_def split: option.splits prod.splits)
  have "ds_cache m1 = ds_cache m"
    using t by (auto simp: check_timestamp_def wall_clock_secs_def split: if_splits)
  then have ok: "dc_ok (ds_cache m1)" using assms(2) by simp
  from verify_visionx_pow_ok [OF ok, of X blk] obtain c where
    c: "verify_visionx_pow X blk m1 = Some (m1\<lparr>ds_cache := c\<rparr>, pow_verdict X blk)" "dc_ok c" by blast
  have "dc_ok (ds_cache m') \<and> (r = None \<longrightarrow> pow_verdict X blk = Inr ())"
    using rest ok c by (auto split: option.splits sum.splits)
  then show "dc_ok (ds_cache m')" "r = None \<Longrightarrow> pow_verdict X blk = Inr ()" by simp_all
qed

lemma accept_body_cases:
  assumes "accept_body X blk cw tip_cw m = Ret (m', st)"
  obtains r where "st = Final (Rejected r)" "same_chain m m'"
  | s s0 m1 where "st = Promote (CanonExtension (number (header blk)))"
      "check_coinbase_height blk = None" "first_duplicate_tx X [] (txs blk) = None"
      "parent_state X m blk = Ret (Inr s0)" "execute_candidate X s0 blk = Inr s"
      "parent_hash (header blk) = tip_hash m" "same_chain m m1"
      "same_chain (extend_chain blk cw s m1) m'"
  | s s0 m1 where "st = Promote (SideChain (number (header blk)))"
      "check_coinbase_height blk = None" "first_duplicate_tx X [] (txs blk) = None"
      "parent_state X m blk = Ret (Inr s0)" "execute_candidate X s0 blk = Inr s"
      "parent_hash (header blk) \<noteq> tip_hash m" "same_chain m m1"
      "same_chain (record_side_block blk cw m1) m'"
      "cw \<le> tip_cw \<or> try_reorg X blk (record_side_block blk cw m1) = Ret (m', None)"
  | s s0 m1 m2 recovery where "st = Promote (CanonExtension (number (header blk)))"
      "check_coinbase_height blk = None" "first_duplicate_tx X [] (txs blk) = None"
      "parent_state X m blk = Ret (Inr s0)" "execute_candidate X s0 blk = Inr s"
      "parent_hash (header blk) \<noteq> tip_hash m" "same_chain m m1" "tip_cw < cw"
      "try_reorg X blk (record_side_block blk cw m1) = Ret (m2, Some recovery)"
      "m' = m2\<lparr>pending_reorg_recovery := Some recovery\<rparr>"
proof (cases "check_coinbase_height blk")
  case (Some r)
  then show ?thesis using assms that(1) [of r] by (simp add: accept_body_def)
next
  case ch: None
  show ?thesis
  proof (cases "first_duplicate_tx X [] (txs blk)")
    case (Some tid)
    then show ?thesis using assms ch that(1) [of "DuplicateCanonicalTx tid"] by (simp add: accept_body_def)
  next
    case dup: None
    show ?thesis
    proof (cases "parent_state X m blk")
      case (Ret ps)
      show ?thesis
      proof (cases ps)
        case (Inl r)
        then show ?thesis using assms ch dup Ret that(1) [of r] by (simp add: accept_body_def)
      next
        case (Inr s0)
        note ps = Ret [unfolded Inr]
        show ?thesis
        proof (cases "execute_candidate X s0 blk")
          case (Inl r)
          then show ?thesis using assms ch dup ps that(1) [of r] by (simp add: accept_body_def)
        next
          case (Inr s)
          show ?thesis
          proof (cases "parent_hash (header blk) = tip_hash m")
            case True
            then have "integrate_tip X blk s cw m = (m', st)"
              using assms ch dup ps Inr by (simp add: accept_body_def)
            from integrate_tip_cases [OF this] show ?thesis
              using that(1) that(2) [OF _ ch dup ps Inr True] by blast
          next
            case False
            then have "integrate_side X blk cw tip_cw m = Ret (m', st)"
              using assms ch dup ps Inr by (simp add: accept_body_def)
            from integrate_side_cases [OF this] show ?thesis
              using that(1) that(3) [OF _ ch dup ps Inr False] that(4) [OF _ ch dup ps Inr False] by blast
          qed
        qed
      qed
    qed (use assms ch dup in \<open>simp_all add: accept_body_def\<close>)
  qed
qed

lemma apply_core_cases:
  assumes core: "apply_core X blk src m = Ret (m', st)" and ok: "dc_ok (ds_cache m)"
  obtains (Reject) r where "st = Final (Rejected r)" "same_chain m m'"
  | (Gen) m1 where "st = Final (CanonExtension 0)" "structural_check X m blk = None"
      "number (header blk) = 0" "block_hash blk = GENESIS_HASH" "blocks m = []" "same_chain m m1"
      "m' = push_canonical blk (ucast (difficulty (header blk))) m1"
  | (Orphaned) m1 peer where "st = Final (StoredOrphan (block_hash blk))"
      "structural_check X m blk = None" "number (header blk) \<noteq> 0"
      "canon_index m (parent_hash (header blk)) = None"
      "bt_lookup (side_blocks m) (parent_hash (header blk)) = None"
      "same_chain m m1" "m' = add_orphan blk peer m1"
  | (Tip) s m1 where "st = Promote (CanonExtension (number (header blk)))" "passed X blk m s"
      "pow_verdict X blk = Inr ()" "parent_hash (header blk) = tip_hash m" "same_chain m m1"
      "same_chain (extend_chain blk (candidate_work m blk) s m1) m'"
  | (Side) s m1 where "st = Promote (SideChain (number (header blk)))" "passed X blk m s"
      "pow_verdict X blk = Inr ()" "parent_hash (header blk) \<noteq> tip_hash m" "same_chain m m1"
      "same_chain (record_side_block blk (candidate_work m blk) m1) m'"
      "candidate_work m blk \<le> work_at m (tip_hash m)
       \<or> try_reorg X blk (record_side_block blk (candidate_work m blk) m1) = Ret (m', None)"
  | (Reorganised) s m1 m2 recovery where "st = Promote (CanonExtension (number (header blk)))"
      "passed X blk m s" "pow_verdict X blk = Inr ()" "parent_hash (header blk) \<noteq> tip_hash m"
      "same_chain m m1" "work_at m (tip_hash m) < candidate_work m blk"
      "try_reorg X blk (record_side_block blk (candidate_work m blk) m1) = Ret (m2, Some recovery)"
      "m' = m2\<lparr>pending_reorg_recovery := Some recovery\<rparr>"
proof -
  let ?m = "clear_pow_prevalidation (block_hash blk) m"
  let ?ph = "parent_hash (header blk)"
  have sc: "same_chain m ?m" by simp
  note q = same_chainD [OF sc] same_chain_queries [OF sc] same_chain_checks [OF sc]
  have ok': "dc_ok (ds_cache ?m)" using ok by (simp add: clear_pow_prevalidation_def)
  show ?thesis
  proof (cases "structural_check X ?m blk")
    case (Some r)
    then show ?thesis using core sc Reject [of r] by (simp add: apply_core_def Let_def)
  next
    case None
    then have st: "structural_check X m blk = None" by (simp add: q)
    show ?thesis
    proof (cases "number (header blk) = 0")
      case True
      then obtain r where g: "apply_genesis X blk ?m = (m', r)" "st = Final r"
        using core None by (auto simp: apply_core_def Let_def split: prod.splits)
      obtain m1 pok where p: "persist_canonical_extension X blk ?m = (m1, pok)" by fastforce
      then have sc1: "same_chain m m1"
        using sc persist_extension_frame same_chain_db same_chain_trans by metis
      show ?thesis
        using g p sc sc1 st True q(1) Reject Gen
        by (cases pok) (auto simp: apply_genesis_def split: if_splits)
    next
      case False
      show ?thesis
      proof (cases "canon_index ?m ?ph = None \<and> bt_lookup (side_blocks ?m) ?ph = None")
        case True
        then have "canon_index m ?ph = None" "bt_lookup (side_blocks m) ?ph = None" by (simp_all add: q)
        moreover have "m' = add_orphan blk (case src of None \<Rightarrow> ''anon'' | Some p \<Rightarrow> p) ?m"
          "st = Final (StoredOrphan (block_hash blk))"
          using core None False True by (simp_all add: apply_core_def Let_def)
        ultimately show ?thesis using Orphaned st False sc by blast
      next
        case known: False
        obtain m1 hr where h: "accept_header X blk ?m = Ret (m1, hr)"
          using core None False known by (auto simp: apply_core_def Let_def split: outcome.splits)
        have sc1: "same_chain m m1" using sc accept_header_frame [OF h] same_chain_trans by blast
        show ?thesis
        proof (cases hr)
          case (Some r)
          then show ?thesis
            using core None False known h sc1 Reject [of r] by (simp add: apply_core_def Let_def)
        next
          case hr: None
          note q1 = same_chainD [OF sc1] same_chain_queries [OF sc1] same_chain_checks [OF sc1]
          have pow: "pow_verdict X blk = Inr ()" using accept_header_pow(2) [OF h ok' hr] .
          obtain p where p: "resolve_block m ?ph = Some p" "timestamp (header p) < timestamp (header blk)"
            and d: "check_difficulty m blk = None"
            using accept_header_ok [OF h [unfolded hr]] by (auto simp: q)
          have body: "accept_body X blk (candidate_work m blk) (work_at m (tip_hash m)) m1 = Ret (m', st)"
          proof -
            have "accept_body X blk (work_at ?m ?ph + ucast (difficulty (header blk)))
                (work_at ?m (tip_hash ?m)) m1 = Ret (m', st)"
              using core None False known h hr by (auto simp: apply_core_def Let_def)
            then show ?thesis by (simp add: candidate_work_def q)
          qed
          have pass: "passed X blk m s" if "check_coinbase_height blk = None"
            "first_duplicate_tx X [] (txs blk) = None" "parent_state X m1 blk = Ret (Inr s0)"
            "execute_candidate X s0 blk = Inr s" for s s0
            using that st False p d by (auto simp: passed_def q1)
          show ?thesis
          proof (rule accept_body_cases [OF body])
            fix r assume "st = Final (Rejected r)" "same_chain m1 m'"
            then show thesis using Reject sc1 same_chain_trans by blast
          next
            fix s s0 m2
            assume a: "st = Promote (CanonExtension (number (header blk)))"
              "check_coinbase_height blk = None" "first_duplicate_tx X [] (txs blk) = None"
              "parent_state X m1 blk = Ret (Inr s0)" "execute_candidate X s0 blk = Inr s"
              "?ph = tip_hash m1" "same_chain m1 m2"
              "same_chain (extend_chain blk (candidate_work m blk) s m2) m'"
            have "?ph = tip_hash m" using a(6) q1(15) by simp
            then show thesis
              by (rule Tip [OF a(1) pass [OF a(2-5)] pow _ same_chain_trans [OF sc1 a(7)] a(8)])
          next
            fix s s0 m2
            assume a: "st = Promote (SideChain (number (header blk)))"
              "check_coinbase_height blk = None" "first_duplicate_tx X [] (txs blk) = None"
              "parent_state X m1 blk = Ret (Inr s0)" "execute_candidate X s0 blk = Inr s"
              "?ph \<noteq> tip_hash m1" "same_chain m1 m2"
              "same_chain (record_side_block blk (candidate_work m blk) m2) m'"
              "candidate_work m blk \<le> work_at m (tip_hash m)
               \<or> try_reorg X blk (record_side_block blk (candidate_work m blk) m2) = Ret (m', None)"
            have "?ph \<noteq> tip_hash m" using a(6) q1(15) by simp
            then show thesis
              by (rule Side [OF a(1) pass [OF a(2-5)] pow _ same_chain_trans [OF sc1 a(7)] a(8,9)])
          next
            fix s s0 m2 m3 recovery
            assume a: "st = Promote (CanonExtension (number (header blk)))"
              "check_coinbase_height blk = None" "first_duplicate_tx X [] (txs blk) = None"
              "parent_state X m1 blk = Ret (Inr s0)" "execute_candidate X s0 blk = Inr s"
              "?ph \<noteq> tip_hash m1" "same_chain m1 m2" "work_at m (tip_hash m) < candidate_work m blk"
              "try_reorg X blk (record_side_block blk (candidate_work m blk) m2) = Ret (m3, Some recovery)"
              "m' = m3\<lparr>pending_reorg_recovery := Some recovery\<rparr>"
            have "?ph \<noteq> tip_hash m" using a(6) q1(15) by simp
            then show thesis
              by (rule Reorganised [OF a(1) pass [OF a(2-5)] pow _ same_chain_trans [OF sc1 a(7)] a(8-10)])
          qed
        qed
      qed
    qed
  qed
qed

end
