(* ===== verification/Accept_Fuel.thy ===== *)
theory Accept_Fuel
  imports Accept_Steps
begin

text \<open>
  The recursion between \<open>apply_block\<close> and \<open>process_orphans\<close>. Every nested call has taken at
  least one orphan out of the pool, and a pass puts at most one back, so the pool bounds the depth:
  fuel beyond it changes nothing, and both functions satisfy the recursion of the code. The locale
  \<open>accept_invariant\<close> lifts what one pass preserves to the whole recursion, and
  \<open>accept_total\<close> lifts that a pass always returns.
\<close>

definition base_ok :: "'db machine \<Rightarrow> bool" where
  "base_ok m \<longleftrightarrow> bt_wf (orphan_pool m) \<and> dc_ok (ds_cache m)"

section \<open>The dataset cache\<close>

lemma integrate_tip_ds_cache: "integrate_tip X blk s cw m = (m', st) \<Longrightarrow> ds_cache m' = ds_cache m"
proof -
  assume a: "integrate_tip X blk s cw m = (m', st)"
  obtain m1 ok where p: "persist_canonical_extension X blk m = (m1, ok)" by fastforce
  then have m1: "ds_cache m1 = ds_cache m" by (auto simp: persist_canonical_extension_def split: prod.splits)
  let ?m3 = "push_canonical blk cw (m1\<lparr>balances := es_balances s, nonces := es_nonces s\<rparr>)"
  obtain d r where s: "maybe_save_snapshot X ?m3 = (?m3\<lparr>db := d\<rparr>, r)"
    using maybe_save_snapshot_frame [of X ?m3] by auto
  show ?thesis using a p m1 s by (cases ok) (auto simp: integrate_tip_def Let_def push_canonical_def)
qed

lemma try_reorg_ds_cache: "try_reorg X blk (m :: 'db machine) = Ret (m', r) \<Longrightarrow> ds_cache m' = ds_cache m"
proof (cases r)
  case None
  assume "try_reorg X blk m = Ret (m', r)"
  then show ?thesis using None try_reorg_None by fastforce
next
  case (Some recovery)
  assume "try_reorg X blk m = Ret (m', r)"
  then show ?thesis unfolding Some by (rule try_reorg_SomeE) simp
qed

lemma integrate_side_ds_cache: "integrate_side X blk cw tcw m = Ret (m', st) \<Longrightarrow> ds_cache m' = ds_cache m"
proof -
  assume a: "integrate_side X blk cw tcw m = Ret (m', st)"
  obtain m1 ok where p: "store_block X blk m = (m1, ok)" by fastforce
  then have m1: "ds_cache m1 = ds_cache m" by (auto simp: store_block_def split: prod.splits)
  have r: "ds_cache (record_side_block blk cw m1) = ds_cache m" using m1 by (simp add: record_side_block_def)
  show ?thesis
    using a p r m1 try_reorg_ds_cache [of X blk "record_side_block blk cw m1"]
    by (cases ok) (auto simp: integrate_side_def Let_def split: if_splits outcome.splits option.splits prod.splits)
qed

lemma accept_body_ds_cache: "accept_body X blk cw tcw m = Ret (m', st) \<Longrightarrow> ds_cache m' = ds_cache m"
  by (auto simp: accept_body_def integrate_tip_ds_cache integrate_side_ds_cache
      split: option.splits outcome.splits sum.splits if_splits)

lemma apply_core_dc_ok:
  assumes core: "apply_core X blk src m = Ret (m', st)" and ok: "dc_ok (ds_cache m)"
  shows "dc_ok (ds_cache m')"
proof -
  let ?m = "clear_pow_prevalidation (block_hash blk) m"
  have ok': "dc_ok (ds_cache ?m)" using ok by (simp add: clear_pow_prevalidation_def)
  have gen: "ds_cache m2 = ds_cache m1" if "apply_genesis X blk m1 = (m2, r)" for m1 m2 :: "'a machine" and r
    using that by (auto simp: apply_genesis_def persist_canonical_extension_def push_canonical_def
        split: if_splits prod.splits bool.splits)
  have orph: "ds_cache (add_orphan blk p m1) = ds_cache m1" for p and m1 :: "'a machine"
    using add_orphan_frame [of blk p m1] by auto
  have body: "dc_ok (ds_cache m2)" if "accept_body X blk cw tcw m1 = Ret (m2, st)"
      "accept_header X blk ?m = Ret (m1, r)" for cw tcw m1 m2 st r
    using accept_body_ds_cache [OF that(1)] accept_header_pow(1) [OF that(2) ok'] by simp
  show ?thesis
    using core ok' gen orph body accept_header_pow(1) [OF _ ok']
    by (auto simp: apply_core_def Let_def split: option.splits if_splits prod.splits outcome.splits)
qed

section \<open>The pool\<close>

lemma try_reorg_pool: "try_reorg X blk (m :: 'db machine) = Ret (m', Some r) \<Longrightarrow> orphan_pool m' = orphan_pool m"
  by (erule try_reorg_SomeE) simp

lemma apply_core_pool:
  assumes core: "apply_core X blk src m = Ret (m', st)" and ok: "base_ok m"
  shows "bt_wf (orphan_pool m') \<and> pool_total (orphan_pool m') \<le> Suc (pool_total (orphan_pool m))"
    and "st = Promote r \<Longrightarrow> orphan_pool m' = orphan_pool m"
proof -
  have wf: "bt_wf (orphan_pool m)" and dc: "dc_ok (ds_cache m)" using ok by (simp_all add: base_ok_def)
  have "orphan_pool m' = orphan_pool m \<or> (\<exists>m1 p. same_chain m m1 \<and> m' = add_orphan blk p m1 \<and>
      st = Final (StoredOrphan (block_hash blk)))"
    using core dc
  proof (cases rule: apply_core_cases)
    case (Reject r)
    then show ?thesis using same_chainD(9) by blast
  next
    case (Gen m1)
    then show ?thesis using same_chainD(9) by (auto simp: push_canonical_def)
  next
    case (Orphaned m1 peer)
    then show ?thesis by blast
  next
    case (Tip s m1)
    then show ?thesis using same_chainD(9) [OF Tip(5)] same_chainD(9) [OF Tip(6)]
      by (simp add: extend_chain_def push_canonical_def)
  next
    case (Side s m1)
    then show ?thesis using same_chainD(9) [OF Side(5)] same_chainD(9) [OF Side(6)]
      by (simp add: record_side_block_def)
  next
    case (Reorganised s m1 m2 recovery)
    then show ?thesis using same_chainD(9) [OF Reorganised(5)] try_reorg_pool [OF Reorganised(7)]
      by (simp add: record_side_block_def)
  qed
  then show "bt_wf (orphan_pool m') \<and> pool_total (orphan_pool m') \<le> Suc (pool_total (orphan_pool m))"
    "st = Promote r \<Longrightarrow> orphan_pool m' = orphan_pool m"
    using wf by (auto simp: add_orphan_wf add_orphan_total same_chainD(9))
qed

lemma apply_core_base: "apply_core X blk src m = Ret (m', st) \<Longrightarrow> base_ok m \<Longrightarrow> base_ok m'"
  using apply_core_pool(1) [of X blk src m m' st] apply_core_dc_ok [of X blk src m m' st]
  by (simp add: base_ok_def)

lemma take_waiting_pool:
  assumes "take_waiting h m = (m', ws)" "base_ok m"
  shows "base_ok m'" and "pool_total (orphan_pool m') + length ws = pool_total (orphan_pool m)"
  using assms pool_total_remove [of "orphan_pool m" h]
  by (auto simp: take_waiting_def base_ok_def split: option.splits)

lemma forget_orphan_pool [simp]:
  "base_ok (forget_orphan b m) = base_ok m" "orphan_pool (forget_orphan b m) = orphan_pool m"
  by (simp_all add: forget_orphan_def base_ok_def)

lemma fuel_pool:
  "apply_fuel n X blk src m = Ret (m', r) \<Longrightarrow> base_ok m \<Longrightarrow>
     base_ok m' \<and> pool_total (orphan_pool m') \<le> Suc (pool_total (orphan_pool m))"
  "promote_fuel n X ws c m = Ret (m', c') \<Longrightarrow> base_ok m \<Longrightarrow>
     base_ok m' \<and> pool_total (orphan_pool m') \<le> pool_total (orphan_pool m) + length ws"
proof (induction n X blk src m and n X ws c m arbitrary: m' r and m' c' rule: apply_fuel_promote_fuel.induct)
  case (1 X blk src m)
  then show ?case by simp
next
  case (2 n X blk src m)
  obtain m1 st where core: "apply_core X blk src m = Ret (m1, st)"
    using 2(2) by (auto split: outcome.splits)
  have base: "base_ok m1" using core 2(3) by (rule apply_core_base)
  show ?case
  proof (cases st)
    case (Final r0)
    then show ?thesis using 2(2) core base apply_core_pool(1) [OF core 2(3)] by simp
  next
    case (Promote r0)
    obtain m2 ws where w: "take_waiting (block_hash blk) m1 = (m2, ws)" by fastforce
    have p: "orphan_pool m1 = orphan_pool m" using apply_core_pool(2) [OF core 2(3) Promote] .
    obtain c where pf: "promote_fuel n X ws 0 m2 = Ret (m', c)"
      using 2(2) core Promote w by (auto split: outcome.splits)
    have "base_ok m' \<and> pool_total (orphan_pool m') \<le> pool_total (orphan_pool m2) + length ws"
      by (rule 2(1) [OF core refl Promote w [symmetric] pf take_waiting_pool(1) [OF w base]])
    then show ?thesis using take_waiting_pool(2) [OF w base] p by simp
  qed
next
  case (3 n X c m)
  then show ?case by simp
next
  case (4 n X e ws c m)
  obtain m1 r1 where a: "apply_fuel n X (fst e) (Some (snd (snd e))) (forget_orphan (fst e) m) = Ret (m1, r1)"
    using 4(3) by (auto split: outcome.splits)
  have one: "base_ok m1 \<and> pool_total (orphan_pool m1) \<le> Suc (pool_total (orphan_pool m))"
    using 4(1) [OF a] 4(4) by simp
  have "promote_fuel n X ws (if is_accepted r1 then c + 1 else c) m1 = Ret (m', c')"
    using 4(3) a by simp
  then have "base_ok m' \<and> pool_total (orphan_pool m') \<le> pool_total (orphan_pool m1) + length ws"
    using 4(2) [OF a refl] one by blast
  then show ?case using one by simp
qed

section \<open>Fuel beyond the pool changes nothing\<close>

lemma fuel_enough:
  "base_ok m \<Longrightarrow> pool_total (orphan_pool m) < n \<Longrightarrow> apply_fuel (n + k) X blk src m = apply_fuel n X blk src m"
  "base_ok m \<Longrightarrow> pool_total (orphan_pool m) + length ws \<le> n \<Longrightarrow>
     promote_fuel (n + k) X ws c m = promote_fuel n X ws c m"
proof (induction n X blk src m and n X ws c m rule: apply_fuel_promote_fuel.induct)
  case (1 X blk src m)
  then show ?case by simp
next
  case (2 n X blk src m)
  show ?case
  proof (cases "apply_core X blk src m")
    case (Ret p)
    obtain m1 st where core: "apply_core X blk src m = Ret (m1, st)" using Ret by (cases p) auto
    have base: "base_ok m1" using core 2(2) by (rule apply_core_base)
    show ?thesis
    proof (cases st)
      case (Final r)
      then show ?thesis using core by simp
    next
      case (Promote r)
      obtain m2 ws where w: "take_waiting (block_hash blk) m1 = (m2, ws)" by fastforce
      have "pool_total (orphan_pool m2) + length ws \<le> n"
        using take_waiting_pool(2) [OF w base] apply_core_pool(2) [OF core 2(2) Promote] 2(3) by simp
      then have "promote_fuel (n + k) X ws 0 m2 = promote_fuel n X ws 0 m2"
        using 2(1) [OF core refl Promote w [symmetric] take_waiting_pool(1) [OF w base]] by simp
      then show ?thesis using core Promote w by simp
    qed
  qed simp_all
next
  case (3 n X c m)
  then show ?case by simp
next
  case (4 n X e ws c m)
  have a: "apply_fuel (n + k) X (fst e) (Some (snd (snd e))) (forget_orphan (fst e) m)
      = apply_fuel n X (fst e) (Some (snd (snd e))) (forget_orphan (fst e) m)"
    using 4 by simp
  show ?case
  proof (cases "apply_fuel n X (fst e) (Some (snd (snd e))) (forget_orphan (fst e) m)")
    case (Ret p)
    obtain m1 r1 where r: "apply_fuel n X (fst e) (Some (snd (snd e))) (forget_orphan (fst e) m) = Ret (m1, r1)"
      using Ret by (cases p) auto
    have "base_ok m1 \<and> pool_total (orphan_pool m1) \<le> Suc (pool_total (orphan_pool m))"
      using fuel_pool(1) [OF r] 4(3) by simp
    then have "promote_fuel (n + k) X ws (if is_accepted r1 then c + 1 else c) m1
        = promote_fuel n X ws (if is_accepted r1 then c + 1 else c) m1"
      using 4(2) [OF r refl] 4(4) by simp
    then show ?thesis using a r by simp
  qed (use a in simp_all)
qed

lemma apply_block_fuel:
  assumes "base_ok m" "pool_total (orphan_pool m) < n"
  shows "apply_fuel n X blk src m = apply_block X blk src m"
proof -
  obtain k where "n = Suc (pool_total (orphan_pool m)) + k" using assms(2) less_iff_Suc_add by auto
  then show ?thesis using fuel_enough(1) [OF assms(1), of "Suc (pool_total (orphan_pool m))" k X blk src]
    by (simp add: apply_block_def del: apply_fuel.simps)
qed

section \<open>The recursion of the code\<close>

lemma apply_block_unfold:
  assumes "base_ok m"
  shows "apply_block X blk src m =
    (case apply_core X blk src m of
        Panic \<Rightarrow> Panic
      | OutOfFuel \<Rightarrow> OutOfFuel
      | Ret (m1, Final r) \<Rightarrow> Ret (m1, r)
      | Ret (m1, Promote r) \<Rightarrow>
          (case process_orphans X (block_hash blk) m1 of
             Panic \<Rightarrow> Panic
           | OutOfFuel \<Rightarrow> OutOfFuel
           | Ret (m2, _) \<Rightarrow> Ret (m2, r)))"
proof (cases "apply_core X blk src m")
  case (Ret p)
  obtain m1 st where core: "apply_core X blk src m = Ret (m1, st)" using Ret by (cases p) auto
  show ?thesis
  proof (cases st)
    case (Final r)
    then show ?thesis using core by (simp add: apply_block_def)
  next
    case (Promote r)
    have "orphan_pool m1 = orphan_pool m" using apply_core_pool(2) [OF core assms Promote] .
    then show ?thesis using core Promote
      by (simp add: apply_block_def process_orphans_def split: prod.split)
  qed
qed (simp_all add: apply_block_def)

lemma promote_fuel_unfold:
  assumes "base_ok m" "pool_total (orphan_pool m) + length (e # ws) \<le> n"
  shows "promote_fuel n X (e # ws) c m =
    (case apply_block X (fst e) (Some (snd (snd e))) (forget_orphan (fst e) m) of
        Panic \<Rightarrow> Panic
      | OutOfFuel \<Rightarrow> OutOfFuel
      | Ret (m1, r) \<Rightarrow> promote_fuel n X ws (if is_accepted r then c + 1 else c) m1)"
  using apply_block_fuel [of "forget_orphan (fst e) m" n X "fst e" "Some (snd (snd e))"] assms by simp

section \<open>The recursion without fuel\<close>

text \<open>What one call of \<open>apply_block\<close>, and one run of the loop of \<open>process_orphans\<close> over
  the orphans it took, come to in the code: a derivation of any finite depth. A call that never
  ends has none.\<close>

inductive applies ::
    "('db, 'x) ext_scheme \<Rightarrow> block \<Rightarrow> string option \<Rightarrow> 'db machine \<Rightarrow> ('db machine \<times> accept_result) outcome \<Rightarrow> bool"
  and promotes ::
    "('db, 'x) ext_scheme \<Rightarrow> orphan_entry list \<Rightarrow> nat \<Rightarrow> 'db machine \<Rightarrow> ('db machine \<times> nat) outcome \<Rightarrow> bool"
  for X :: "('db, 'x) ext_scheme" where
  ends: "apply_core X blk src m = Ret (m1, Final r) \<Longrightarrow> applies X blk src m (Ret (m1, r))"
| panics: "apply_core X blk src m = Panic \<Longrightarrow> applies X blk src m Panic"
| recurses: "apply_core X blk src m = Ret (m1, Promote r) \<Longrightarrow>
     take_waiting (block_hash blk) m1 = (m2, waiting) \<Longrightarrow> promotes X waiting 0 m2 (Ret (m3, promoted)) \<Longrightarrow>
     applies X blk src m (Ret (m3, r))"
| recurses_panics: "apply_core X blk src m = Ret (m1, Promote r) \<Longrightarrow>
     take_waiting (block_hash blk) m1 = (m2, waiting) \<Longrightarrow> promotes X waiting 0 m2 Panic \<Longrightarrow>
     applies X blk src m Panic"
| all_promoted: "promotes X [] promoted m (Ret (m, promoted))"
| next_waiting: "applies X (fst e) (Some (snd (snd e))) (forget_orphan (fst e) m) (Ret (m1, r)) \<Longrightarrow>
     promotes X waiting (if is_accepted r then promoted + 1 else promoted) m1 out \<Longrightarrow>
     promotes X (e # waiting) promoted m out"
| waiting_panics: "applies X (fst e) (Some (snd (snd e))) (forget_orphan (fst e) m) Panic \<Longrightarrow>
     promotes X (e # waiting) promoted m Panic"

text \<open>What some fuel computes has a derivation.\<close>

lemma fuel_applies:
  "out \<noteq> OutOfFuel \<Longrightarrow> apply_fuel n X blk src m = out \<Longrightarrow> applies X blk src m out"
  "out' \<noteq> OutOfFuel \<Longrightarrow> promote_fuel n X ws c m = out' \<Longrightarrow> promotes X ws c m out'"
proof (induction n X blk src m and n X ws c m arbitrary: out and out' rule: apply_fuel_promote_fuel.induct)
  case (2 n X blk src m)
  show ?case
  proof (cases "apply_core X blk src m")
    case Panic
    then show ?thesis using 2(3) panics by auto
  next
    case OutOfFuel
    then show ?thesis using 2(2,3) by simp
  next
    case (Ret p)
    obtain m1 st where core: "apply_core X blk src m = Ret (m1, st)" using Ret by (cases p) auto
    show ?thesis
    proof (cases st)
      case (Final r)
      then show ?thesis using core 2(3) ends by auto
    next
      case (Promote r)
      obtain m2 ws where w: "take_waiting (block_hash blk) m1 = (m2, ws)" by fastforce
      note c = core [unfolded Promote]
      note ih = 2(1) [OF core refl Promote w [symmetric]]
      show ?thesis using 2(2,3) c w ih recurses [OF c w] recurses_panics [OF c w]
        by (cases "promote_fuel n X ws 0 m2") auto
    qed
  qed
next
  case (4 n X e ws c m)
  show ?case
  proof (cases "apply_fuel n X (fst e) (Some (snd (snd e))) (forget_orphan (fst e) m)")
    case (Ret p)
    then obtain m1 r where r: "apply_fuel n X (fst e) (Some (snd (snd e))) (forget_orphan (fst e) m) = Ret (m1, r)"
      by (cases p) auto
    then show ?thesis using 4(1) [OF _ r] 4(2) [OF r refl 4(3)] 4(4) next_waiting by simp
  next
    case Panic
    then show ?thesis using 4(1) [OF _ Panic] 4(4) waiting_panics [of X e m ws c] by simp
  qed (use 4(3,4) in simp)
qed (auto intro: all_promoted)

text \<open>Whatever has a derivation, the fuel taken from the pool computes.\<close>

lemma applies_fuel:
  "applies X blk src m out \<Longrightarrow> base_ok m \<Longrightarrow> apply_block X blk src m = out"
  "promotes X ws c m out' \<Longrightarrow> base_ok m \<Longrightarrow> pool_total (orphan_pool m) + length ws \<le> n \<Longrightarrow>
     promote_fuel n X ws c m = out'"
proof (induction arbitrary: and n rule: applies_promotes.inducts)
  case (recurses blk src m m1 r m2 ws m3 k)
  note base = apply_core_base [OF recurses.IH(1) recurses.prems(1)]
  have "process_orphans X (block_hash blk) m1 = Ret (m3, k)"
    using recurses.IH(3) [OF take_waiting_pool(1) [OF recurses.hyps base]] take_waiting_pool(2) [OF recurses.hyps base]
    by (simp add: process_orphans_def recurses.hyps)
  then show ?case by (simp add: apply_block_unfold [OF recurses.prems(1)] recurses.IH(1))
next
  case (recurses_panics blk src m m1 r m2 ws)
  note base = apply_core_base [OF recurses_panics.IH(1) recurses_panics.prems(1)]
  have "process_orphans X (block_hash blk) m1 = Panic"
    using recurses_panics.IH(3) [OF take_waiting_pool(1) [OF recurses_panics.hyps base]]
      take_waiting_pool(2) [OF recurses_panics.hyps base]
    by (simp add: process_orphans_def recurses_panics.hyps)
  then show ?case by (simp add: apply_block_unfold [OF recurses_panics.prems(1)] recurses_panics.IH(1))
next
  case (next_waiting e m m1 r ws c out)
  have a: "apply_block X (fst e) (Some (snd (snd e))) (forget_orphan (fst e) m) = Ret (m1, r)"
    using next_waiting.IH(2) next_waiting.prems by simp
  have "base_ok m1 \<and> pool_total (orphan_pool m1) \<le> Suc (pool_total (orphan_pool m))"
    using fuel_pool(1) [OF a [unfolded apply_block_def]] next_waiting.prems(1) by simp
  then show ?case
    using next_waiting.IH(4) [of n] next_waiting.prems(2) a by (simp add: promote_fuel_unfold [OF next_waiting.prems] del: promote_fuel.simps)
next
  case (waiting_panics e m ws c)
  then show ?case by (simp add: promote_fuel_unfold del: promote_fuel.simps)
qed (simp_all add: apply_block_unfold)

lemma applies_not_out: "\<not> applies X blk src m OutOfFuel" "\<not> promotes X ws c m OutOfFuel"
proof -
  have "applies X blk src m out \<Longrightarrow> out \<noteq> OutOfFuel" "promotes X ws c m out' \<Longrightarrow> out' \<noteq> OutOfFuel"
    for out out'
    by (induction rule: applies_promotes.inducts) auto
  then show "\<not> applies X blk src m OutOfFuel" "\<not> promotes X ws c m OutOfFuel" by blast+
qed

lemma apply_block_applies:
  assumes "base_ok m"
  shows "apply_block X blk src m = out \<and> out \<noteq> OutOfFuel \<longleftrightarrow> applies X blk src m out"
  using fuel_applies(1) applies_fuel(1) [OF _ assms] applies_not_out(1) by (metis apply_block_def)

section \<open>Lifting invariants\<close>

locale accept_invariant =
  fixes X :: "('db, 'x) ext_scheme"
    and Inv :: "'db machine \<Rightarrow> bool"
    and good :: "block \<Rightarrow> bool"
  assumes core: "Inv m \<Longrightarrow> good blk \<Longrightarrow> apply_core X blk src m = Ret (m', st) \<Longrightarrow> Inv m'"
    and waiting: "Inv m \<Longrightarrow> take_waiting h m = (m', ws) \<Longrightarrow> Inv m' \<and> (\<forall>e\<in>set ws. good (fst e))"
    and forget: "Inv m \<Longrightarrow> Inv (forget_orphan b m)"
begin

lemma fuel_inv_aux:
  "apply_fuel n Y blk src m = Ret (m', r) \<Longrightarrow> Inv m \<Longrightarrow> good blk \<Longrightarrow> Y = X \<Longrightarrow> Inv m'"
  "promote_fuel n Y ws c m = Ret (m', c') \<Longrightarrow> Inv m \<Longrightarrow> \<forall>e\<in>set ws. good (fst e) \<Longrightarrow> Y = X \<Longrightarrow> Inv m'"
proof (induction n Y blk src m and n Y ws c m arbitrary: m' r and m' c' rule: apply_fuel_promote_fuel.induct)
  case (1 Y blk src m)
  then show ?case by simp
next
  case (2 n Y blk src m)
  obtain m1 st where c: "apply_core Y blk src m = Ret (m1, st)"
    using 2(2) by (auto split: outcome.splits)
  have inv: "Inv m1" using core [OF 2(3,4)] c 2(5) by blast
  show ?case
  proof (cases st)
    case (Final r0)
    then show ?thesis using 2(2) c inv by simp
  next
    case (Promote r0)
    obtain m2 ws where w: "take_waiting (block_hash blk) m1 = (m2, ws)" by fastforce
    obtain k where pf: "promote_fuel n Y ws 0 m2 = Ret (m', k)"
      using 2(2) c Promote w by (auto split: outcome.splits)
    show ?thesis using waiting [OF inv w] 2(5)
      by (intro 2(1) [OF c refl Promote w [symmetric] pf]) simp_all
  qed
next
  case (3 n Y c m)
  then show ?case by simp
next
  case (4 n Y e ws c m)
  obtain m1 r1 where a: "apply_fuel n Y (fst e) (Some (snd (snd e))) (forget_orphan (fst e) m) = Ret (m1, r1)"
    using 4(3) by (auto split: outcome.splits)
  have one: "Inv m1" using 4(1) [OF a forget [OF 4(4)]] 4(5,6) by simp
  have "promote_fuel n Y ws (if is_accepted r1 then c + 1 else c) m1 = Ret (m', c')"
    using 4(3) a by simp
  then show ?case using 4(2) [OF a refl] one 4(5,6) by simp
qed

lemmas fuel_inv = fuel_inv_aux [OF _ _ _ refl]

lemma apply_block_inv: "apply_block X blk src m = Ret (m', r) \<Longrightarrow> Inv m \<Longrightarrow> good blk \<Longrightarrow> Inv m'"
  unfolding apply_block_def by (rule fuel_inv(1))

lemma process_orphans_inv: "process_orphans X h m = Ret (m', c) \<Longrightarrow> Inv m \<Longrightarrow> Inv m'"
  using fuel_inv(2) waiting by (fastforce simp: process_orphans_def split: prod.splits)

end

text \<open>Where one pass always returns, so does the recursion.\<close>

locale accept_total = accept_invariant +
  assumes returns: "Inv m \<Longrightarrow> good blk \<Longrightarrow> \<exists>m' st. apply_core X blk src m = Ret (m', st)"
    and base: "Inv m \<Longrightarrow> base_ok m"
begin

lemma fuel_returns_aux:
  "Inv m \<Longrightarrow> good blk \<Longrightarrow> pool_total (orphan_pool m) < n \<Longrightarrow> Y = X \<Longrightarrow>
     \<exists>m' r. apply_fuel n Y blk src m = Ret (m', r)"
  "Inv m \<Longrightarrow> \<forall>e\<in>set ws. good (fst e) \<Longrightarrow> pool_total (orphan_pool m) + length ws \<le> n \<Longrightarrow> Y = X \<Longrightarrow>
     \<exists>m' c'. promote_fuel n Y ws c m = Ret (m', c')"
proof (induction n Y blk src m and n Y ws c m rule: apply_fuel_promote_fuel.induct)
  case (1 Y blk src m)
  then show ?case by simp
next
  case (2 n Y blk src m)
  obtain m1 st where c: "apply_core Y blk src m = Ret (m1, st)" using returns [OF 2(2,3)] 2(5) by blast
  have inv: "Inv m1" using core [OF 2(2,3)] c 2(5) by blast
  show ?case
  proof (cases st)
    case (Final r0)
    then show ?thesis using c by simp
  next
    case (Promote r0)
    obtain m2 ws where w: "take_waiting (block_hash blk) m1 = (m2, ws)" by fastforce
    have "pool_total (orphan_pool m2) + length ws \<le> n"
      using take_waiting_pool(2) [OF w base [OF inv]] apply_core_pool(2) [OF c base [OF 2(2)] Promote] 2(4)
      by simp
    then obtain m3 k where "promote_fuel n Y ws 0 m2 = Ret (m3, k)"
      using 2(1) [OF c refl Promote w [symmetric]] waiting [OF inv w] 2(5) by blast
    then show ?thesis using c Promote w by simp
  qed
next
  case (3 n Y c m)
  then show ?case by simp
next
  case (4 n Y e ws c m)
  have inv: "Inv (forget_orphan (fst e) m)" using forget [OF 4(3)] .
  obtain m1 r1 where a: "apply_fuel n Y (fst e) (Some (snd (snd e))) (forget_orphan (fst e) m) = Ret (m1, r1)"
    using 4(1) [OF inv] 4(4,5,6) by auto
  have "Inv m1" using fuel_inv_aux(1) [OF a inv] 4(4,6) by simp
  moreover have "pool_total (orphan_pool m1) \<le> Suc (pool_total (orphan_pool m))"
    using fuel_pool(1) [OF a] base [OF inv] by simp
  ultimately show ?case using 4(2) [OF a refl] 4(4,5,6) a by simp
qed

lemma apply_block_returns: "Inv m \<Longrightarrow> good blk \<Longrightarrow> \<exists>m' r. apply_block X blk src m = Ret (m', r)"
  unfolding apply_block_def by (rule fuel_returns_aux(1)) simp_all

end

end
