(* ===== verification/Chain_Invariant.thy ===== *)
theory Chain_Invariant
  imports Accept_Fuel
begin

text \<open>
  The invariant of the chain. It holds for blocks whose height is honest: one more than the
  height of the block their parent hash names, as the function \<open>ht\<close> from hashes to heights says.
  The pipeline never compares a block's height with its parent's, so this is an assumption on the
  blocks that arrive and not something the code establishes. Under it the canonical blocks form a
  hash-linked list indexed by height, the index, the side blocks and the recorded work agree with
  it, the account state is the replay of that list, and no pass panics or diverges.
\<close>

definition honest :: "(string \<Rightarrow> nat) \<Rightarrow> block \<Rightarrow> bool" where
  "honest ht b \<longleftrightarrow> unat (number (header b)) = ht (block_hash b) \<and> ht (block_hash b) < 2 ^ 64 - 1
     \<and> (number (header b) \<noteq> 0 \<longrightarrow> ht (block_hash b) = Suc (ht (parent_hash (header b))))"

section \<open>The parts\<close>

definition linked :: "block list \<Rightarrow> bool" where
  "linked bs \<longleftrightarrow> bs \<noteq> [] \<and> hd bs = genesis_block
     \<and> (\<forall>i. Suc i < length bs \<longrightarrow> parent_hash (header (bs ! Suc i)) = block_hash (bs ! i)
          \<and> number (header (bs ! Suc i)) \<noteq> 0)"

definition height_index :: "block list \<Rightarrow> string \<Rightarrow> u64 option" where
  "height_index bs = map_of (map (\<lambda>b. (block_hash b, number (header b))) bs)"

definition block_index :: "block list \<Rightarrow> string \<Rightarrow> block option" where
  "block_index bs = map_of (map (\<lambda>b. (block_hash b, b)) bs)"

text \<open>Every block the node holds, by hash.\<close>

definition known :: "('db, 'm) chain_state_scheme \<Rightarrow> string \<Rightarrow> block option" where
  "known g h = (case block_index (blocks g) h of Some b \<Rightarrow> Some b | None \<Rightarrow> bt_lookup (side_blocks g) h)"

definition index_ok :: "('db, 'm) chain_state_scheme \<Rightarrow> bool" where
  "index_ok g \<longleftrightarrow> distinct (map block_hash (blocks g)) \<and> canon_index g = height_index (blocks g)"

definition side_ok :: "('db, 'm) chain_state_scheme \<Rightarrow> bool" where
  "side_ok g \<longleftrightarrow> bt_wf (side_blocks g)
     \<and> (\<forall>h b. bt_lookup (side_blocks g) h = Some b \<longrightarrow>
          h \<notin> block_hash ` set (blocks g) \<and> number (header b) \<noteq> 0)"

definition known_ok :: "(string \<Rightarrow> nat) \<Rightarrow> ('db, 'm) chain_state_scheme \<Rightarrow> bool" where
  "known_ok ht g \<longleftrightarrow> (\<forall>h b. known g h = Some b \<longrightarrow> block_hash b = h \<and> honest ht b
     \<and> (number (header b) \<noteq> 0 \<longrightarrow> known g (parent_hash (header b)) \<noteq> None)
     \<and> (\<exists>w. cumulative_work g h = Some w
         \<and> unat w = (if number (header b) = 0 then 0 else unat (work_at g (parent_hash (header b))))
             + unat (difficulty (header b))))"

definition seen_ok :: "('db, 'm) chain_state_scheme \<Rightarrow> bool" where
  "seen_ok g \<longleftrightarrow> (\<forall>h. known g h \<noteq> None \<longrightarrow> h \<in> seen_blocks g)"

definition pool_blocks :: "(string, orphan_entry list) btree \<Rightarrow> block set" where
  "pool_blocks p = (\<Union>e\<in>set p. fst ` set (snd e))"

definition ledger_ok :: "('db, 'x) ext_scheme \<Rightarrow> ('db, 'm) chain_state_scheme \<Rightarrow> bool" where
  "ledger_ok X g \<longleftrightarrow> replay_checked_all X tx_execution_state_new (blocks g) = Inr (account_state g)"

definition chain_inv :: "('db, 'x) ext_scheme \<Rightarrow> (string \<Rightarrow> nat) \<Rightarrow> 'db machine \<Rightarrow> bool" where
  "chain_inv X ht m \<longleftrightarrow> base_ok m \<and> linked (blocks m) \<and> index_ok m \<and> side_ok m \<and> known_ok ht m
     \<and> seen_ok m \<and> (\<forall>b\<in>pool_blocks (orphan_pool m). honest ht b) \<and> ledger_ok X m"

section \<open>Consequences\<close>

lemma block_index_Some: "block_index bs h = Some b \<Longrightarrow> b \<in> set bs \<and> block_hash b = h"
  unfolding block_index_def by (drule map_of_SomeD) auto

lemma block_index_None: "block_index bs h = None \<longleftrightarrow> h \<notin> block_hash ` set bs"
  by (auto simp: block_index_def map_of_eq_None_iff image_iff)

lemma block_index_nth:
  "distinct (map block_hash bs) \<Longrightarrow> i < length bs \<Longrightarrow> block_index bs (block_hash (bs ! i)) = Some (bs ! i)"
  unfolding block_index_def by (rule map_of_is_SomeI) (auto simp: o_def)

lemma height_index_block_index: "height_index bs h = map_option (\<lambda>b. number (header b)) (block_index bs h)"
  by (induction bs) (auto simp: height_index_def block_index_def)

lemma block_index_append:
  "block_index (as @ bs) h = (case block_index as h of Some b \<Rightarrow> Some b | None \<Rightarrow> block_index bs h)"
  by (simp add: block_index_def map_add_def split: option.split)

lemma known_cong: "blocks g' = blocks g \<Longrightarrow> side_blocks g' = side_blocks g \<Longrightarrow> known g' = known g"
  unfolding known_def fun_eq_iff by (simp only: simp_thms)

lemma known_same_chain: "same_chain m m' \<Longrightarrow> known m' = known m"
  unfolding known_def fun_eq_iff by (simp only: same_chainD simp_thms)

lemma known_canonical: "b \<in> set (blocks g) \<Longrightarrow> index_ok g \<Longrightarrow> known g (block_hash b) = Some b"
  using block_index_nth [of "blocks g"] by (auto simp: known_def index_ok_def in_set_conv_nth)

lemma linked_heights:
  assumes l: "linked bs" and h: "\<forall>b\<in>set bs. honest ht b" and i: "i < length bs"
  shows "unat (number (header (bs ! i))) = i"
  using i
proof (induction i)
  case 0
  then show ?case using l by (simp add: linked_def hd_conv_nth)
next
  case (Suc i)
  have p: "parent_hash (header (bs ! Suc i)) = block_hash (bs ! i)" "number (header (bs ! Suc i)) \<noteq> 0"
    using l Suc.prems by (simp_all add: linked_def)
  have "honest ht (bs ! Suc i)" "honest ht (bs ! i)" using h Suc.prems by simp_all
  then show ?case using p Suc by (simp add: honest_def)
qed

lemma chain_inv_honest: "chain_inv X ht m \<Longrightarrow> \<forall>b\<in>set (blocks m). honest ht b"
  using known_canonical unfolding chain_inv_def known_ok_def by blast

lemma chain_heights: "chain_inv X ht m \<Longrightarrow> i < length (blocks m) \<Longrightarrow> unat (number (header (blocks m ! i))) = i"
  using linked_heights [OF _ chain_inv_honest] by (auto simp: chain_inv_def)

lemma chain_length: "chain_inv X ht m \<Longrightarrow> length (blocks m) < 2 ^ 64"
proof -
  assume inv: "chain_inv X ht m"
  then have ne: "blocks m \<noteq> []" by (simp add: chain_inv_def linked_def)
  then have "honest ht (last (blocks m))" using chain_inv_honest [OF inv] by simp
  moreover have "unat (number (header (last (blocks m)))) = length (blocks m) - 1"
    using chain_heights [OF inv, of "length (blocks m) - 1"] ne by (simp add: last_conv_nth)
  ultimately show ?thesis unfolding honest_def by linarith
qed

text \<open>The lookup of the code finds every known block: the index is never out of range.\<close>

lemma canon_index_Some:
  assumes inv: "chain_inv X ht m" and c: "canon_index m h = Some n"
  shows "unat n < length (blocks m) \<and> block_hash (blocks m ! unat n) = h"
proof -
  obtain b where b: "block_index (blocks m) h = Some b" "n = number (header b)"
    using c inv by (auto simp: chain_inv_def index_ok_def height_index_block_index)
  then obtain i where i: "i < length (blocks m)" "b = blocks m ! i"
    using block_index_Some by (metis in_set_conv_nth)
  then show ?thesis using chain_heights [OF inv i(1)] b block_index_Some by auto
qed

lemma resolve_known: "chain_inv X ht m \<Longrightarrow> resolve_block m h = known m h"
proof (cases "canon_index m h")
  case None
  assume inv: "chain_inv X ht m"
  then have "block_index (blocks m) h = None"
    using None by (simp add: chain_inv_def index_ok_def height_index_block_index)
  then show ?thesis using None by (simp add: resolve_block_def known_def)
next
  case (Some n)
  assume inv: "chain_inv X ht m"
  then have d: "distinct (map block_hash (blocks m))" by (simp add: chain_inv_def index_ok_def)
  have n: "unat n < length (blocks m)" "block_hash (blocks m ! unat n) = h"
    using canon_index_Some [OF inv Some] by auto
  then have "block_index (blocks m) h = Some (blocks m ! unat n)"
    using block_index_nth [OF d n(1)] by simp
  then show ?thesis using Some n by (simp add: resolve_block_def known_def block_at_def)
qed

lemma known_iff:
  "chain_inv X ht m \<Longrightarrow> known m h = None \<longleftrightarrow> canon_index m h = None \<and> bt_lookup (side_blocks m) h = None"
  by (auto simp: chain_inv_def index_ok_def height_index_block_index known_def split: option.split)

text \<open>Work is at most height plus one times the largest difficulty, so it never wraps.\<close>

lemma known_work_bound:
  "known_ok ht g \<Longrightarrow> known g h = Some b \<Longrightarrow> unat (work_at g h) \<le> Suc (ht h) * (2 ^ 64 - 1)"
proof (induction "ht h" arbitrary: h b rule: less_induct)
  case less
  from less.prems obtain w where b: "block_hash b = h" "honest ht b"
      "number (header b) \<noteq> 0 \<longrightarrow> known g (parent_hash (header b)) \<noteq> None"
    and w: "cumulative_work g h = Some w"
      "unat w = (if number (header b) = 0 then 0 else unat (work_at g (parent_hash (header b))))
             + unat (difficulty (header b))"
    unfolding known_ok_def by blast
  have d: "unat (difficulty (header b)) \<le> 2 ^ 64 - 1" by (rule u64_le)
  have wa: "work_at g h = w" using w(1) by (simp add: work_at_def)
  show ?case
  proof (cases "number (header b) = 0")
    case True
    then show ?thesis using w(2) d by (simp add: wa)
  next
    case False
    then obtain p where p: "known g (parent_hash (header b)) = Some p" using b(3) by auto
    have h: "ht h = Suc (ht (parent_hash (header b)))" using b(1,2) False by (auto simp: honest_def)
    then have "unat (work_at g (parent_hash (header b))) \<le> Suc (ht (parent_hash (header b))) * (2 ^ 64 - 1)"
      using less.hyps [OF _ less.prems(1) p] by simp
    then show ?thesis using w(2) d False by (simp add: wa h)
  qed
qed

lemma candidate_work_sum:
  assumes ok: "known_ok ht g" and p: "known g (parent_hash (header b)) = Some p" and h: "honest ht b"
    and n: "number (header b) \<noteq> 0"
  shows "unat (candidate_work g b) = unat (work_at g (parent_hash (header b))) + unat (difficulty (header b))"
proof -
  let ?d = "unat (difficulty (header b))" and ?w = "unat (work_at g (parent_hash (header b)))"
  have d: "?d \<le> 2 ^ 64 - 1" by (rule u64_le)
  have hb: "ht (block_hash b) = Suc (ht (parent_hash (header b)))" "ht (block_hash b) < 2 ^ 64 - 1"
    using h n by (simp_all add: honest_def)
  have "?w \<le> Suc (ht (parent_hash (header b))) * (2 ^ 64 - 1)" using ok p by (rule known_work_bound)
  also have "\<dots> \<le> (2 ^ 64 - 1) * (2 ^ 64 - 1)" using hb by (intro mult_right_mono) simp_all
  finally have "?w + ?d \<le> (2 ^ 64 - 1) * (2 ^ 64 - 1) + (2 ^ 64 - 1)" using d by linarith
  then have "?w + unat (ucast (difficulty (header b)) :: u128) < 2 ^ 128"
    by (simp add: unat_ucast_u64_u128)
  then have "unat (candidate_work g b) = ?w + unat (ucast (difficulty (header b)) :: u128)"
    unfolding candidate_work_def by (intro unat_plus_small) simp
  then show ?thesis by (simp add: unat_ucast_u64_u128)
qed

lemma chain_inv_same:
  assumes sc: "same_chain m m'" and inv: "chain_inv X ht m" and dc: "dc_ok (ds_cache m')"
  shows "chain_inv X ht m'"
  using inv dc
  unfolding chain_inv_def base_ok_def index_ok_def side_ok_def known_ok_def seen_ok_def ledger_ok_def
    same_chainD [OF sc] same_chain_queries [OF sc] known_same_chain [OF sc]
  by simp

section \<open>A fresh block\<close>

lemma known_ok_add:
  assumes ok: "known_ok ht g" and b: "honest ht b" "number (header b) \<noteq> 0"
    and fresh: "known g (block_hash b) = None" and p: "known g (parent_hash (header b)) = Some p"
    and k: "known g' = (known g)(block_hash b \<mapsto> b)"
    and w: "cumulative_work g' = (cumulative_work g)(block_hash b \<mapsto> candidate_work g b)"
  shows "known_ok ht g'"
proof -
  have wat: "work_at g' h = work_at g h" if "known g h \<noteq> None" for h
    using that fresh w by (auto simp: work_at_def)
  show ?thesis unfolding known_ok_def
  proof (intro allI impI)
    fix h c assume c: "known g' h = Some c"
    show "block_hash c = h \<and> honest ht c
       \<and> (number (header c) \<noteq> 0 \<longrightarrow> known g' (parent_hash (header c)) \<noteq> None)
       \<and> (\<exists>w. cumulative_work g' h = Some w
           \<and> unat w = (if number (header c) = 0 then 0 else unat (work_at g' (parent_hash (header c))))
               + unat (difficulty (header c)))"
    proof (cases "h = block_hash b")
      case True
      then have "c = b" using c k by simp
      then show ?thesis
        using True b p k w wat [of "parent_hash (header b)"] candidate_work_sum [OF ok p b] by auto
    next
      case False
      then have "known g h = Some c" using c k by simp
      then have "block_hash c = h \<and> honest ht c
       \<and> (number (header c) \<noteq> 0 \<longrightarrow> known g (parent_hash (header c)) \<noteq> None)
       \<and> (\<exists>w. cumulative_work g h = Some w
           \<and> unat w = (if number (header c) = 0 then 0 else unat (work_at g (parent_hash (header c))))
               + unat (difficulty (header c)))"
        using ok unfolding known_ok_def by blast
      then show ?thesis using False k w wat [of "parent_hash (header c)"] by auto
    qed
  qed
qed

lemma replay_checked_all_append:
  "replay_checked_all X s (as @ bs) =
     (case replay_checked_all X s as of Inl e \<Rightarrow> Inl e | Inr s' \<Rightarrow> replay_checked_all X s' bs)"
  by (induction as arbitrary: s) (auto split: sum.splits)

lemma execute_candidate_replay: "execute_candidate X s blk = Inr s' \<Longrightarrow> replay_checked X s blk = Inr s'"
  by (auto simp: execute_candidate_def replay_checked_def split: prod.splits sum.splits if_splits)

lemma replay_checked_replay: "replay_checked X s b = Inr s' \<Longrightarrow> replay_block X s b = Inr s'"
  by (auto simp: replay_checked_def replay_block_def execute_non_coinbase_txs_def
      split: prod.splits sum.splits if_splits)

lemma replay_checked_all_replay: "replay_checked_all X s bs = Inr s' \<Longrightarrow> replay_blocks X s bs = Inr s'"
  by (induction bs arbitrary: s) (auto split: sum.splits dest: replay_checked_replay)

lemma linked_snoc:
  assumes l: "linked bs" and b: "parent_hash (header b) = block_hash (last bs)" "number (header b) \<noteq> 0"
  shows "linked (bs @ [b])"
  unfolding linked_def
proof (intro conjI allI impI)
  have ne: "bs \<noteq> []" using l by (simp add: linked_def)
  then show "hd (bs @ [b]) = genesis_block" using l by (simp add: linked_def)
  fix i assume i: "Suc i < length (bs @ [b])"
  have "parent_hash (header ((bs @ [b]) ! Suc i)) = block_hash ((bs @ [b]) ! i)
      \<and> number (header ((bs @ [b]) ! Suc i)) \<noteq> 0"
  proof (cases "Suc i < length bs")
    case True
    then show ?thesis using l by (simp add: linked_def nth_append)
  next
    case False
    then have "Suc i = length bs" using i by simp
    then have "(bs @ [b]) ! Suc i = b" "(bs @ [b]) ! i = last bs"
      using ne by (auto simp: nth_append last_conv_nth) (metis diff_Suc_1 One_nat_def)
    then show ?thesis using b by simp
  qed
  then show "parent_hash (header ((bs @ [b]) ! Suc i)) = block_hash ((bs @ [b]) ! i)"
    "number (header ((bs @ [b]) ! Suc i)) \<noteq> 0" by simp_all
qed simp

lemma height_index_append:
  "height_index (as @ bs) h = (case height_index as h of Some n \<Rightarrow> Some n | None \<Rightarrow> height_index bs h)"
  by (simp add: height_index_def map_add_def split: option.split)

lemma height_index_snoc:
  assumes "block_hash b \<notin> block_hash ` set bs"
  shows "height_index (bs @ [b]) = (height_index bs)(block_hash b \<mapsto> number (header b))"
proof
  fix h
  have one: "height_index [b] = [block_hash b \<mapsto> number (header b)]" by (simp add: height_index_def)
  have "height_index bs (block_hash b) = None"
    using assms block_index_None [of bs "block_hash b"] by (simp add: height_index_block_index)
  then show "height_index (bs @ [b]) h = ((height_index bs)(block_hash b \<mapsto> number (header b))) h"
    by (auto simp: height_index_append one split: option.split)
qed

lemma passed_facts:
  assumes inv: "chain_inv X ht m" and p: "passed X blk m s"
  shows "known m (block_hash blk) = None" "number (header blk) \<noteq> 0"
    "\<exists>p. known m (parent_hash (header blk)) = Some p"
proof -
  have "block_hash blk \<notin> seen_blocks m"
    using p by (auto simp: passed_def structural_check_def Let_def split: if_splits)
  then show "known m (block_hash blk) = None" using inv unfolding chain_inv_def seen_ok_def by blast
  show "number (header blk) \<noteq> 0" using p by (simp add: passed_def)
  show "\<exists>p. known m (parent_hash (header blk)) = Some p"
    using p resolve_known [OF inv] by (auto simp: passed_def)
qed

lemma known_extend:
  "known g (block_hash b) = None \<Longrightarrow> known (extend_chain b cw s g) = (known g)(block_hash b \<mapsto> b)"
  by (auto simp: fun_eq_iff known_def extend_chain_def push_canonical_def block_index_append
      split: option.splits) (auto simp: block_index_def)

lemma known_record:
  "known g (block_hash b) = None \<Longrightarrow> known (record_side_block b cw g) = (known g)(block_hash b \<mapsto> b)"
  by (auto simp: fun_eq_iff known_def record_side_block_def split: option.splits)

lemma tip_hash_last: "blocks g \<noteq> [] \<Longrightarrow> tip_hash g = block_hash (last (blocks g))"
  by (simp add: tip_hash_def)

lemma chain_inv_extend:
  assumes inv: "chain_inv X ht m" and pass: "passed X blk m s" and h: "honest ht blk"
    and tip: "parent_hash (header blk) = tip_hash m"
  shows "chain_inv X ht (extend_chain blk (candidate_work m blk) s m)"
proof -
  let ?m = "extend_chain blk (candidate_work m blk) s m"
  note parts = inv [unfolded chain_inv_def]
  have ne: "blocks m \<noteq> []" using parts by (simp add: linked_def)
  have fresh: "known m (block_hash blk) = None" and n: "number (header blk) \<noteq> 0"
    using passed_facts [OF inv pass] by blast+
  obtain p where p: "known m (parent_hash (header blk)) = Some p" using passed_facts(3) [OF inv pass] by blast
  have bs: "blocks ?m = blocks m @ [blk]" by (simp add: extend_chain_def push_canonical_def)
  have notin: "block_hash blk \<notin> block_hash ` set (blocks m)"
    using fresh block_index_None [of "blocks m"] by (auto simp: known_def split: option.splits)
  have k: "known ?m = (known m)(block_hash blk \<mapsto> blk)" using fresh by (rule known_extend)
  have "base_ok ?m" using parts by (simp add: base_ok_def extend_chain_def push_canonical_def)
  moreover have "linked (blocks ?m)" unfolding bs
    using parts tip n tip_hash_last [OF ne] by (intro linked_snoc) simp_all
  moreover have "index_ok ?m"
    using parts notin by (simp add: index_ok_def extend_chain_def push_canonical_def height_index_snoc)
  moreover have "side_ok ?m"
    using parts fresh by (auto simp: side_ok_def extend_chain_def push_canonical_def known_def split: option.splits)
  moreover have "known_ok ht ?m"
    using parts by (intro known_ok_add [OF _ h n fresh p k]) (simp_all add: extend_chain_def push_canonical_def)
  moreover have "seen_ok ?m"
    using parts unfolding seen_ok_def k by (auto simp: extend_chain_def push_canonical_def)
  moreover have "\<forall>b\<in>pool_blocks (orphan_pool ?m). honest ht b"
    using parts by (simp add: extend_chain_def push_canonical_def)
  moreover have "ledger_ok X ?m"
  proof -
    have "execute_candidate X (account_state m) blk = Inr s"
      using pass tip by (auto simp: passed_def parent_state_def)
    then have "replay_checked X (account_state m) blk = Inr s" by (rule execute_candidate_replay)
    moreover have "account_state ?m = s"
      by (simp add: account_state_def extend_chain_def push_canonical_def)
    ultimately show ?thesis
      using parts unfolding ledger_ok_def bs by (simp add: replay_checked_all_append)
  qed
  ultimately show ?thesis by (simp add: chain_inv_def)
qed

lemma chain_inv_record:
  assumes inv: "chain_inv X ht m" and pass: "passed X blk m s" and h: "honest ht blk"
  shows "chain_inv X ht (record_side_block blk (candidate_work m blk) m)"
proof -
  let ?m = "record_side_block blk (candidate_work m blk) m"
  note parts = inv [unfolded chain_inv_def]
  have fresh: "known m (block_hash blk) = None" and n: "number (header blk) \<noteq> 0"
    using passed_facts [OF inv pass] by blast+
  obtain p where p: "known m (parent_hash (header blk)) = Some p" using passed_facts(3) [OF inv pass] by blast
  have notin: "block_hash blk \<notin> block_hash ` set (blocks m)"
    using fresh block_index_None [of "blocks m"] by (auto simp: known_def split: option.splits)
  have k: "known ?m = (known m)(block_hash blk \<mapsto> blk)" using fresh by (rule known_record)
  have "side_ok ?m" using parts notin n by (auto simp: side_ok_def record_side_block_def)
  moreover have "known_ok ht ?m"
    using parts by (intro known_ok_add [OF _ h n fresh p k]) (simp_all add: record_side_block_def)
  moreover have "seen_ok ?m"
    using parts unfolding seen_ok_def k by (auto simp: record_side_block_def)
  ultimately show ?thesis
    using parts by (simp add: chain_inv_def base_ok_def index_ok_def ledger_ok_def record_side_block_def
        account_state_def)
qed

end
