(* ===== verification/Reorg_Invariant.thy ===== *)
theory Reorg_Invariant
  imports Chain_Invariant
begin

text \<open>
  A reorg keeps the chain invariant. It moves blocks between the canonical list and the side
  blocks, so the set of known blocks and the recorded work stay what they were; the new account
  state is the replay of the new list.
\<close>

section \<open>The segment\<close>

fun side_path ::
  "(string \<Rightarrow> u64 option) \<Rightarrow> (string, block) btree \<Rightarrow> string \<Rightarrow> block list \<Rightarrow> string \<Rightarrow> bool" where
  "side_path canon side h [] c \<longleftrightarrow> h = c"
| "side_path canon side h (b # bs) c \<longleftrightarrow>
     canon h = None \<and> bt_lookup side h = Some b \<and> side_path canon side (parent_hash (header b)) bs c"

lemma walk_side_Ret:
  "walk_side n canon side acc h = Ret (acc', c, r) \<Longrightarrow>
     \<exists>path. acc' = acc @ path \<and> side_path canon side h path c \<and> canon c = r"
proof (induction n arbitrary: acc h)
  case 0
  then show ?case by simp
next
  case (Suc n)
  show ?case
  proof (cases "canon h")
    case (Some k)
    then show ?thesis using Suc.prems by (intro exI [of _ "[]"]) auto
  next
    case None
    show ?thesis
    proof (cases "bt_lookup side h")
      case side: None
      then show ?thesis using Suc.prems None by (intro exI [of _ "[]"]) auto
    next
      case (Some b)
      then have "walk_side n canon side (acc @ [b]) (parent_hash (header b)) = Ret (acc', c, r)"
        using Suc.prems None by simp
      from Suc.IH [OF this] obtain path where "acc' = (acc @ [b]) @ path"
        "side_path canon side (parent_hash (header b)) path c" "canon c = r" by blast
      then show ?thesis using None Some by (intro exI [of _ "b # path"]) simp
    qed
  qed
qed

lemma walk_side_stops: "walk_side n canon side acc h = Ret (acc', c, None) \<Longrightarrow> bt_lookup side c = None"
  by (induction n arbitrary: acc h) (auto split: option.splits)

lemma collect_new_segment_path:
  assumes "collect_new_segment g h = Ret seg" "seg \<noteq> []"
  shows "\<exists>path c n. seg = rev path \<and> side_path (canon_index g) (side_blocks g) h path c \<and> canon_index g c = Some n"
proof -
  obtain acc c r where w: "walk_side (walk_fuel (side_blocks g)) (canon_index g) (side_blocks g) [] h = Ret (acc, c, r)"
    and seg: "seg = (case r of Some _ \<Rightarrow> rev acc | None \<Rightarrow> [])"
    using assms(1) by (auto simp: collect_new_segment_def split: outcome.splits option.splits)
  from walk_side_Ret [OF w] obtain path where
    "acc = path" "side_path (canon_index g) (side_blocks g) h path c" "canon_index g c = r" by auto
  then show ?thesis using seg assms(2) by (auto split: option.splits)
qed

text \<open>The converse: along a path to where it stops the walk returns that path, however it is
  fuelled.\<close>

lemma walk_side_path:
  "side_path canon side h path c \<Longrightarrow> canon c \<noteq> None \<or> bt_lookup side c = None \<Longrightarrow> length path < n \<Longrightarrow>
     walk_side n canon side acc h = Ret (acc @ path, c, canon c)"
proof (induction path arbitrary: n acc h)
  case Nil
  then show ?case by (cases n) (auto split: option.split)
next
  case (Cons b path)
  then show ?case by (cases n) auto
qed

lemma walk_side_path_fuel:
  assumes "side_path canon side h path c" "canon c \<noteq> None \<or> bt_lookup side c = None"
  shows "walk_side (walk_fuel side) canon side [] h = Ret (path, c, canon c)"
proof (cases "walk_side (walk_fuel side) canon side [] h")
  case (Ret r)
  then have "walk_side (walk_fuel side + Suc (length path)) canon side [] h = Ret r" by (rule walk_side_mono)
  then show ?thesis using walk_side_path [OF assms, of "walk_fuel side + Suc (length path)" "[]"] Ret by simp
next
  case OutOfFuel
  then have "walk_side (Suc (length path)) canon side [] h = OutOfFuel" by (rule walk_side_diverges)
  then show ?thesis using walk_side_path [OF assms, of "Suc (length path)" "[]"] by simp
qed (use walk_side_no_panic in auto)

lemma collect_nonempty_iff:
  "collect_new_segment g h = Ret (b # bs) \<longleftrightarrow>
     (\<exists>c k. canon_index g c = Some k \<and> side_path (canon_index g) (side_blocks g) h (rev (b # bs)) c)"
proof
  assume "collect_new_segment g h = Ret (b # bs)"
  from collect_new_segment_path [OF this] obtain path c n where p: "b # bs = rev path"
    "side_path (canon_index g) (side_blocks g) h path c" "canon_index g c = Some n" by auto
  then have "rev (b # bs) = path" by (metis rev_rev_ident)
  then show "\<exists>c k. canon_index g c = Some k \<and> side_path (canon_index g) (side_blocks g) h (rev (b # bs)) c"
    using p by blast
next
  assume "\<exists>c k. canon_index g c = Some k \<and> side_path (canon_index g) (side_blocks g) h (rev (b # bs)) c"
  then obtain c k where p: "canon_index g c = Some k"
    "side_path (canon_index g) (side_blocks g) h (rev (b # bs)) c" by blast
  have "walk_side (walk_fuel (side_blocks g)) (canon_index g) (side_blocks g) [] h = Ret (rev (b # bs), c, Some k)"
    using walk_side_path_fuel [OF p(2)] p(1) by simp
  then show "collect_new_segment g h = Ret (b # bs)" by (simp add: collect_new_segment_def)
qed

lemma collect_empty_iff:
  "collect_new_segment g h = Ret [] \<longleftrightarrow>
     (\<exists>k. canon_index g h = Some k) \<or>
     (\<exists>path c. side_path (canon_index g) (side_blocks g) h path c
        \<and> canon_index g c = None \<and> bt_lookup (side_blocks g) c = None)"
proof
  assume "collect_new_segment g h = Ret []"
  then obtain acc c r where w: "walk_side (walk_fuel (side_blocks g)) (canon_index g) (side_blocks g) [] h = Ret (acc, c, r)"
    and e: "r = None \<or> acc = []"
    by (auto simp: collect_new_segment_def split: outcome.splits option.splits)
  from walk_side_Ret [OF w] have p: "side_path (canon_index g) (side_blocks g) h acc c" "canon_index g c = r" by auto
  show "(\<exists>k. canon_index g h = Some k) \<or> (\<exists>path c. side_path (canon_index g) (side_blocks g) h path c
        \<and> canon_index g c = None \<and> bt_lookup (side_blocks g) c = None)"
  proof (cases r)
    case None
    then show ?thesis using p walk_side_stops [OF w [unfolded None]] by blast
  next
    case (Some k)
    then show ?thesis using p e by simp
  qed
next
  assume "(\<exists>k. canon_index g h = Some k) \<or> (\<exists>path c. side_path (canon_index g) (side_blocks g) h path c
        \<and> canon_index g c = None \<and> bt_lookup (side_blocks g) c = None)"
  then consider "\<exists>k. canon_index g h = Some k"
    | path c where "side_path (canon_index g) (side_blocks g) h path c" "canon_index g c = None"
        "bt_lookup (side_blocks g) c = None" by blast
  then show "collect_new_segment g h = Ret []"
  proof cases
    case 1
    then show ?thesis by (auto simp: collect_new_segment_def walk_fuel_def)
  next
    case 2
    then show ?thesis using walk_side_path_fuel [OF 2(1)] by (simp add: collect_new_segment_def)
  qed
qed

text \<open>A walk that runs out has followed a path of its length.\<close>

lemma walk_side_out_path:
  "walk_side n canon side acc h = OutOfFuel \<longleftrightarrow>
     (\<exists>path c. length path = n \<and> side_path canon side h path c)"
proof (induction n arbitrary: acc h)
  case 0
  then show ?case by auto
next
  case (Suc n)
  show ?case
  proof (cases "canon h = None \<and> bt_lookup side h \<noteq> None")
    case True
    then obtain b where b: "canon h = None" "bt_lookup side h = Some b" by auto
    have "(\<exists>path c. length path = Suc n \<and> side_path canon side h path c) \<longleftrightarrow>
        (\<exists>path c. length path = n \<and> side_path canon side (parent_hash (header b)) path c)"
      using b by (fastforce simp: length_Suc_conv)
    then show ?thesis using b Suc by simp
  next
    case False
    then have "\<not> side_path canon side h path c" if "length path = Suc n" for path c
      using that by (cases path) auto
    then show ?thesis using False by (auto split: option.split)
  qed
qed

lemma collect_diverges_iff:
  "collect_new_segment g h = OutOfFuel \<longleftrightarrow>
     (\<forall>n. \<exists>path c. length path = n \<and> side_path (canon_index g) (side_blocks g) h path c)"
proof -
  have "collect_new_segment g h = OutOfFuel \<longleftrightarrow>
      walk_side (walk_fuel (side_blocks g)) (canon_index g) (side_blocks g) [] h = OutOfFuel"
    by (auto simp: collect_new_segment_def split: outcome.splits option.splits)
  also have "\<dots> \<longleftrightarrow> (\<forall>n. walk_side n (canon_index g) (side_blocks g) [] h = OutOfFuel)"
    using walk_side_diverges by blast
  finally show ?thesis by (simp add: walk_side_out_path)
qed

lemma side_path_members:
  "side_path canon side h path c \<Longrightarrow> b \<in> set path \<Longrightarrow> \<exists>k. canon k = None \<and> bt_lookup side k = Some b"
  by (induction path arbitrary: h) auto

lemma side_path_hd: "side_path canon side h (b # path) c \<Longrightarrow> bt_lookup side h = Some b"
  by simp

text \<open>Blocks that follow each other from \<open>c\<close>.\<close>

fun chained :: "string \<Rightarrow> block list \<Rightarrow> bool" where
  "chained c [] \<longleftrightarrow> True"
| "chained c (b # bs) \<longleftrightarrow> parent_hash (header b) = c \<and> chained (block_hash b) bs"

lemma reconstruct_branch_chained:
  "reconstruct_branch_state X c s bs = Inr s' \<Longrightarrow> chained c bs \<and> replay_checked_all X s bs = Inr s'"
  by (induction bs arbitrary: c s) (auto split: if_splits sum.splits)

lemma linked_chained:
  "linked bs \<Longrightarrow> chained (block_hash (last bs)) cs \<Longrightarrow> \<forall>b\<in>set cs. number (header b) \<noteq> 0 \<Longrightarrow> linked (bs @ cs)"
proof (induction cs arbitrary: bs)
  case Nil
  then show ?case by simp
next
  case (Cons b cs)
  then have "linked (bs @ [b])" by (intro linked_snoc) simp_all
  then have "linked ((bs @ [b]) @ cs)" using Cons.prems by (intro Cons.IH) simp_all
  then show ?case by simp
qed

lemma linked_take: "linked bs \<Longrightarrow> linked (take (Suc n) bs)"
  by (auto simp: linked_def hd_take)

lemma chained_heights:
  "chained c bs \<Longrightarrow> \<forall>b\<in>set bs. honest ht b \<and> number (header b) \<noteq> 0 \<Longrightarrow> b \<in> set bs \<Longrightarrow> ht c < ht (block_hash b)"
proof (induction bs arbitrary: c)
  case Nil
  then show ?case by simp
next
  case (Cons a bs)
  then have "ht (block_hash a) = Suc (ht c)" by (simp add: honest_def)
  then show ?case using Cons by (cases "b = a") (auto dest!: Cons.IH [of "block_hash a"])
qed

lemma chained_distinct:
  "chained c bs \<Longrightarrow> \<forall>b\<in>set bs. honest ht b \<and> number (header b) \<noteq> 0 \<Longrightarrow> distinct (map block_hash bs)"
proof (induction bs arbitrary: c)
  case Nil
  then show ?case by simp
next
  case (Cons a bs)
  then have "\<forall>b\<in>set bs. ht (block_hash a) < ht (block_hash b)"
    using chained_heights [of "block_hash a" bs ht] by simp
  then have "block_hash a \<notin> block_hash ` set bs" by auto
  moreover have "distinct (map block_hash bs)" using Cons.prems by (intro Cons.IH [of "block_hash a"]) simp_all
  ultimately show ?case by simp
qed

section \<open>Demotion and promotion\<close>

lemma fold_demote:
  "distinct (map block_hash bs) \<Longrightarrow> bt_wf side \<Longrightarrow>
     fst (fold demote bs (canon, side)) h = (if h \<in> block_hash ` set bs then None else canon h)
     \<and> bt_wf (snd (fold demote bs (canon, side)))
     \<and> bt_lookup (snd (fold demote bs (canon, side))) h =
         (case block_index bs h of Some b \<Rightarrow> Some b | None \<Rightarrow> bt_lookup side h)"
proof (induction bs arbitrary: canon side)
  case Nil
  then show ?case by (simp add: block_index_def)
next
  case (Cons b bs)
  have one: "block_index (b # bs) h = (if h = block_hash b then Some b else block_index bs h)"
    by (simp add: block_index_def)
  have none: "block_index bs (block_hash b) = None" using Cons.prems(1) by (simp add: block_index_None)
  have "distinct (map block_hash bs)" "bt_wf (bt_insert (block_hash b) b side)" using Cons.prems by simp_all
  note IH = Cons.IH [OF this]
  define c where "c = canon(block_hash b := None)"
  have c: "c h = (if h = block_hash b then None else canon h)" "c (block_hash b) = None" by (simp_all add: c_def)
  have step: "fold demote (b # bs) (canon, side) = fold demote bs (c, bt_insert (block_hash b) b side)"
    by (simp add: demote_def c_def)
  show ?case unfolding one step using IH [of c] none by (auto simp: c split: option.splits)
qed

lemma fold_promote_blocks:
  "pr_blocks (fold promote_block seg p) = pr_blocks p @ seg
   \<and> pr_seen (fold promote_block seg p) = pr_seen p \<union> block_hash ` set seg"
  by (induction seg arbitrary: p) (auto simp: promote_block_def Let_def)

lemma fold_promote_canon:
  "distinct (map block_hash seg) \<Longrightarrow>
     pr_canon (fold promote_block seg p) h = (case height_index seg h of Some n \<Rightarrow> Some n | None \<Rightarrow> pr_canon p h)"
proof (induction seg arbitrary: p)
  case Nil
  then show ?case by (simp add: height_index_def)
next
  case (Cons b seg)
  have one: "height_index (b # seg) h = (if h = block_hash b then Some (number (header b)) else height_index seg h)"
    by (simp add: height_index_def)
  have "height_index seg (block_hash b) = None"
    using Cons.prems by (simp add: height_index_block_index block_index_None)
  then show ?case using Cons by (auto simp: one promote_block_def Let_def split: option.split)
qed

lemma fold_promote_side:
  "bt_wf (pr_side p) \<Longrightarrow> bt_wf (pr_side (fold promote_block seg p)) \<and>
     bt_lookup (pr_side (fold promote_block seg p)) h =
       (if h \<in> block_hash ` set seg then None else bt_lookup (pr_side p) h)"
  by (induction seg arbitrary: p) (auto simp: promote_block_def Let_def)

lemma fold_promote_work:
  "chained c seg \<Longrightarrow> pr_work p c = Some (pr_cw p) \<Longrightarrow>
     \<forall>b\<in>set seg. \<exists>w. pr_work p (parent_hash (header b)) = Some w \<and>
        pr_work p (block_hash b) = Some (w + ucast (difficulty (header b))) \<Longrightarrow>
     pr_work (fold promote_block seg p) = pr_work p"
proof (induction seg arbitrary: c p)
  case Nil
  then show ?case by simp
next
  case (Cons b seg)
  let ?p = "promote_block b p"
  have "pr_work p (block_hash b) = Some (pr_cw p + ucast (difficulty (header b)))"
    using Cons.prems by auto
  then have same: "pr_work ?p = pr_work p" "pr_work ?p (block_hash b) = Some (pr_cw ?p)"
    by (simp_all add: promote_block_def Let_def fun_upd_idem)
  have "pr_work (fold promote_block seg ?p) = pr_work ?p"
    using Cons.prems same by (intro Cons.IH [of "block_hash b"]) simp_all
  then show ?case using same by simp
qed

lemma work_word:
  fixes w a :: u128 and d :: u64
  assumes "unat w = unat a + unat d"
  shows "w = a + ucast d"
proof -
  have "unat a + unat (ucast d :: u128) < 2 ^ LENGTH(128)"
    using assms unat_bound [of w] by (simp add: unat_ucast_u64_u128)
  then have "unat (a + ucast d) = unat a + unat d" by (simp add: unat_plus_small unat_ucast_u64_u128)
  then show ?thesis using assms by (simp add: word_unat_eq_iff)
qed

section \<open>The swap\<close>

text \<open>A segment that can replace the canonical blocks above position \<open>k\<close>.\<close>

definition replaces :: "(string \<Rightarrow> nat) \<Rightarrow> ('db, 'm) chain_state_scheme \<Rightarrow> nat \<Rightarrow> block list \<Rightarrow> bool" where
  "replaces ht g k seg \<longleftrightarrow> k < length (blocks g) \<and> chained (block_hash (blocks g ! k)) seg
     \<and> (\<forall>b\<in>set seg. bt_lookup (side_blocks g) (block_hash b) = Some b \<and> number (header b) \<noteq> 0
          \<and> honest ht b \<and> block_hash b \<notin> block_hash ` set (blocks g))"

lemma replaces_distinct: "replaces ht g k seg \<Longrightarrow> distinct (map block_hash seg)"
  unfolding replaces_def using chained_distinct by blast

lemma segment_replaces:
  assumes inv: "chain_inv X ht g" and seg: "collect_new_segment g h = Ret seg" "seg \<noteq> []"
    and k: "canon_index g c = Some k" and ch: "chained c seg"
  shows "replaces ht g (unat k) seg"
    and "bt_lookup (side_blocks g) h = Some b \<Longrightarrow> last seg = b"
proof -
  note parts = inv [unfolded chain_inv_def]
  obtain path c' n where path: "seg = rev path"
      "side_path (canon_index g) (side_blocks g) h path c'" "canon_index g c' = Some n"
    using collect_new_segment_path [OF seg] by blast
  have mem: "bt_lookup (side_blocks g) (block_hash a) = Some a \<and> number (header a) \<noteq> 0 \<and> honest ht a
      \<and> block_hash a \<notin> block_hash ` set (blocks g)" if "a \<in> set seg" for a
  proof -
    have "a \<in> set path" using that path(1) by simp
    then obtain j where j: "canon_index g j = None" "bt_lookup (side_blocks g) j = Some a"
      using side_path_members [OF path(2)] by blast
    have bi: "block_index (blocks g) j = None"
      using j(1) parts by (simp add: height_index_block_index index_ok_def)
    then have "known g j = Some a" using j(2) by (simp add: known_def)
    then have "block_hash a = j" "honest ht a" using parts unfolding known_ok_def by blast+
    then show ?thesis using j bi parts by (auto simp: side_ok_def)
  qed
  show "replaces ht g (unat k) seg"
    using canon_index_Some [OF inv k] ch mem by (simp add: replaces_def)
  show "last seg = b" if "bt_lookup (side_blocks g) h = Some b"
    using path that seg(2) by (cases path) auto
qed

lemma reorg_promotion_fold:
  assumes c: "c = block_hash (blocks g ! k)"
  obtains cw0 where
    "reorg_promotion g c k seg = fold promote_block seg
      \<lparr>pr_cw = cw0, pr_canon = fst (fold demote (drop (Suc k) (blocks g)) (canon_index g, side_blocks g)),
       pr_side = snd (fold demote (drop (Suc k) (blocks g)) (canon_index g, side_blocks g)),
       pr_work = cumulative_work g, pr_seen = seen_blocks g, pr_blocks = take (Suc k) (blocks g)\<rparr>"
    "cumulative_work g c = Some w \<Longrightarrow> cw0 = w"
proof
  show "reorg_promotion g c k seg = fold promote_block seg
      \<lparr>pr_cw = (case cumulative_work g c of Some w \<Rightarrow> w
         | None \<Rightarrow> sum_list (map (\<lambda>b. ucast (difficulty (header b))) (take (Suc k) (blocks g)))),
       pr_canon = fst (fold demote (drop (Suc k) (blocks g)) (canon_index g, side_blocks g)),
       pr_side = snd (fold demote (drop (Suc k) (blocks g)) (canon_index g, side_blocks g)),
       pr_work = cumulative_work g, pr_seen = seen_blocks g, pr_blocks = take (Suc k) (blocks g)\<rparr>"
    by (simp add: reorg_promotion_def case_prod_beta Let_def)
qed simp

lemma take_drop_disjoint:
  assumes "distinct (map block_hash bs)"
  shows "block_hash ` set (take n bs) \<inter> block_hash ` set (drop n bs) = {}"
proof -
  have "distinct (map block_hash (take n bs @ drop n bs))" using assms by simp
  then show ?thesis by (simp only: map_append distinct_append list.set_map)
qed

lemma reorg_promotion_index:
  assumes rp: "replaces ht g k seg" and ix: "index_ok g" and wf: "bt_wf (side_blocks g)"
  defines "p \<equiv> reorg_promotion g (block_hash (blocks g ! k)) k seg"
  shows "pr_blocks p = take (Suc k) (blocks g) @ seg" "pr_seen p = seen_blocks g \<union> block_hash ` set seg"
    "pr_canon p = height_index (take (Suc k) (blocks g) @ seg)" "bt_wf (pr_side p)"
    "bt_lookup (pr_side p) h = (if h \<in> block_hash ` set seg then None
       else case block_index (drop (Suc k) (blocks g)) h of Some b \<Rightarrow> Some b | None \<Rightarrow> bt_lookup (side_blocks g) h)"
    "distinct (map block_hash (take (Suc k) (blocks g) @ seg))"
proof -
  let ?kept = "take (Suc k) (blocks g)" and ?drop = "drop (Suc k) (blocks g)"
  let ?q = "fold demote ?drop (canon_index g, side_blocks g)"
  obtain cw0 where p: "p = fold promote_block seg \<lparr>pr_cw = cw0, pr_canon = fst ?q, pr_side = snd ?q,
      pr_work = cumulative_work g, pr_seen = seen_blocks g, pr_blocks = ?kept\<rparr>"
    unfolding p_def using reorg_promotion_fold [OF refl] by blast
  have dist: "distinct (map block_hash (blocks g))" and idx: "canon_index g = height_index (blocks g)"
    using ix by (simp_all add: index_ok_def)
  have d: "distinct (map block_hash ?drop)" "distinct (map block_hash ?kept)"
    using dist by (simp_all add: drop_map [symmetric] take_map [symmetric])
  have segfresh: "block_hash ` set seg \<inter> block_hash ` set (blocks g) = {}" using rp by (auto simp: replaces_def)
  have dseg: "distinct (map block_hash seg)" using rp by (rule replaces_distinct)
  note q = fold_demote [OF d(1) wf, of "canon_index g"]
  show "pr_blocks p = ?kept @ seg" "pr_seen p = seen_blocks g \<union> block_hash ` set seg"
    using fold_promote_blocks [of seg] unfolding p by auto
  show "distinct (map block_hash (?kept @ seg))" using d(2) dseg segfresh by (auto dest: in_set_takeD)
  show "bt_wf (pr_side p)" "bt_lookup (pr_side p) h = (if h \<in> block_hash ` set seg then None
       else case block_index ?drop h of Some b \<Rightarrow> Some b | None \<Rightarrow> bt_lookup (side_blocks g) h)"
    using fold_promote_side [of "\<lparr>pr_cw = cw0, pr_canon = fst ?q, pr_side = snd ?q,
      pr_work = cumulative_work g, pr_seen = seen_blocks g, pr_blocks = ?kept\<rparr>" seg h] q [of h]
    unfolding p by auto
  have kept_idx: "fst ?q h = height_index ?kept h" for h
  proof -
    have "height_index (blocks g) h = (case height_index ?kept h of Some n \<Rightarrow> Some n | None \<Rightarrow> height_index ?drop h)"
      using height_index_append [of ?kept ?drop h] by simp
    then show ?thesis
      using q [of h] take_drop_disjoint [OF dist, of "Suc k"] idx
      by (auto simp: height_index_block_index split: option.splits dest: block_index_Some)
  qed
  show "pr_canon p = height_index (?kept @ seg)"
  proof
    fix h
    have "height_index ?kept h = None" if "h \<in> block_hash ` set seg"
      using that segfresh by (auto simp: height_index_block_index block_index_None dest!: in_set_takeD)
    moreover have "height_index (?kept @ seg) h =
        (case height_index ?kept h of Some n \<Rightarrow> Some n | None \<Rightarrow> height_index seg h)"
      by (rule height_index_append)
    moreover have out: "height_index seg h = None \<longleftrightarrow> h \<notin> block_hash ` set seg"
      using block_index_None [of seg h] by (simp add: height_index_block_index)
    moreover have "pr_canon p h = (if h \<in> block_hash ` set seg then height_index seg h else height_index ?kept h)"
      unfolding p fold_promote_canon [OF dseg] using out kept_idx [of h]
      by (cases "height_index seg h") simp_all
    ultimately show "pr_canon p h = height_index (?kept @ seg) h"
      by (auto split: option.splits)
  qed
qed

lemma reorg_promotion_known:
  assumes rp: "replaces ht g k seg" and ix: "index_ok g" and wf: "bt_wf (side_blocks g)"
    and g': "blocks g' = take (Suc k) (blocks g) @ seg"
      "side_blocks g' = pr_side (reorg_promotion g (block_hash (blocks g ! k)) k seg)"
  shows "known g' = known g"
proof
  fix h
  let ?kept = "take (Suc k) (blocks g)" and ?drop = "drop (Suc k) (blocks g)"
  have old: "block_index (blocks g) h = (case block_index ?kept h of Some b \<Rightarrow> Some b | None \<Rightarrow> block_index ?drop h)"
    using block_index_append [of ?kept ?drop h] by simp
  have at_seg: "bt_lookup (side_blocks g) h = Some b" if "block_index seg h = Some b" for b
    using block_index_Some [OF that] rp by (auto simp: replaces_def)
  have segfresh: "block_hash ` set seg \<inter> block_hash ` set (blocks g) = {}" using rp by (auto simp: replaces_def)
  show "known g' h = known g h"
    unfolding known_def g' block_index_append reorg_promotion_index(5) [OF rp ix wf]
    using old at_seg segfresh block_index_None [of seg h] block_index_None [of "blocks g" h]
    by (cases "h \<in> block_hash ` set seg") (auto split: option.splits)
qed

lemma known_work:
  assumes ok: "known_ok ht g" and b: "known g (block_hash b) = Some b" "number (header b) \<noteq> 0"
  shows "\<exists>w. cumulative_work g (parent_hash (header b)) = Some w \<and>
      cumulative_work g (block_hash b) = Some (w + ucast (difficulty (header b)))"
proof -
  have "(number (header b) \<noteq> 0 \<longrightarrow> known g (parent_hash (header b)) \<noteq> None)
      \<and> (\<exists>w. cumulative_work g (block_hash b) = Some w
         \<and> unat w = (if number (header b) = 0 then 0 else unat (work_at g (parent_hash (header b))))
             + unat (difficulty (header b)))"
    using ok b(1) unfolding known_ok_def by blast
  then obtain w where w: "cumulative_work g (block_hash b) = Some w"
      "unat w = unat (work_at g (parent_hash (header b))) + unat (difficulty (header b))"
    and p: "known g (parent_hash (header b)) \<noteq> None"
    using b(2) by auto
  obtain pb where "known g (parent_hash (header b)) = Some pb" using p by auto
  then obtain v where v: "cumulative_work g (parent_hash (header b)) = Some v"
    using ok unfolding known_ok_def by blast
  then have "w = v + ucast (difficulty (header b))" using w(2) work_word by (simp add: work_at_def)
  then show ?thesis using v w(1) by blast
qed

lemma reorg_promotion_work:
  assumes rp: "replaces ht g k seg" and ix: "index_ok g" and ok: "known_ok ht g"
  shows "pr_work (reorg_promotion g (block_hash (blocks g ! k)) k seg) = cumulative_work g"
proof -
  let ?c = "block_hash (blocks g ! k)"
  have "known g ?c = Some (blocks g ! k)"
    using known_canonical [OF _ ix] rp by (simp add: replaces_def)
  then obtain v where v: "cumulative_work g ?c = Some v" using ok unfolding known_ok_def by blast
  have work: "\<forall>b\<in>set seg. \<exists>w. cumulative_work g (parent_hash (header b)) = Some w \<and>
      cumulative_work g (block_hash b) = Some (w + ucast (difficulty (header b)))"
  proof
    fix b assume "b \<in> set seg"
    then have b: "bt_lookup (side_blocks g) (block_hash b) = Some b" "number (header b) \<noteq> 0"
      "block_index (blocks g) (block_hash b) = None" using rp by (auto simp: replaces_def block_index_None)
    then have "known g (block_hash b) = Some b" by (simp add: known_def)
    then show "\<exists>w. cumulative_work g (parent_hash (header b)) = Some w \<and>
      cumulative_work g (block_hash b) = Some (w + ucast (difficulty (header b)))"
      using ok b(2) by (intro known_work)
  qed
  obtain cw0 where p: "reorg_promotion g ?c k seg = fold promote_block seg
      \<lparr>pr_cw = cw0, pr_canon = fst (fold demote (drop (Suc k) (blocks g)) (canon_index g, side_blocks g)),
       pr_side = snd (fold demote (drop (Suc k) (blocks g)) (canon_index g, side_blocks g)),
       pr_work = cumulative_work g, pr_seen = seen_blocks g, pr_blocks = take (Suc k) (blocks g)\<rparr>"
    and cw0: "cumulative_work g ?c = Some v \<Longrightarrow> cw0 = v"
    using reorg_promotion_fold [OF refl] by blast
  have "chained ?c seg" using rp by (simp add: replaces_def)
  then show ?thesis unfolding p
    by (subst fold_promote_work) (use v cw0 work in simp_all)
qed

lemma reorg_side_ok:
  assumes rp: "replaces ht g k seg" and ix: "index_ok g" and l: "linked (blocks g)" and so: "side_ok g"
    and g': "blocks g' = take (Suc k) (blocks g) @ seg"
      "side_blocks g' = pr_side (reorg_promotion g (block_hash (blocks g ! k)) k seg)"
  shows "side_ok g'"
  unfolding side_ok_def g'
proof (intro conjI allI impI)
  let ?kept = "take (Suc k) (blocks g)" and ?drop = "drop (Suc k) (blocks g)"
  have wf: "bt_wf (side_blocks g)" using so by (simp add: side_ok_def)
  note look = reorg_promotion_index(5) [OF rp ix wf]
  show "bt_wf (pr_side (reorg_promotion g (block_hash (blocks g ! k)) k seg))"
    by (rule reorg_promotion_index(4) [OF rp ix wf])
  fix h b assume b: "bt_lookup (pr_side (reorg_promotion g (block_hash (blocks g ! k)) k seg)) h = Some b"
  have nseg: "h \<notin> block_hash ` set seg" using b look [of h] by (auto split: if_splits)
  have "h \<notin> block_hash ` set ?kept \<and> number (header b) \<noteq> 0"
  proof (cases "block_index ?drop h")
    case None
    then have "bt_lookup (side_blocks g) h = Some b" using b look [of h] nseg by simp
    then show ?thesis using so by (auto simp: side_ok_def dest: in_set_takeD)
  next
    case (Some a)
    then have a: "b \<in> set ?drop" "block_hash b = h"
      using b look [of h] nseg block_index_Some [OF Some] by auto
    obtain i where i: "b = blocks g ! (Suc k + i)" "Suc k + i < length (blocks g)"
      using a(1) by (auto simp: in_set_conv_nth)
    then have "number (header b) \<noteq> 0" using l by (simp add: linked_def)
    moreover have "distinct (map block_hash (blocks g))" using ix by (simp add: index_ok_def)
    ultimately show ?thesis using a take_drop_disjoint [of "blocks g" "Suc k"] by blast
  qed
  then show "h \<notin> block_hash ` set (?kept @ seg)" "number (header b) \<noteq> 0" using nseg by auto
qed

lemma chain_inv_reorg:
  assumes inv: "chain_inv X ht g" and r: "try_reorg X blk g = Ret (g', Some recovery)"
  shows "chain_inv X ht g'" and "known g' = known g" and "cumulative_work g' = cumulative_work g"
    and "bt_lookup (side_blocks g) (block_hash blk) = Some b \<Longrightarrow> last (blocks g') = b"
proof -
  note parts = inv [unfolded chain_inv_def]
  obtain seg ch k anc st d where
    seg: "collect_new_segment g (block_hash blk) = Ret seg" "seg \<noteq> []"
    and ch: "canon_index g ch = Some k" "unat k < length (blocks g)"
    and anc: "reorg_reconstruct_canonical X g k = Inr anc"
    and st: "reconstruct_branch_state X ch anc seg = Inr st"
    and g': "g' = g\<lparr>db := d, blocks := pr_blocks (reorg_promotion g ch (unat k) seg),
            balances := es_balances st, nonces := es_nonces st,
            seen_blocks := pr_seen (reorg_promotion g ch (unat k) seg),
            side_blocks := pr_side (reorg_promotion g ch (unat k) seg),
            cumulative_work := pr_work (reorg_promotion g ch (unat k) seg),
            canon_index := pr_canon (reorg_promotion g ch (unat k) seg),
            cached_state_root := Some (number (header blk), state_root (header blk))\<rparr>"
    using r by (rule try_reorg_SomeE) blast
  have ix: "index_ok g" and so: "side_ok g" and wf: "bt_wf (side_blocks g)" and l: "linked (blocks g)"
    and ok: "known_ok ht g" using parts by (simp_all add: side_ok_def)
  have c: "ch = block_hash (blocks g ! unat k)" using canon_index_Some [OF inv ch(1)] by simp
  have chn: "chained ch seg" and rep: "replay_checked_all X anc seg = Inr st"
    using reconstruct_branch_chained [OF st] by auto
  have rp: "replaces ht g (unat k) seg" using inv seg ch(1) chn by (rule segment_replaces(1))
  note ix' = reorg_promotion_index [OF rp ix wf]
  have new: "blocks g' = take (Suc (unat k)) (blocks g) @ seg" "canon_index g' = height_index (blocks g')"
    "side_blocks g' = pr_side (reorg_promotion g (block_hash (blocks g ! unat k)) (unat k) seg)"
    "seen_blocks g' = seen_blocks g \<union> block_hash ` set seg" "cumulative_work g' = cumulative_work g"
    "account_state g' = st" "orphan_pool g' = orphan_pool g" "ds_cache g' = ds_cache g"
    by (simp_all add: g' c ix'(1-3) account_state_def reorg_promotion_work [OF rp ix ok])
  show work: "cumulative_work g' = cumulative_work g" by (rule new(5))
  show known: "known g' = known g" by (rule reorg_promotion_known [OF rp ix wf new(1,3)])
  show "last (blocks g') = b" if "bt_lookup (side_blocks g) (block_hash blk) = Some b"
    using segment_replaces(2) [OF inv seg ch(1) chn that] seg(2) by (simp add: new(1))
  have "linked (blocks g')" unfolding new(1)
    using linked_take [OF l, of "unat k"] chn rp ch(2) c
    by (intro linked_chained) (auto simp: replaces_def take_Suc_conv_app_nth)
  moreover have "ledger_ok X g'"
  proof -
    have "unat (k + 1) = Suc (unat k)"
      using ch(2) chain_length [OF inv] by (simp add: unat_plus_small)
    then have "replay_checked_all X tx_execution_state_new (take (Suc (unat k)) (blocks g)) = Inr anc"
      using anc by (simp add: reorg_reconstruct_canonical_def)
    then show ?thesis using rep by (simp add: ledger_ok_def new(1,6) replay_checked_all_append)
  qed
  moreover have "known_ok ht g'" "seen_ok g'" "base_ok g'" "index_ok g'"
    using parts ix'(6) unfolding known_ok_def seen_ok_def base_ok_def index_ok_def known work work_at_def new
    by auto
  moreover have "side_ok g'" by (rule reorg_side_ok [OF rp ix l so new(1,3)])
  ultimately show "chain_inv X ht g'" using parts new(7) by (simp add: chain_inv_def)
qed

end
