(* ===== verification/Acceptance.thy ===== *)
theory Acceptance
  imports Reorg_Invariant
begin

text \<open>
  The chain invariant holds of every state the pipeline reaches from the genesis block when the
  blocks that arrive have honest heights, and then the pipeline always returns: no lookup is out
  of range, no walk diverges. The interpretations of \<open>accept_invariant\<close> and
  \<open>accept_total\<close> on the code's model carry this through the recursion with the orphan pool.
\<close>

section \<open>One pass keeps the invariant\<close>

lemma passed_same: "same_chain m m' \<Longrightarrow> passed X blk m' s = passed X blk m s"
  by (simp add: passed_def same_chain_checks same_chain_queries)

lemma extend_same: "same_chain m m' \<Longrightarrow> same_chain (extend_chain b w s m) (extend_chain b w s m')"
  by (rule same_chainI) (simp_all add: extend_chain_def push_canonical_def same_chainD)

lemma record_same: "same_chain m m' \<Longrightarrow> same_chain (record_side_block b w m) (record_side_block b w m')"
  by (rule same_chainI) (simp_all add: record_side_block_def same_chainD)

lemma pool_blocks_lookup:
  "bt_lookup p k = Some es \<Longrightarrow> fst ` set es \<subseteq> pool_blocks p"
  unfolding pool_blocks_def bt_lookup_def by (drule map_of_SomeD) force

lemma pool_blocks_insert: "pool_blocks (bt_insert k es p) \<subseteq> pool_blocks p \<union> fst ` set es"
proof -
  have "set (bt_insert k es p) \<subseteq> insert (k, es) (set p)"
    by (induction p) (auto split: if_splits)
  then show ?thesis by (fastforce simp: pool_blocks_def)
qed

lemma pool_blocks_remove: "pool_blocks (bt_remove k p) \<subseteq> pool_blocks p"
  by (auto simp: pool_blocks_def bt_remove_def)

lemma remove_at_subset: "set (remove_at i xs) \<subseteq> set xs"
  by (auto simp: remove_at_def dest: in_set_takeD in_set_dropD)

lemma pool_blocks_prune: "pool_blocks (orphan_pool (prune_old_orphans g)) \<subseteq> pool_blocks (orphan_pool g)"
proof -
  have "pool_blocks (bt_insert k (remove_at i es) p) \<subseteq> pool_blocks p"
    if "bt_lookup p k = Some es" for k i es and p :: "(string, orphan_entry list) btree"
    using pool_blocks_insert [of k "remove_at i es" p] pool_blocks_lookup [OF that] remove_at_subset [of i es]
    by blast
  then show ?thesis
    using pool_blocks_remove by (auto simp: prune_old_orphans_def Let_def split: option.split)
qed

lemma pool_blocks_add: "pool_blocks (orphan_pool (add_orphan blk peer g)) \<subseteq> insert blk (pool_blocks (orphan_pool g))"
proof -
  let ?p = "orphan_pool (prune_old_orphans g)"
  have "pool_blocks (orphan_pool (add_orphan blk peer g)) \<subseteq> pool_blocks ?p \<union>
      insert blk (case bt_lookup ?p (parent_hash (header blk)) of None \<Rightarrow> {} | Some es \<Rightarrow> fst ` set es)"
    unfolding add_orphan_pool Let_def
    by (rule order_trans [OF pool_blocks_insert]) (auto split: option.splits)
  moreover have "(case bt_lookup ?p (parent_hash (header blk)) of None \<Rightarrow> {} | Some es \<Rightarrow> fst ` set es) \<subseteq> pool_blocks ?p"
    using pool_blocks_lookup [of ?p "parent_hash (header blk)"] by (simp split: option.split)
  ultimately show ?thesis using pool_blocks_prune [of g] by blast
qed

lemma chain_inv_frame:
  assumes inv: "chain_inv X ht m"
    and f: "blocks m' = blocks m" "canon_index m' = canon_index m" "side_blocks m' = side_blocks m"
      "cumulative_work m' = cumulative_work m" "seen_blocks m' = seen_blocks m" "balances m' = balances m"
      "nonces m' = nonces m"
    and base: "base_ok m'" and pool: "\<forall>b\<in>pool_blocks (orphan_pool m'). honest ht b"
  shows "chain_inv X ht m'"
proof -
  have k: "known m' = known m" using f(1,3) by (rule known_cong)
  have w: "work_at m' = work_at m" by (simp add: fun_eq_iff work_at_def f)
  have a: "account_state m' = account_state m" by (simp add: account_state_def f)
  show ?thesis
    using inv base pool
    unfolding chain_inv_def index_ok_def side_ok_def known_ok_def seen_ok_def ledger_ok_def k w a f
    by blast
qed

lemma chain_inv_recovery: "chain_inv X ht m \<Longrightarrow> chain_inv X ht (m\<lparr>pending_reorg_recovery := r\<rparr>)"
  by (rule chain_inv_frame [of X ht m]) (simp_all add: chain_inv_def base_ok_def)

lemma chain_inv_orphan:
  assumes inv: "chain_inv X ht m" and h: "honest ht blk"
  shows "chain_inv X ht (add_orphan blk peer m)"
proof -
  obtain i t p where a: "add_orphan blk peer m = m\<lparr>orphan_by_hash := i, ticks := t, orphan_pool := p\<rparr>"
    using add_orphan_frame by blast
  have p: "orphan_pool (add_orphan blk peer m) = p" by (simp add: a)
  have "bt_wf p" using add_orphan_wf [of m blk peer] inv by (simp add: p chain_inv_def base_ok_def)
  moreover have "\<forall>b\<in>pool_blocks p. honest ht b"
    using pool_blocks_add [of blk peer m] inv h unfolding p chain_inv_def by blast
  ultimately show ?thesis unfolding a
    using inv by (intro chain_inv_frame [OF inv]) (simp_all add: chain_inv_def base_ok_def)
qed

text \<open>The state a reorg starts from.\<close>

lemma reorg_start:
  assumes inv: "chain_inv X ht m" and h: "honest ht blk" and p: "passed X blk m s"
    and sc: "same_chain m m1" and dc: "dc_ok (ds_cache m1)"
  shows "chain_inv X ht (record_side_block blk (candidate_work m blk) m1)"
  using chain_inv_same [OF record_same [OF sc] chain_inv_record [OF inv p h]] dc
  by (simp add: record_side_block_def)

lemma apply_core_inv:
  assumes inv: "chain_inv X ht m" and h: "honest ht blk" and core: "apply_core X blk src m = Ret (m', st)"
  shows "chain_inv X ht m'"
proof -
  have dc: "dc_ok (ds_cache m)" using inv by (simp add: chain_inv_def base_ok_def)
  then have dc': "dc_ok (ds_cache m')" by (rule apply_core_dc_ok [OF core])
  show ?thesis using core dc
  proof (cases rule: apply_core_cases)
    case (Reject r)
    then show ?thesis using inv dc' by (blast intro: chain_inv_same)
  next
    case (Gen m1)
    then show ?thesis using inv by (simp add: chain_inv_def linked_def)
  next
    case (Orphaned m1 peer)
    obtain i t p where a: "add_orphan blk peer m1 = m1\<lparr>orphan_by_hash := i, ticks := t, orphan_pool := p\<rparr>"
      using add_orphan_frame by blast
    have "dc_ok (ds_cache m1)" using dc' unfolding Orphaned(7) a by simp
    then have "chain_inv X ht m1" using chain_inv_same [OF Orphaned(6) inv] by blast
    then show ?thesis unfolding Orphaned(7) using h by (rule chain_inv_orphan)
  next
    case (Tip s m1)
    have "same_chain (extend_chain blk (candidate_work m blk) s m) m'"
      using same_chain_trans [OF extend_same [OF Tip(5)] Tip(6)] .
    then show ?thesis using chain_inv_extend [OF inv Tip(2) h Tip(4)] dc' by (rule chain_inv_same)
  next
    case (Side s m1)
    have "same_chain (record_side_block blk (candidate_work m blk) m) m'"
      using same_chain_trans [OF record_same [OF Side(5)] Side(6)] .
    then show ?thesis using chain_inv_record [OF inv Side(2) h] dc' by (rule chain_inv_same)
  next
    case (Reorganised s m1 m2 recovery)
    have "ds_cache m2 = ds_cache m1"
      using try_reorg_ds_cache [OF Reorganised(7)] by (simp add: record_side_block_def)
    then have "dc_ok (ds_cache m1)" using dc' Reorganised(8) by simp
    then have "chain_inv X ht m2"
      using chain_inv_reorg(1) [OF reorg_start [OF inv h Reorganised(2,5)] Reorganised(7)] by blast
    then show ?thesis unfolding Reorganised(8) by (rule chain_inv_recovery)
  qed
qed

section \<open>One pass returns\<close>

lemma side_ranked: "chain_inv X ht m \<Longrightarrow> ranked ht (side_blocks m)"
proof -
  assume inv: "chain_inv X ht m"
  have "ht (parent_hash (header b)) < ht h" if l: "bt_lookup (side_blocks m) h = Some b" for h b
  proof -
    have s: "h \<notin> block_hash ` set (blocks m)" "number (header b) \<noteq> 0"
      using inv l unfolding chain_inv_def side_ok_def by blast+
    then have "known m h = Some b"
      using l by (simp add: known_def block_index_None [THEN iffD2])
    then have "block_hash b = h \<and> honest ht b" using inv unfolding chain_inv_def known_ok_def by blast
    then show ?thesis using s(2) by (auto simp: honest_def)
  qed
  then show ?thesis by (simp add: ranked_def)
qed

lemma parent_state_returns: "chain_inv X ht m \<Longrightarrow> \<exists>r. parent_state X m blk = Ret r"
  using walk_side_returns [OF side_ranked, of X ht m "canon_index m" "[]" "parent_hash (header blk)"]
  by (auto simp: parent_state_def reconstruct_parent_state_for_side_chain_def split: option.split sum.split)

lemma collect_new_segment_returns: "chain_inv X ht m \<Longrightarrow> \<exists>seg. collect_new_segment m h = Ret seg"
  using walk_side_returns [OF side_ranked, of X ht m "canon_index m" "[]" h]
  by (auto simp: collect_new_segment_def split: option.split)

lemma try_reorg_returns:
  assumes inv: "chain_inv X ht g"
  shows "\<exists>g' r. try_reorg X blk g = Ret (g', r)"
proof -
  obtain seg where seg: "collect_new_segment g (block_hash blk) = Ret seg"
    using collect_new_segment_returns [OF inv] by blast
  show ?thesis
  proof (cases seg)
    case Nil
    then show ?thesis using seg by (simp add: try_reorg_def)
  next
    case (Cons a l)
    have "\<not> length (blocks g) \<le> unat k" if "canon_index g (parent_hash (header a)) = Some k" for k
      using canon_index_Some [OF inv that] by simp
    then show ?thesis using seg Cons
      by (auto simp: try_reorg_def Let_def simp del: reconstruct_branch_state.simps
          split: option.split sum.split prod.split bool.split)
  qed
qed

lemma accept_header_returns:
  assumes inv: "chain_inv X ht m" and p: "known m (parent_hash (header blk)) \<noteq> None"
  shows "\<exists>m' r. accept_header X blk m = Ret (m', r)"
proof -
  obtain pb where pb: "resolve_block m (parent_hash (header blk)) = Some pb"
    using p resolve_known [OF inv] by auto
  obtain m1 r1 where t: "check_timestamp blk pb m = (m1, r1)" by fastforce
  have "ds_cache m1 = ds_cache m"
    using t by (auto simp: check_timestamp_def wall_clock_secs_def split: if_splits)
  then have "dc_ok (ds_cache m1)" using inv by (simp add: chain_inv_def base_ok_def)
  then obtain c where "verify_visionx_pow X blk m1 = Some (m1\<lparr>ds_cache := c\<rparr>, pow_verdict X blk)"
    using verify_visionx_pow_ok by blast
  then show ?thesis using pb t by (auto simp: accept_header_def split: option.split sum.split)
qed

lemma accept_body_returns:
  assumes inv: "chain_inv X ht m" and h: "honest ht blk"
    and cw: "cw = candidate_work m blk"
    and pass: "\<And>s. check_coinbase_height blk = None \<Longrightarrow> first_duplicate_tx X [] (txs blk) = None \<Longrightarrow>
      \<exists>s0. parent_state X m blk = Ret (Inr s0) \<and> execute_candidate X s0 blk = Inr s \<Longrightarrow> passed X blk m s"
  shows "\<exists>m' st. accept_body X blk cw tcw m = Ret (m', st)"
proof -
  obtain ps where ps: "parent_state X m blk = Ret ps" using parent_state_returns [OF inv] by blast
  have side: "\<exists>m' st. integrate_side X blk cw tcw m = Ret (m', st)" if p: "passed X blk m s" for s
  proof -
    obtain m1 ok where s: "store_block X blk m = (m1, ok)" by fastforce
    then obtain d where m1: "m1 = m\<lparr>db := d\<rparr>" using store_block_frame by blast
    then have sc: "same_chain m m1" "dc_ok (ds_cache m1)"
      using inv by (simp_all add: chain_inv_def base_ok_def)
    obtain g' r where "try_reorg X blk (record_side_block blk cw m1) = Ret (g', r)"
      using try_reorg_returns [OF reorg_start [OF inv h p sc]] unfolding cw by blast
    then show ?thesis using s
      by (cases ok; cases r) (auto simp: integrate_side_def Let_def)
  qed
  show ?thesis
    using ps pass side
    by (auto simp: accept_body_def split: option.split sum.split)
qed

lemma apply_core_returns:
  assumes inv: "chain_inv X ht m" and h: "honest ht blk"
  shows "\<exists>m' st. apply_core X blk src m = Ret (m', st)"
proof -
  let ?m = "clear_pow_prevalidation (block_hash blk) m"
  have "dc_ok (ds_cache ?m)" using inv by (simp add: chain_inv_def base_ok_def clear_pow_prevalidation_def)
  then have inv': "chain_inv X ht ?m" using chain_inv_same [OF same_chain_clear inv] by blast
  show ?thesis
  proof (cases "structural_check X ?m blk \<noteq> None \<or> number (header blk) = 0
      \<or> known ?m (parent_hash (header blk)) = None")
    case True
    then show ?thesis
      using known_iff [OF inv'] by (auto simp: apply_core_def Let_def split: prod.split option.split)
  next
    case False
    then have k: "known ?m (parent_hash (header blk)) \<noteq> None" by blast
    obtain m1 r where a: "accept_header X blk ?m = Ret (m1, r)"
      using accept_header_returns [OF inv' k] by blast
    show ?thesis
    proof (cases r)
      case (Some x)
      then show ?thesis using False a known_iff [OF inv'] by (auto simp: apply_core_def Let_def)
    next
      case None
      have dc: "dc_ok (ds_cache m1)" using accept_header_pow(1) [OF a] inv' by (simp add: chain_inv_def base_ok_def)
      have sc: "same_chain ?m m1" using accept_header_frame [OF a] .
      have inv1: "chain_inv X ht m1" using chain_inv_same [OF sc inv' dc] .
      have w: "work_at ?m (parent_hash (header blk)) + ucast (difficulty (header blk)) = candidate_work m1 blk"
        by (simp add: candidate_work_def same_chain_queries [OF sc])
      have "\<exists>m' st. accept_body X blk (candidate_work m1 blk) (work_at ?m (tip_hash ?m)) m1 = Ret (m', st)"
      proof (rule accept_body_returns [OF inv1 h refl])
        fix s assume "check_coinbase_height blk = None" "first_duplicate_tx X [] (txs blk) = None"
          "\<exists>s0. parent_state X m1 blk = Ret (Inr s0) \<and> execute_candidate X s0 blk = Inr s"
        then have "passed X blk ?m s"
          using False accept_header_ok [OF a [unfolded None]]
          by (auto simp: passed_def same_chain_checks [OF sc])
        then show "passed X blk m1 s" by (simp add: passed_same [OF sc])
      qed
      then show ?thesis using False a None known_iff [OF inv'] w
        by (auto simp: apply_core_def Let_def)
    qed
  qed
qed

section \<open>The whole recursion\<close>

lemma take_waiting_facts:
  assumes "take_waiting h m = (m', ws)" and wf: "bt_wf (orphan_pool m)"
  shows "\<exists>p. m' = m\<lparr>orphan_pool := p\<rparr> \<and> bt_wf p \<and> pool_blocks p \<subseteq> pool_blocks (orphan_pool m)"
    and "fst ` set ws \<subseteq> pool_blocks (orphan_pool m)"
proof -
  show "\<exists>p. m' = m\<lparr>orphan_pool := p\<rparr> \<and> bt_wf p \<and> pool_blocks p \<subseteq> pool_blocks (orphan_pool m)"
  proof (cases "bt_lookup (orphan_pool m) h")
    case None
    then show ?thesis using assms by (intro exI [of _ "orphan_pool m"]) (simp add: take_waiting_def)
  next
    case (Some v)
    then show ?thesis using assms pool_blocks_remove [of h "orphan_pool m"]
      by (intro exI [of _ "bt_remove h (orphan_pool m)"]) (simp add: take_waiting_def)
  qed
  show "fst ` set ws \<subseteq> pool_blocks (orphan_pool m)"
    using assms pool_blocks_lookup [of "orphan_pool m" h]
    by (cases "bt_lookup (orphan_pool m) h") (auto simp: take_waiting_def)
qed

lemma chain_inv_waiting:
  assumes inv: "chain_inv X ht m" and w: "take_waiting h m = (m', ws)"
  shows "chain_inv X ht m' \<and> (\<forall>e\<in>set ws. honest ht (fst e))"
proof -
  have wf: "bt_wf (orphan_pool m)" using inv by (simp add: chain_inv_def base_ok_def)
  have good: "\<forall>b\<in>pool_blocks (orphan_pool m). honest ht b" using inv by (simp add: chain_inv_def)
  obtain p where p: "m' = m\<lparr>orphan_pool := p\<rparr>" "bt_wf p" "pool_blocks p \<subseteq> pool_blocks (orphan_pool m)"
    using take_waiting_facts(1) [OF w wf] by blast
  have "chain_inv X ht m'" unfolding p(1)
    by (rule chain_inv_frame [OF inv])
      (use p(2,3) good inv in \<open>auto simp: chain_inv_def base_ok_def\<close>)
  then show ?thesis using take_waiting_facts(2) [OF w wf] good by auto
qed

lemma chain_inv_forget: "chain_inv X ht m \<Longrightarrow> chain_inv X ht (forget_orphan b m)"
  by (rule chain_inv_frame) (simp_all add: forget_orphan_def chain_inv_def base_ok_def)

interpretation chain: accept_total X "chain_inv X ht" "honest ht" for X :: "('db, 'x) ext_scheme" and ht
proof unfold_locales
  fix m m' :: "'db machine" and blk src st
  show "chain_inv X ht m \<Longrightarrow> honest ht blk \<Longrightarrow> apply_core X blk src m = Ret (m', st) \<Longrightarrow> chain_inv X ht m'"
    by (rule apply_core_inv)
  show "chain_inv X ht m \<Longrightarrow> honest ht blk \<Longrightarrow> \<exists>m' st. apply_core X blk src m = Ret (m', st)"
    by (rule apply_core_returns)
  show "chain_inv X ht m \<Longrightarrow> take_waiting h m = (m', ws) \<Longrightarrow> chain_inv X ht m' \<and> (\<forall>e\<in>set ws. honest ht (fst e))"
    for h ws by (rule chain_inv_waiting)
  show "chain_inv X ht m \<Longrightarrow> chain_inv X ht (forget_orphan blk m)" by (rule chain_inv_forget)
  show "chain_inv X ht m \<Longrightarrow> base_ok m" by (simp add: chain_inv_def)
qed

text \<open>The size of the pool is bounded whatever blocks arrive.\<close>

definition pool_bounded :: "'db machine \<Rightarrow> bool" where
  "pool_bounded m \<longleftrightarrow> base_ok m \<and> pool_total (orphan_pool m) \<le> ORPHAN_POOL_MAX"

lemma apply_core_pool_bounded:
  assumes b: "pool_bounded m" and core: "apply_core X blk src m = Ret (m', st)"
  shows "pool_bounded m'"
proof -
  have base: "base_ok m" and le: "pool_total (orphan_pool m) \<le> ORPHAN_POOL_MAX"
    using b by (simp_all add: pool_bounded_def)
  have dc: "dc_ok (ds_cache m)" and wf: "bt_wf (orphan_pool m)" using base by (simp_all add: base_ok_def)
  have "pool_total (orphan_pool m') \<le> ORPHAN_POOL_MAX"
  proof (cases "orphan_pool m' = orphan_pool m")
    case True
    then show ?thesis using le by simp
  next
    case False
    from core dc show ?thesis
    proof (cases rule: apply_core_cases)
      case (Orphaned m1 peer)
      have "orphan_pool m1 = orphan_pool m" using same_chainD(9) [OF Orphaned(6)] .
      then show ?thesis using add_orphan_total [of m1 blk peer] wf le by (simp add: Orphaned(7))
    next
      case (Reorganised s m1 m2 recovery)
      then show ?thesis using False same_chainD(9) [OF Reorganised(5)] try_reorg_pool [OF Reorganised(7)]
        by (simp add: record_side_block_def)
    next
      case (Tip s m1)
      then show ?thesis using False same_chainD(9) [OF Tip(5)] same_chainD(9) [OF Tip(6)]
        by (simp add: extend_chain_def push_canonical_def)
    next
      case (Side s m1)
      then show ?thesis using False same_chainD(9) [OF Side(5)] same_chainD(9) [OF Side(6)]
        by (simp add: record_side_block_def)
    next
      case (Gen m1)
      then show ?thesis using False same_chainD(9) [OF Gen(6)] by (simp add: push_canonical_def)
    next
      case (Reject r)
      then show ?thesis using False same_chainD(9) [OF Reject(2)] by simp
    qed
  qed
  then show ?thesis using apply_core_base [OF core base] by (simp add: pool_bounded_def)
qed

interpretation pool: accept_invariant X pool_bounded "\<lambda>_. True" for X :: "('db, 'x) ext_scheme"
proof unfold_locales
  fix m m' :: "'db machine" and h ws
  assume b: "pool_bounded m" and w: "take_waiting h m = (m', ws)"
  have "pool_total (orphan_pool m') \<le> pool_total (orphan_pool m)" "base_ok m'"
    using take_waiting_pool [OF w] b by (simp_all add: pool_bounded_def)
  then show "pool_bounded m' \<and> (\<forall>e\<in>set ws. True)" using b by (simp add: pool_bounded_def)
next
  fix m m' :: "'db machine" and blk src st
  show "pool_bounded m \<Longrightarrow> apply_core X blk src m = Ret (m', st) \<Longrightarrow> pool_bounded m'"
    by (rule apply_core_pool_bounded)
  show "pool_bounded m \<Longrightarrow> pool_bounded (forget_orphan blk m)" by (simp add: pool_bounded_def)
qed

end
