(* ===== verification/Chain_Safety.thy ===== *)
theory Chain_Safety
  imports Acceptance
begin

text \<open>
  What the acceptance pipeline guarantees from the genesis block on: the states it reaches, and
  what one call can change. The relation \<open>reached\<close> starts with the genesis block on an empty
  store and then feeds blocks with honest heights in any order, from any peers.
\<close>

section \<open>From genesis\<close>

definition start_machine :: "'db \<Rightarrow> (nat \<Rightarrow> u64) \<Rightarrow> 'db machine" where
  "start_machine d ck =
     chain_state.extend (empty_chain d)
       (machine.fields [] {} dc_empty ck 0)"

lemma start_machine_sel [simp]:
  "blocks (start_machine d ck) = []" "balances (start_machine d ck) = []" "nonces (start_machine d ck) = []"
  "seen_blocks (start_machine d ck) = {}" "side_blocks (start_machine d ck) = []"
  "cumulative_work (start_machine d ck) = Map.empty" "orphan_pool (start_machine d ck) = []"
  "canon_index (start_machine d ck) = Map.empty" "pow_set (start_machine d ck) = {}"
  "ds_cache (start_machine d ck) = dc_empty" "db (start_machine d ck) = d"
  "(start_machine d ck)\<lparr>db := d'\<rparr> = start_machine d' ck"
  by (simp_all add: start_machine_def empty_chain_def chain_state.extend_def machine.fields_def)

definition genesis_machine :: "'db \<Rightarrow> (nat \<Rightarrow> u64) \<Rightarrow> 'db machine" where
  "genesis_machine d ck = push_canonical genesis_block 1 (start_machine d ck)"

lemma apply_genesis_block:
  "apply_block X genesis_block src (start_machine d ck) =
     (case sled_apply_batch X d (extension_batch X genesis_block) of
        (d', False) \<Rightarrow> Ret (start_machine d' ck, Rejected CanonicalPersistenceFailed)
      | (d', True) \<Rightarrow> Ret (genesis_machine d' ck, CanonExtension 0))"
proof -
  have root: "compute_tx_root X [] = null_hash" using genesis_tx_root [of X] by simp
  have "apply_core X genesis_block src (start_machine d ck) =
     (case sled_apply_batch X d (extension_batch X genesis_block) of
        (d', False) \<Rightarrow> Ret (start_machine d' ck, Final (Rejected CanonicalPersistenceFailed))
      | (d', True) \<Rightarrow> Ret (genesis_machine d' ck, Final (CanonExtension 0)))"
    by (simp add: apply_core_def Let_def clear_pow_prevalidation_def structural_check_def root
        BLOCK_WEIGHT_LIMIT_def apply_genesis_def persist_canonical_extension_def genesis_machine_def
        split: prod.split bool.split)
  then show ?thesis by (simp add: apply_block_def split: prod.split bool.split)
qed

lemma genesis_machine_inv:
  assumes h: "ht GENESIS_HASH = 0"
  shows "chain_inv X ht (genesis_machine d ck)"
proof -
  have hon: "honest ht genesis_block" using h by (simp add: honest_def)
  have k: "known (genesis_machine d ck) h = (if h = GENESIS_HASH then Some genesis_block else None)" for h
    by (simp add: known_def genesis_machine_def push_canonical_def block_index_def)
  have rep: "replay_checked X s genesis_block = Inr s" for s
    by (simp add: replay_checked_def)
  show ?thesis
    unfolding chain_inv_def
  proof (intro conjI)
    show "known_ok ht (genesis_machine d ck)" "seen_ok (genesis_machine d ck)"
      unfolding known_ok_def seen_ok_def k
      using hon by (simp_all add: genesis_machine_def push_canonical_def)
    show "ledger_ok X (genesis_machine d ck)"
      by (simp add: ledger_ok_def genesis_machine_def push_canonical_def rep account_state_def
          tx_execution_state_new_def)
    show "index_ok (genesis_machine d ck)"
      by (simp add: index_ok_def genesis_machine_def push_canonical_def height_index_def fun_eq_iff)
  qed (simp_all add: base_ok_def linked_def side_ok_def pool_blocks_def genesis_machine_def push_canonical_def)
qed

inductive reached :: "('db, 'x) ext_scheme \<Rightarrow> (string \<Rightarrow> nat) \<Rightarrow> 'db machine \<Rightarrow> bool"
  for X :: "('db, 'x) ext_scheme" and ht :: "string \<Rightarrow> nat" where
  reached_genesis:
    "ht GENESIS_HASH = 0 \<Longrightarrow>
     apply_block X genesis_block src (start_machine d ck) = Ret (m, CanonExtension 0) \<Longrightarrow> reached X ht m"
| reached_block:
    "reached X ht m \<Longrightarrow> honest ht blk \<Longrightarrow> apply_block X blk src m = Ret (m', r) \<Longrightarrow> reached X ht m'"

lemma reached_inv: "reached X ht m \<Longrightarrow> chain_inv X ht m"
proof (induction rule: reached.induct)
  case (reached_genesis src d ck m)
  then obtain d' where "m = genesis_machine d' ck"
    by (auto simp: apply_genesis_block split: prod.splits bool.splits)
  then show ?case using genesis_machine_inv [of ht X d' ck] reached_genesis(1) by simp
next
  case (reached_block m blk src m' r)
  then show ?case using chain.apply_block_inv [of X blk src m m' r ht] by blast
qed

section \<open>One pass\<close>

text \<open>A rejected block leaves the chain, the accounts and the orphans as they were.\<close>

lemma apply_core_Promote:
  "apply_core X blk src m = Ret (m', Promote r) \<Longrightarrow> dc_ok (ds_cache m) \<Longrightarrow> is_accepted r"
  by (erule (1) apply_core_cases) (simp_all add: is_accepted_def)

lemma apply_block_rejected:
  assumes r: "apply_block X blk src m = Ret (m', Rejected e)" and ok: "base_ok m"
  shows "same_chain m m'"
proof -
  have dc: "dc_ok (ds_cache m)" using ok by (simp add: base_ok_def)
  obtain m1 st where core: "apply_core X blk src m = Ret (m1, st)"
    using r by (auto simp: apply_block_unfold [OF ok] split: outcome.splits)
  have st: "st = Final (Rejected e) \<and> m1 = m'"
  proof (cases st)
    case (Final q)
    then show ?thesis using r core by (simp add: apply_block_unfold [OF ok])
  next
    case (Promote q)
    then have "q = Rejected e"
      using r core by (auto simp: apply_block_unfold [OF ok] split: outcome.splits)
    then show ?thesis using apply_core_Promote [OF core [unfolded Promote] dc] by (simp add: is_accepted_def)
  qed
  from core dc show ?thesis
    by (cases rule: apply_core_cases) (use st in auto)
qed

text \<open>The work of the tip.\<close>

definition tip_work :: "('db, 'm) chain_state_scheme \<Rightarrow> u128" where
  "tip_work g = work_at g (tip_hash g)"

lemma tip_work_same: "same_chain m m' \<Longrightarrow> tip_work m' = tip_work m"
  by (simp add: tip_work_def same_chain_queries)

lemma tip_work_cong:
  "blocks g' = blocks g \<Longrightarrow> cumulative_work g' = cumulative_work g \<Longrightarrow> tip_work g' = tip_work g"
  unfolding tip_work_def work_at_def tip_hash_def by (simp only:)

lemma passed_difficulty: "passed X blk m s \<Longrightarrow> difficulty (header blk) \<noteq> 0"
  by (auto simp: passed_def check_difficulty_def Let_def DIFFICULTY_FLOOR_def split: if_splits)

text \<open>What a pass does to the canonical chain: nothing, or the tip's work strictly grows.\<close>

lemma candidate_work_more:
  assumes inv: "chain_inv X ht m" and p: "passed X blk m s" and h: "honest ht blk"
  shows "work_at m (parent_hash (header blk)) < candidate_work m blk"
proof -
  obtain b where "known m (parent_hash (header blk)) = Some b" using passed_facts(3) [OF inv p] by blast
  then have "unat (candidate_work m blk) = unat (work_at m (parent_hash (header blk))) + unat (difficulty (header blk))"
    using inv passed_facts(2) [OF inv p] h by (intro candidate_work_sum) (simp_all add: chain_inv_def)
  moreover have "unat (difficulty (header blk)) \<noteq> 0"
    using passed_difficulty [OF p] by (simp add: unat_eq_0)
  ultimately show ?thesis by (simp add: word_less_nat_alt)
qed

lemma apply_core_tip:
  assumes inv: "chain_inv X ht m" and h: "honest ht blk" and core: "apply_core X blk src m = Ret (m', st)"
  shows "blocks m' = blocks m \<and> account_state m' = account_state m \<and> tip_work m' = tip_work m
      \<and> (\<forall>n. st \<noteq> Promote (CanonExtension n))
    \<or> tip_work m < tip_work m' \<and> last (blocks m') = blk \<and> tip_work m' = candidate_work m blk"
proof -
  have dc: "dc_ok (ds_cache m)" using inv by (simp add: chain_inv_def base_ok_def)
  have ne: "blocks m \<noteq> []" using inv by (simp add: chain_inv_def linked_def)
  show ?thesis using core dc
  proof (cases rule: apply_core_cases)
    case (Reject r)
    then show ?thesis by (simp add: same_chainD same_chain_queries tip_work_same)
  next
    case (Gen m1)
    then show ?thesis using ne by simp
  next
    case (Orphaned m1 peer)
    obtain i t p where a: "add_orphan blk peer m1 = m1\<lparr>orphan_by_hash := i, ticks := t, orphan_pool := p\<rparr>"
      using add_orphan_frame by blast
    show ?thesis using Orphaned(1) same_chainD [OF Orphaned(6)] same_chain_queries [OF Orphaned(6)]
      by (simp add: Orphaned(7) a account_state_def tip_work_def tip_hash_def work_at_def)
  next
    case (Tip s m1)
    let ?m = "extend_chain blk (candidate_work m blk) s m1"
    have "last (blocks ?m) = blk" "tip_work ?m = candidate_work m blk"
      by (simp_all add: extend_chain_def push_canonical_def tip_work_def tip_hash_def work_at_def)
    then have "last (blocks m') = blk" "tip_work m' = candidate_work m blk"
      using same_chainD(1) [OF Tip(6)] tip_work_same [OF Tip(6)] by simp_all
    then show ?thesis using candidate_work_more [OF inv Tip(2) h] Tip(4) by (simp add: tip_work_def)
  next
    case (Side s m1)
    have fresh: "known m (block_hash blk) = None" using passed_facts(1) [OF inv Side(2)] .
    have m': "blocks m' = blocks m" "account_state m' = account_state m"
      "cumulative_work m' = (cumulative_work m)(block_hash blk \<mapsto> candidate_work m blk)"
      using same_chainD [OF Side(6)] same_chain_queries [OF Side(6)] same_chainD [OF Side(5)]
        same_chain_queries [OF Side(5)]
      by (simp_all add: record_side_block_def account_state_def)
    have "known m (tip_hash m) = Some (last (blocks m))"
      using known_canonical [of "last (blocks m)" m] inv ne by (simp add: tip_hash_last chain_inv_def)
    then have "tip_hash m \<noteq> block_hash blk" using fresh by auto
    moreover have "tip_hash m' = tip_hash m" by (simp add: tip_hash_def m'(1))
    ultimately show ?thesis using m' Side(1) by (simp add: tip_work_def work_at_def)
  next
    case (Reorganised s m1 m2 recovery)
    have "ds_cache m2 = ds_cache m1"
      using try_reorg_ds_cache [OF Reorganised(7)] by (simp add: record_side_block_def)
    then have dc1: "dc_ok (ds_cache m1)" using apply_core_dc_ok [OF core dc] Reorganised(8) by simp
    let ?g = "record_side_block blk (candidate_work m blk) m1"
    note re = chain_inv_reorg [OF reorg_start [OF inv h Reorganised(2,5) dc1] Reorganised(7)]
    have wf: "bt_wf (side_blocks m1)" using inv same_chainD(7) [OF Reorganised(5)]
      by (simp add: chain_inv_def side_ok_def)
    have last: "last (blocks m2) = blk" by (rule re(4)) (use wf in \<open>simp add: record_side_block_def\<close>)
    have "blocks m2 \<noteq> []" using re(1) by (simp add: chain_inv_def linked_def)
    then have "tip_work m2 = candidate_work m blk"
      using last re(3) by (simp add: tip_work_def tip_hash_last work_at_def record_side_block_def)
    moreover have "tip_work m' = tip_work m2" unfolding Reorganised(8) by (rule tip_work_cong) simp_all
    ultimately show ?thesis using last Reorganised(6,8) by (simp add: tip_work_def [of m])
  qed
qed

text \<open>No pass forgets a block.\<close>

lemma apply_core_known:
  assumes inv: "chain_inv X ht m" and h: "honest ht blk" and core: "apply_core X blk src m = Ret (m', st)"
  shows "known m' = known m \<and> cumulative_work m' = cumulative_work m \<and> (\<forall>r. st \<noteq> Promote r)
    \<or> known m (block_hash blk) = None \<and> known m' = (known m)(block_hash blk \<mapsto> blk)
        \<and> cumulative_work m' = (cumulative_work m)(block_hash blk \<mapsto> candidate_work m blk)"
proof -
  have dc: "dc_ok (ds_cache m)" using inv by (simp add: chain_inv_def base_ok_def)
  show ?thesis using core dc
  proof (cases rule: apply_core_cases)
    case (Reject r)
    then show ?thesis by (simp add: known_same_chain same_chainD)
  next
    case (Gen m1)
    then show ?thesis using inv by (simp add: chain_inv_def linked_def)
  next
    case (Orphaned m1 peer)
    obtain i t p where a: "add_orphan blk peer m1 = m1\<lparr>orphan_by_hash := i, ticks := t, orphan_pool := p\<rparr>"
      using add_orphan_frame by blast
    have "known m' = known m1" unfolding Orphaned(7) a by (rule known_cong) simp_all
    then show ?thesis using known_same_chain [OF Orphaned(6)] same_chainD(8) [OF Orphaned(6)]
      by (simp add: Orphaned(1,7) a)
  next
    case (Tip s m1)
    have "known m1 (block_hash blk) = None" "known m1 = known m"
      using passed_facts(1) [OF inv Tip(2)] known_same_chain [OF Tip(5)] by simp_all
    then show ?thesis
      using passed_facts(1) [OF inv Tip(2)] known_same_chain [OF Tip(6)] same_chainD(8) [OF Tip(6)]
        same_chainD(8) [OF Tip(5)] known_extend [of m1 blk "candidate_work m blk" s]
      by (simp add: extend_chain_def push_canonical_def)
  next
    case (Side s m1)
    have "known m1 (block_hash blk) = None" "known m1 = known m"
      using passed_facts(1) [OF inv Side(2)] known_same_chain [OF Side(5)] by simp_all
    then show ?thesis
      using passed_facts(1) [OF inv Side(2)] known_same_chain [OF Side(6)] same_chainD(8) [OF Side(6)]
        same_chainD(8) [OF Side(5)] known_record [of m1 blk "candidate_work m blk"]
      by (simp add: record_side_block_def)
  next
    case (Reorganised s m1 m2 recovery)
    have "ds_cache m2 = ds_cache m1"
      using try_reorg_ds_cache [OF Reorganised(7)] by (simp add: record_side_block_def)
    then have dc1: "dc_ok (ds_cache m1)" using apply_core_dc_ok [OF core dc] Reorganised(8) by simp
    note re = chain_inv_reorg [OF reorg_start [OF inv h Reorganised(2,5) dc1] Reorganised(7)]
    have "known m1 (block_hash blk) = None" "known m1 = known m"
      using passed_facts(1) [OF inv Reorganised(2)] known_same_chain [OF Reorganised(5)] by simp_all
    moreover have "known m' = known m2" unfolding Reorganised(8) by (rule known_cong) simp_all
    ultimately show ?thesis
      using re(2,3) same_chainD(8) [OF Reorganised(5)] known_record [of m1 blk "candidate_work m blk"]
      by (simp add: record_side_block_def Reorganised(8))
  qed
qed

section \<open>Whole calls\<close>

text \<open>How far a state has advanced past \<open>m0\<close>.\<close>

definition advances :: "('db, 'x) ext_scheme \<Rightarrow> (string \<Rightarrow> nat) \<Rightarrow> 'db machine \<Rightarrow> 'db machine \<Rightarrow> bool" where
  "advances X ht m0 m \<longleftrightarrow> chain_inv X ht m
     \<and> (\<forall>h b. known m0 h = Some b \<longrightarrow> known m h = Some b \<and> work_at m h = work_at m0 h)
     \<and> (blocks m = blocks m0 \<and> account_state m = account_state m0 \<and> tip_work m = tip_work m0
        \<or> tip_work m0 < tip_work m)"

lemma advances_core:
  assumes a: "advances X ht m0 m" and h: "honest ht blk" and core: "apply_core X blk src m = Ret (m', st)"
  shows "advances X ht m0 m'"
proof -
  have inv: "chain_inv X ht m" using a by (simp add: advances_def)
  have "known m' h = Some b \<and> work_at m' h = work_at m0 h" if k: "known m0 h = Some b" for h b
  proof -
    have m: "known m h = Some b" "work_at m h = work_at m0 h"
      using a k unfolding advances_def by blast+
    show ?thesis using apply_core_known [OF inv h core] m by (auto simp: work_at_def)
  qed
  moreover have "blocks m' = blocks m0 \<and> account_state m' = account_state m0 \<and> tip_work m' = tip_work m0
      \<or> tip_work m0 < tip_work m'"
    using apply_core_tip [OF inv h core] a unfolding advances_def by (auto intro: less_trans)
  ultimately show ?thesis using apply_core_inv [OF inv h core] by (simp add: advances_def)
qed

lemma advances_frame:
  assumes "advances X ht m0 m" "chain_inv X ht m'" "blocks m' = blocks m" "side_blocks m' = side_blocks m"
    "cumulative_work m' = cumulative_work m" "account_state m' = account_state m"
  shows "advances X ht m0 m'"
  using assms(1,2) unfolding advances_def known_cong [OF assms(3,4)] tip_work_cong [OF assms(3,5)]
    work_at_def assms(3,5,6) by blast

interpretation progress: accept_invariant X "advances X ht m0" "honest ht"
  for X :: "('db, 'x) ext_scheme" and ht and m0 :: "'db machine"
proof unfold_locales
  fix m m' :: "'db machine" and blk src st
  show "advances X ht m0 m \<Longrightarrow> honest ht blk \<Longrightarrow> apply_core X blk src m = Ret (m', st) \<Longrightarrow> advances X ht m0 m'"
    by (rule advances_core)
  show "advances X ht m0 (forget_orphan blk m)" if a: "advances X ht m0 m"
    using chain_inv_forget [of X ht m blk] a
    by (intro advances_frame [OF a]) (simp_all add: advances_def forget_orphan_def account_state_def)
next
  fix m m' :: "'db machine" and h ws
  assume a: "advances X ht m0 m" and w: "take_waiting h m = (m', ws)"
  have inv: "chain_inv X ht m" using a by (simp add: advances_def)
  then have "bt_wf (orphan_pool m)" by (simp add: chain_inv_def base_ok_def)
  then obtain p where p: "m' = m\<lparr>orphan_pool := p\<rparr>" using take_waiting_facts(1) [OF w] by blast
  note i = chain_inv_waiting [OF inv w]
  show "advances X ht m0 m' \<and> (\<forall>e\<in>set ws. honest ht (fst e))"
  proof
    show "advances X ht m0 m'"
      by (rule advances_frame [OF a]) (use i in \<open>simp_all add: p account_state_def\<close>)
  qed (use i in blast)
qed

lemma advances_refl: "chain_inv X ht m \<Longrightarrow> advances X ht m m"
  by (simp add: advances_def)

end
