(* ===== verification/Fork_Choice.thy ===== *)
theory Fork_Choice
  imports Chain_Safety
begin

text \<open>
  The fork choice. Every known block is valid on top of its parent, so a branch that outweighs the
  tip always replays, and with a store that accepts its writes the swap never falls back. Hence the
  node follows the heaviest block it knows. The ghost function \<open>st\<close> assigns to every known
  hash the accounts after it.
\<close>

section \<open>Accounts of every known block\<close>

definition states_ok :: "('db, 'x) ext_scheme \<Rightarrow> ('db, 'm) chain_state_scheme \<Rightarrow> (string \<Rightarrow> tx_execution_state) \<Rightarrow> bool" where
  "states_ok X g st \<longleftrightarrow> st GENESIS_HASH = tx_execution_state_new
     \<and> (\<forall>h b. known g h = Some b \<longrightarrow> number (header b) \<noteq> 0 \<longrightarrow>
          replay_checked X (st (parent_hash (header b))) b = Inr (st h))"

lemma states_canonical:
  assumes inv: "chain_inv X ht g" and st: "states_ok X g st" and i: "i < length (blocks g)"
  shows "replay_checked_all X tx_execution_state_new (take (Suc i) (blocks g)) = Inr (st (block_hash (blocks g ! i)))"
  using i
proof (induction i)
  case 0
  then have "blocks g ! 0 = genesis_block" using inv by (simp add: chain_inv_def linked_def hd_conv_nth)
  then show ?case using st 0 by (simp add: take_Suc_conv_app_nth replay_checked_def states_ok_def)
next
  case (Suc i)
  let ?b = "blocks g ! Suc i"
  have p: "parent_hash (header ?b) = block_hash (blocks g ! i)" "number (header ?b) \<noteq> 0"
    using inv Suc.prems by (simp_all add: chain_inv_def linked_def)
  have "known g (block_hash ?b) = Some ?b"
    using known_canonical [of ?b g] inv Suc.prems by (simp add: chain_inv_def)
  then have "replay_checked X (st (block_hash (blocks g ! i))) ?b = Inr (st (block_hash ?b))"
    using st p unfolding states_ok_def by metis
  then show ?case
    using Suc.IH Suc.prems by (simp add: take_Suc_conv_app_nth [OF Suc.prems] replay_checked_all_append)
qed

lemma states_tip:
  assumes inv: "chain_inv X ht g" and st: "states_ok X g st"
  shows "account_state g = st (tip_hash g)"
proof -
  have ne: "blocks g \<noteq> []" using inv by (simp add: chain_inv_def linked_def)
  then have "replay_checked_all X tx_execution_state_new (blocks g) = Inr (st (block_hash (last (blocks g))))"
    using states_canonical [OF inv st, of "length (blocks g) - 1"] by (simp add: last_conv_nth)
  then show ?thesis using inv ne by (simp add: chain_inv_def ledger_ok_def tip_hash_last)
qed

section \<open>Side branches\<close>

lemma side_lookup_facts:
  assumes inv: "chain_inv X ht g" and l: "bt_lookup (side_blocks g) h = Some b"
  shows "known g h = Some b" "block_hash b = h" "number (header b) \<noteq> 0"
    "known g (parent_hash (header b)) \<noteq> None" "canon_index g h = None"
proof -
  have s: "h \<notin> block_hash ` set (blocks g)" "number (header b) \<noteq> 0"
    using inv l unfolding chain_inv_def side_ok_def by blast+
  then have bi: "block_index (blocks g) h = None" by (simp add: block_index_None)
  then show k: "known g h = Some b" using l by (simp add: known_def)
  show "number (header b) \<noteq> 0" by (rule s(2))
  show "block_hash b = h" "known g (parent_hash (header b)) \<noteq> None"
    using inv k s(2) unfolding chain_inv_def known_ok_def by blast+
  show "canon_index g h = None" using inv bi by (simp add: chain_inv_def index_ok_def height_index_block_index)
qed

lemma side_path_states:
  assumes inv: "chain_inv X ht g" and st: "states_ok X g st"
  shows "side_path (canon_index g) (side_blocks g) h path c \<Longrightarrow>
    replay_checked_all X (st c) (rev path) = Inr (st h)"
proof (induction path arbitrary: h)
  case Nil
  then show ?case by simp
next
  case (Cons b path)
  have l: "bt_lookup (side_blocks g) h = Some b"
    and p: "side_path (canon_index g) (side_blocks g) (parent_hash (header b)) path c"
    using Cons.prems by simp_all
  note f = side_lookup_facts [OF inv l]
  have "replay_checked X (st (parent_hash (header b))) b = Inr (st h)"
    using st f(1,3) unfolding states_ok_def by blast
  then show ?case using Cons.IH [OF p] by (simp add: replay_checked_all_append)
qed

lemma chained_snoc:
  "chained c (as @ [b]) \<longleftrightarrow> chained c as \<and> parent_hash (header b) = (if as = [] then c else block_hash (last as))"
  by (induction as arbitrary: c) auto

lemma side_path_chained:
  assumes inv: "chain_inv X ht g"
  shows "side_path (canon_index g) (side_blocks g) h path c \<Longrightarrow> chained c (rev path)
    \<and> h = (if path = [] then c else block_hash (hd path))"
proof (induction path arbitrary: h)
  case Nil
  then show ?case by simp
next
  case (Cons b path)
  have l: "bt_lookup (side_blocks g) h = Some b"
    and p: "side_path (canon_index g) (side_blocks g) (parent_hash (header b)) path c"
    using Cons.prems by simp_all
  show ?case
    using Cons.IH [OF p] side_lookup_facts(2) [OF inv l] by (auto simp: chained_snoc last_rev)
qed

lemma side_path_end:
  assumes inv: "chain_inv X ht g"
  shows "side_path (canon_index g) (side_blocks g) h path c \<Longrightarrow> known g h \<noteq> None \<Longrightarrow> known g c \<noteq> None"
proof (induction path arbitrary: h)
  case Nil
  then show ?case by simp
next
  case (Cons b path)
  have l: "bt_lookup (side_blocks g) h = Some b"
    and p: "side_path (canon_index g) (side_blocks g) (parent_hash (header b)) path c"
    using Cons.prems(1) by simp_all
  show ?case by (rule Cons.IH [OF p side_lookup_facts(4) [OF inv l]])
qed

lemma walk_side_stop: "walk_side n canon side acc h = Ret (acc', c, None) \<Longrightarrow> bt_lookup side c = None \<and> canon c = None"
  by (induction n arbitrary: acc h) (auto split: option.splits)

text \<open>From a known hash the walk ends at a canonical block.\<close>

lemma walk_known:
  assumes inv: "chain_inv X ht g" and h: "known g h \<noteq> None"
  obtains path c k where
    "walk_side (walk_fuel (side_blocks g)) (canon_index g) (side_blocks g) [] h = Ret (path, c, Some k)"
    "side_path (canon_index g) (side_blocks g) h path c" "canon_index g c = Some k"
proof -
  obtain acc c r where w: "walk_side (walk_fuel (side_blocks g)) (canon_index g) (side_blocks g) [] h = Ret (acc, c, r)"
    using walk_side_returns [OF side_ranked [OF inv], of "canon_index g" "[]" h] by auto
  from walk_side_Ret [OF w] have p: "side_path (canon_index g) (side_blocks g) h acc c" "canon_index g c = r" by auto
  have "known g c \<noteq> None" using side_path_end [OF inv p(1) h] .
  then have "r \<noteq> None" using walk_side_stop [of _ _ _ _ _ acc c] w known_iff [OF inv, of c] by fastforce
  then show ?thesis using that w p by auto
qed

lemma replay_checked_replay_append:
  "replay_checked_all X s as = Inr s1 \<Longrightarrow> replay_checked_all X s1 bs = Inr s2 \<Longrightarrow>
     replay_blocks X s (as @ bs) = Inr s2"
  by (intro replay_checked_all_replay) (simp add: replay_checked_all_append)

lemma unat_height_Suc:
  "chain_inv X ht g \<Longrightarrow> unat (k :: u64) < length (blocks g) \<Longrightarrow> unat (k + 1) = Suc (unat k)"
  using chain_length [of X ht g] by (simp add: unat_plus_small)

text \<open>The accounts the code reconstructs for a parent are the ones of that parent.\<close>

lemma parent_state_states:
  assumes inv: "chain_inv X ht g" and st: "states_ok X g st"
    and p: "known g (parent_hash (header b)) \<noteq> None"
  shows "parent_state X g b = Ret (Inr (st (parent_hash (header b))))"
proof (cases "parent_hash (header b) = tip_hash g")
  case True
  then show ?thesis using states_tip [OF inv st] by (simp add: parent_state_def)
next
  case False
  let ?h = "parent_hash (header b)"
  have canon: "reconstruct_canonical_state_at_height X g k = Inr (st c)" if k: "canon_index g c = Some k" for c k
  proof -
    have i: "unat k < length (blocks g)" "block_hash (blocks g ! unat k) = c"
      using canon_index_Some [OF inv k] by simp_all
    then show ?thesis
      using replay_checked_all_replay [OF states_canonical [OF inv st i(1)]] unat_height_Suc [OF inv i(1)]
      by (simp add: reconstruct_canonical_state_at_height_def)
  qed
  show ?thesis
  proof (cases "canon_index g ?h")
    case (Some k)
    then show ?thesis using False canon [OF Some]
      by (simp add: parent_state_def reconstruct_parent_state_for_side_chain_def)
  next
    case None
    obtain path c k where w: "walk_side (walk_fuel (side_blocks g)) (canon_index g) (side_blocks g) [] ?h = Ret (path, c, Some k)"
      and path: "side_path (canon_index g) (side_blocks g) ?h path c" and k: "canon_index g c = Some k"
      using walk_known [OF inv p] by blast
    have "replay_blocks X (st c) (rev path) = Inr (st ?h)"
      using replay_checked_all_replay [OF side_path_states [OF inv st path]] .
    then show ?thesis using False None w canon [OF k]
      by (simp add: parent_state_def reconstruct_parent_state_for_side_chain_def)
  qed
qed

section \<open>A heavier branch is always taken\<close>

definition store_accepts :: "('db, 'x) ext_scheme \<Rightarrow> bool" where
  "store_accepts X \<longleftrightarrow> (\<forall>d ops. snd (sled_apply_batch X d ops))"

lemma reconstruct_branch_ok:
  "chained c bs \<Longrightarrow> replay_checked_all X s bs = Inr s' \<Longrightarrow> reconstruct_branch_state X c s bs = Inr s'"
  by (induction bs arbitrary: c s) (auto split: sum.splits)

lemma replay_checked_root:
  "replay_checked X s b = Inr s' \<Longrightarrow> number (header b) \<noteq> 0 \<Longrightarrow>
     compute_state_root X (es_balances s') (es_nonces s') = Inr (state_root (header b))"
  by (auto simp: replay_checked_def split: prod.splits sum.splits if_splits)

lemma fold_promote_nonempty: "pr_blocks p \<noteq> [] \<Longrightarrow> pr_blocks (fold promote_block seg p) \<noteq> []"
  by (induction seg arbitrary: p) (auto simp: promote_block_def Let_def)

lemma try_reorg_succeeds:
  assumes inv: "chain_inv X ht g" and st: "states_ok X g st" and acc: "store_accepts X"
    and l: "bt_lookup (side_blocks g) (block_hash blk) = Some blk"
  shows "\<exists>g' r. try_reorg X blk g = Ret (g', Some r)"
proof -
  let ?h = "block_hash blk"
  note f = side_lookup_facts [OF inv l]
  obtain path c k where w: "walk_side (walk_fuel (side_blocks g)) (canon_index g) (side_blocks g) [] ?h = Ret (path, c, Some k)"
    and path: "side_path (canon_index g) (side_blocks g) ?h path c" and k: "canon_index g c = Some k"
    using walk_known [OF inv, of ?h] f(1) by auto
  have seg: "collect_new_segment g ?h = Ret (rev path)" using w by (simp add: collect_new_segment_def)
  have ne: "path \<noteq> []" using path f(5) k by auto
  then obtain a as where as: "rev path = a # as" by (cases "rev path") auto
  have ch: "chained c (a # as)" using side_path_chained [OF inv path] as by simp
  then have pa: "parent_hash (header a) = c" by simp
  have rep: "replay_checked_all X (st c) (a # as) = Inr (st ?h)"
    using side_path_states [OF inv st path] as by simp
  have i: "unat k < length (blocks g)" "block_hash (blocks g ! unat k) = c"
    using canon_index_Some [OF inv k] by simp_all
  have anc: "reorg_reconstruct_canonical X g k = Inr (st c)"
    using states_canonical [OF inv st i(1)] unat_height_Suc [OF inv i(1)] i(2)
    by (simp add: reorg_reconstruct_canonical_def)
  have br: "reconstruct_branch_state X c (st c) (a # as) = Inr (st ?h)"
    using ch rep by (rule reconstruct_branch_ok)
  have root: "compute_state_root X (es_balances (st ?h)) (es_nonces (st ?h)) = Inr (state_root (header blk))"
    using st f(1,3) by (intro replay_checked_root) (auto simp: states_ok_def)
  let ?p = "reorg_promotion g c (unat k) (a # as)"
  have "pr_blocks ?p \<noteq> []"
    unfolding reorg_promotion_def using i(1)
    by (simp only: Let_def case_prod_beta) (rule fold_promote_nonempty, auto)
  then have "\<exists>d. persist_canonical_reorg X (pr_blocks ?p) (current_height g) g = (g\<lparr>db := d\<rparr>, True)"
    using acc by (auto simp: persist_canonical_reorg_def store_accepts_def split: prod.split)
      (metis snd_conv)+
  then obtain d where d: "persist_canonical_reorg X (pr_blocks ?p) (current_height g) g = (g\<lparr>db := d\<rparr>, True)" ..
  show ?thesis
    using seg as k anc br root i(1) d pa
    by (simp add: try_reorg_def Let_def del: reconstruct_branch_state.simps)
qed

section \<open>The tip is the heaviest block\<close>

definition best_inv :: "('db, 'x) ext_scheme \<Rightarrow> (string \<Rightarrow> nat) \<Rightarrow> 'db machine \<Rightarrow> bool" where
  "best_inv X ht m \<longleftrightarrow> chain_inv X ht m \<and> (\<exists>st. states_ok X m st)
     \<and> (\<forall>h. known m h \<noteq> None \<longrightarrow> work_at m h \<le> tip_work m)"

lemma states_ok_known: "known g' = known g \<Longrightarrow> states_ok X g' st = states_ok X g st"
  by (simp add: states_ok_def)

lemma genesis_known: "chain_inv X ht m \<Longrightarrow> known m GENESIS_HASH = Some genesis_block"
  using known_canonical [of genesis_block m] hd_in_set [of "blocks m"]
  by (simp add: chain_inv_def linked_def)

lemma states_ok_add:
  assumes inv: "chain_inv X ht m" and st: "states_ok X m st" and fresh: "known m (block_hash b) = None"
    and r: "replay_checked X (st (parent_hash (header b))) b = Inr s"
    and p: "known m (parent_hash (header b)) \<noteq> None"
    and k: "known m' = (known m)(block_hash b \<mapsto> b)"
  shows "states_ok X m' (st(block_hash b := s))"
proof -
  have g: "block_hash b \<noteq> GENESIS_HASH" using genesis_known [OF inv] fresh by auto
  have "replay_checked X ((st(block_hash b := s)) (parent_hash (header c))) c = Inr ((st(block_hash b := s)) h)"
    if c: "known m' h = Some c" "number (header c) \<noteq> 0" for h c
  proof (cases "h = block_hash b")
    case True
    then have "c = b" using c k by simp
    moreover have "parent_hash (header b) \<noteq> block_hash b" using p fresh by auto
    ultimately show ?thesis using True r by simp
  next
    case False
    then have kc: "known m h = Some c" using c k by simp
    then have "known m (parent_hash (header c)) \<noteq> None"
      using inv c(2) unfolding chain_inv_def known_ok_def by blast
    then have "parent_hash (header c) \<noteq> block_hash b" using fresh by auto
    moreover have "replay_checked X (st (parent_hash (header c))) c = Inr (st h)"
      using st kc c(2) unfolding states_ok_def by blast
    ultimately show ?thesis using False by simp
  qed
  then show ?thesis using st g by (simp add: states_ok_def)
qed

lemma passed_replay:
  assumes inv: "chain_inv X ht m" and st: "states_ok X m st" and p: "passed X blk m s"
  shows "replay_checked X (st (parent_hash (header blk))) blk = Inr s"
proof -
  have "known m (parent_hash (header blk)) \<noteq> None" using passed_facts(3) [OF inv p] by auto
  then have "parent_state X m blk = Ret (Inr (st (parent_hash (header blk))))"
    by (rule parent_state_states [OF inv st])
  then show ?thesis using p by (auto simp: passed_def intro: execute_candidate_replay)
qed

lemma apply_core_states:
  assumes inv: "chain_inv X ht m" and st: "states_ok X m st" and h: "honest ht blk"
    and core: "apply_core X blk src m = Ret (m', r)"
  shows "\<exists>st. states_ok X m' st"
proof (cases "known m' = known m")
  case True
  then show ?thesis using st states_ok_known by blast
next
  case False
  then have k: "known m (block_hash blk) = None" "known m' = (known m)(block_hash blk \<mapsto> blk)"
    using apply_core_known [OF inv h core] by auto
  have add: "\<exists>st. states_ok X m' st" if p: "passed X blk m s" for s
    using states_ok_add [OF inv st k(1) passed_replay [OF inv st p] _ k(2)] passed_facts(3) [OF inv p] by auto
  have dc: "dc_ok (ds_cache m)" using inv by (simp add: chain_inv_def base_ok_def)
  from core dc show ?thesis
  proof (cases rule: apply_core_cases)
    case (Reject r)
    then show ?thesis using False by (simp add: known_same_chain)
  next
    case (Gen m1)
    then show ?thesis using inv by (simp add: chain_inv_def linked_def)
  next
    case (Orphaned m1 peer)
    obtain i t p where a: "add_orphan blk peer m1 = m1\<lparr>orphan_by_hash := i, ticks := t, orphan_pool := p\<rparr>"
      using add_orphan_frame by blast
    have "known m' = known m1" unfolding Orphaned(7) a by (rule known_cong) simp_all
    then show ?thesis using False known_same_chain [OF Orphaned(6)] by simp
  qed (use add in blast)+
qed

lemma apply_core_weighed:
  assumes inv: "chain_inv X ht m" and st: "states_ok X m st" and h: "honest ht blk" and acc: "store_accepts X"
    and core: "apply_core X blk src m = Ret (m', r)"
    and fresh: "known m (block_hash blk) = None" "known m' (block_hash blk) \<noteq> None"
  shows "candidate_work m blk \<le> tip_work m'"
proof (rule ccontr)
  assume not: "\<not> candidate_work m blk \<le> tip_work m'"
  then have tip: "tip_work m' = tip_work m" "\<forall>n. r \<noteq> Promote (CanonExtension n)"
    using apply_core_tip [OF inv h core] by auto
  have dc: "dc_ok (ds_cache m)" using inv by (simp add: chain_inv_def base_ok_def)
  from core dc show False
  proof (cases rule: apply_core_cases)
    case (Reject q)
    then show ?thesis using fresh by (simp add: known_same_chain)
  next
    case (Gen m1)
    then show ?thesis using inv by (simp add: chain_inv_def linked_def)
  next
    case (Orphaned m1 peer)
    obtain i t p where a: "add_orphan blk peer m1 = m1\<lparr>orphan_by_hash := i, ticks := t, orphan_pool := p\<rparr>"
      using add_orphan_frame by blast
    have "known m' = known m1" unfolding Orphaned(7) a by (rule known_cong) simp_all
    then show ?thesis using fresh known_same_chain [OF Orphaned(6)] by simp
  next
    case (Side s m1)
    let ?g = "record_side_block blk (candidate_work m blk) m1"
    have "try_reorg X blk ?g = Ret (m', None)"
      using Side(7) not tip(1) by (auto simp: tip_work_def)
    moreover have "ds_cache m' = ds_cache m1"
      using try_reorg_ds_cache [OF calculation] by (simp add: record_side_block_def)
    then have dc1: "dc_ok (ds_cache m1)" using apply_core_dc_ok [OF core dc] by simp
    have inv': "chain_inv X ht ?g" using reorg_start [OF inv h Side(2,5) dc1] .
    have "known ?g = (known m)(block_hash blk \<mapsto> blk)"
      using known_record [of m1 blk] known_same_chain [OF Side(5)] fresh(1) by simp
    then have "states_ok X ?g (st(block_hash blk := s))"
      using states_ok_add [OF inv st fresh(1) passed_replay [OF inv st Side(2)]] passed_facts(3) [OF inv Side(2)]
      by auto
    moreover have "bt_lookup (side_blocks ?g) (block_hash blk) = Some blk"
      using inv same_chainD(7) [OF Side(5)] by (simp add: record_side_block_def chain_inv_def side_ok_def)
    ultimately show ?thesis using try_reorg_succeeds [OF inv' _ acc] by fastforce
  qed (use tip in auto)
qed

lemma best_core:
  assumes b: "best_inv X ht m" and h: "honest ht blk" and acc: "store_accepts X"
    and core: "apply_core X blk src m = Ret (m', r)"
  shows "best_inv X ht m'"
proof -
  have inv: "chain_inv X ht m" and max: "\<forall>h. known m h \<noteq> None \<longrightarrow> work_at m h \<le> tip_work m"
    using b by (simp_all add: best_inv_def)
  obtain st where st: "states_ok X m st" using b by (auto simp: best_inv_def)
  have mono: "tip_work m \<le> tip_work m'" using apply_core_tip [OF inv h core] by auto
  have "work_at m' k \<le> tip_work m'" if k: "known m' k \<noteq> None" for k
  proof (cases "known m' = known m \<and> cumulative_work m' = cumulative_work m")
    case True
    then have "work_at m' k = work_at m k" "known m k \<noteq> None" using k by (simp_all add: work_at_def)
    then show ?thesis using max mono by auto
  next
    case False
    then have n: "known m (block_hash blk) = None" "known m' = (known m)(block_hash blk \<mapsto> blk)"
      "cumulative_work m' = (cumulative_work m)(block_hash blk \<mapsto> candidate_work m blk)"
      using apply_core_known [OF inv h core] by auto
    show ?thesis
    proof (cases "k = block_hash blk")
      case True
      then have "work_at m' k = candidate_work m blk" using n(3) by (simp add: work_at_def)
      then show ?thesis using apply_core_weighed [OF inv st h acc core n(1)] n(2) by simp
    next
      case False
      then have "work_at m' k = work_at m k" "known m k \<noteq> None" using n k by (simp_all add: work_at_def)
      then show ?thesis using max mono by auto
    qed
  qed
  then show ?thesis
    using apply_core_inv [OF inv h core] apply_core_states [OF inv st h core] by (simp add: best_inv_def)
qed

lemma best_frame:
  assumes "best_inv X ht m" "chain_inv X ht m'" "blocks m' = blocks m" "side_blocks m' = side_blocks m"
    "cumulative_work m' = cumulative_work m"
  shows "best_inv X ht m'"
  using assms(1,2) unfolding best_inv_def states_ok_known [OF known_cong [OF assms(3,4)]]
    known_cong [OF assms(3,4)] tip_work_cong [OF assms(3,5)] work_at_def assms(5) by blast

end
