(* ===== verification/Demo_Chain.thy ===== *)
theory Demo_Chain
  imports Fork_Choice Examples
begin

text \<open>
  Blocks the pipeline accepts on the genesis block, over the reference environment. Their proof
  of work is the digest itself, which stays symbolic: at difficulty one every digest meets the
  target. As the digest is never computed, the set of seen hashes of the example is empty.
\<close>

definition demo_header :: "u64 \<Rightarrow> string \<Rightarrow> block_header" where
  "demo_header n root =
     \<lparr>parent_hash = GENESIS_HASH, number = n, timestamp = 1, difficulty = 1, nonce = 0, pow_hash = [],
      state_root = root, tx_root = compute_tx_root ref_ext [demo_coinbase n],
      miner = demo_addr (CHR ''a'')\<rparr>"

definition demo_digest :: "u64 \<Rightarrow> u8 list" where
  "demo_digest n = (case header_digest ref_ext (demo_header n null_hash) of Inr d \<Rightarrow> d | Inl _ \<Rightarrow> [])"

definition demo_after :: "u64 \<Rightarrow> tx_execution_state" where
  "demo_after n = \<lparr>es_balances = [(demo_addr (CHR ''a''), block_reward n)], es_nonces = []\<rparr>"

definition demo_root :: "u64 \<Rightarrow> string" where
  "demo_root n = (case compute_state_root ref_ext (es_balances (demo_after n)) (es_nonces (demo_after n)) of
     Inr r \<Rightarrow> r | Inl _ \<Rightarrow> [])"

text \<open>The first block after genesis, under the hash \<open>h\<close>, and under its own digest.\<close>

definition named_block :: "u64 \<Rightarrow> string \<Rightarrow> block" where
  "named_block n h = \<lparr>header = (demo_header n (demo_root n))\<lparr>pow_hash := h\<rparr>, txs = [demo_coinbase n], weight = 1\<rparr>"

definition mined_block :: "u64 \<Rightarrow> block" where
  "mined_block n = named_block n (hex_encode ref_ext (demo_digest n))"

lemma named_block_sel [simp]:
  "parent_hash (header (named_block n h)) = GENESIS_HASH" "number (header (named_block n h)) = n"
  "timestamp (header (named_block n h)) = 1" "difficulty (header (named_block n h)) = 1"
  "miner (header (named_block n h)) = demo_addr (CHR ''a'')" "txs (named_block n h) = [demo_coinbase n]"
  "tx_root (header (named_block n h)) = compute_tx_root ref_ext [demo_coinbase n]"
  "state_root (header (named_block n h)) = demo_root n"
  "block_hash (named_block n h) = h" "weight (named_block n h) = 1"
  by (simp_all add: named_block_def demo_header_def)

lemma lower_no_0x: "is_lowercase_hex s \<Longrightarrow> strip_prefix ''0x'' s = None"
proof (rule ccontr)
  assume a: "is_lowercase_hex s" "strip_prefix ''0x'' s \<noteq> None"
  then obtain r where "s = ''0x'' @ r" using strip_prefix_Some by auto
  then show False using a(1) by (simp add: is_lowercase_hex_def is_lower_hex_char_def)
qed

lemma decode_hash_lower:
  assumes "hex_laws X" "is_lowercase_hex_32_bytes s"
  shows "\<exists>bs. vpow_decode_hash_32 X l s = Inr bs" "\<exists>bs. visionx_decode_hash_32 X s = Inr bs"
  using hex_decode_lower [OF assms] lower_no_0x [of s] assms(2)
  by (auto simp: vpow_decode_hash_32_def visionx_decode_hash_32_def is_lowercase_hex_32_bytes_def)

lemma hash_text_lower: "is_lowercase_hex_32_bytes (hex_encode ref_ext (blake3 ref_ext bs))"
  using ref_hex_laws ref_blake3_laws by (simp add: is_lowercase_hex_32_bytes_def hex_laws_def blake3_laws_def)

lemma demo_addr_lower: "is_lowercase_hex_32_bytes (demo_addr (CHR ''a''))"
  by (simp add: is_lowercase_hex_32_bytes_def is_lowercase_hex_def demo_addr_def is_lower_hex_char_def
      list_all_iff)

lemma demo_digest_ok: "header_digest ref_ext (header (mined_block n)) = Inr (demo_digest n)"
proof -
  let ?h = "demo_header n null_hash"
  have root: "is_lowercase_hex_32_bytes (compute_tx_root ref_ext [demo_coinbase n])"
    by (simp add: compute_tx_root_def hash_text_lower)
  obtain ph where ph: "visionx_decode_hash_32 ref_ext GENESIS_HASH = Inr ph"
    using decode_hash_lower(2) [OF ref_hex_laws GENESIS_HASH_lower] by blast
  obtain a b where ab: "vpow_decode_hash_32 ref_ext ''parent_hash'' GENESIS_HASH = Inr a"
    "vpow_decode_hash_32 ref_ext ''tx_root'' (compute_tx_root ref_ext [demo_coinbase n]) = Inr b"
    using decode_hash_lower(1) [OF ref_hex_laws] GENESIS_HASH_lower root by meson
  have "historical_vpow_message_bytes_with_nonce_zero ref_ext (header (mined_block n))
      = historical_vpow_message_bytes_with_nonce_zero ref_ext ?h"
    by (simp add: historical_vpow_message_bytes_with_nonce_zero_def historical_vpow_message_bytes_def
        mined_block_def named_block_def demo_header_def Let_def split: sum.split)
  then have "header_digest ref_ext (header (mined_block n)) = header_digest ref_ext ?h"
    by (simp add: header_digest_def mined_block_def named_block_def demo_header_def split: sum.split)
  moreover have "\<exists>d. header_digest ref_ext ?h = Inr d"
    by (simp add: header_digest_def demo_header_def ph ab historical_vpow_message_bytes_with_nonce_zero_def
        historical_vpow_message_bytes_def Let_def)
  ultimately show ?thesis by (auto simp: demo_digest_def)
qed

lemma demo_pow: "pow_verdict ref_ext (mined_block n) = Inr ()"
proof -
  have "length (demo_digest n) = 32" using header_digest_length [OF demo_digest_ok] .
  moreover have "upper64 (demo_digest n) < 2 ^ 64"
  proof -
    have "nat_le (rev (take 8 (demo_digest n))) < 256 ^ length (rev (take 8 (demo_digest n)))"
      by (rule nat_le_less)
    then show ?thesis using calculation by (simp add: upper64_def)
  qed
  ultimately have "take 8 (demo_digest n) \<le> take 8 (difficulty_to_target 1)"
    by (simp only: meets_target_iff) simp
  then show ?thesis by (simp add: pow_verdict_def demo_digest_ok not_less) (simp add: mined_block_def)
qed

lemma demo_root_ok:
  "compute_state_root ref_ext (es_balances (demo_after n)) (es_nonces (demo_after n)) = Inr (demo_root n)"
proof -
  have "keys_ok (es_balances (demo_after n))" "keys_ok (es_nonces (demo_after n))"
    "bt_wf (es_balances (demo_after n))" "bt_wf (es_nonces (demo_after n))"
    using demo_addr_lower
    by (auto simp: keys_ok_def live_entries_def bt_entries_def demo_after_def bt_wf_def)
  then have "\<exists>v. canonical_state_vector ref_ext (es_balances (demo_after n)) (es_nonces (demo_after n)) = Inr v"
    using state_vector_Inr_iff [OF ref_hex_laws] by blast
  then show ?thesis by (auto simp: demo_root_def compute_state_root_def)
qed

definition demo_machine :: "(nat \<Rightarrow> u64) \<Rightarrow> ref_db machine" where
  "demo_machine ck = (genesis_machine [] ck)\<lparr>seen_blocks := {}\<rparr>"

lemma demo_machine_sel [simp]:
  "blocks (demo_machine ck) = [genesis_block]" "seen_blocks (demo_machine ck) = {}"
  "canon_index (demo_machine ck) = [GENESIS_HASH \<mapsto> 0]" "ds_cache (demo_machine ck) = dc_empty"
  "account_state (demo_machine ck) = tx_execution_state_new" "side_blocks (demo_machine ck) = []"
  "clock (demo_machine ck) = ck" "pow_set (demo_machine ck) = {}" "orphan_pool (demo_machine ck) = []"
  "tip_hash (demo_machine ck) = GENESIS_HASH"
  by (simp_all add: demo_machine_def genesis_machine_def push_canonical_def account_state_def
      tx_execution_state_new_def tip_hash_def start_machine_def empty_chain_def chain_state.extend_def
      machine.fields_def)

lemma demo_execute:
  assumes "n \<noteq> 0"
  shows "execute_candidate ref_ext tx_execution_state_new (named_block n h) = Inr (demo_after n)"
proof -
  have "apply_coinbase_reward tx_execution_state_new (demo_addr (CHR ''a'')) n = (demo_after n, Inr ())"
    using demo_addr_lower
    by (simp add: apply_coinbase_reward_def is_lowercase_hex_32_bytes_def tx_execution_state_new_def
        es_balance_of_def checked_add_def demo_after_def)
  then show ?thesis using assms by (simp add: execute_candidate_def demo_root_ok)
qed

lemma named_passed:
  assumes n: "n \<noteq> 0" and seen: "h \<notin> seen_blocks m"
    and res: "resolve_block m GENESIS_HASH = Some genesis_block"
    and par: "parent_state ref_ext m (named_block n h) = Ret (Inr tx_execution_state_new)"
  shows "passed ref_ext (named_block n h) m (demo_after n)"
  unfolding passed_def
proof (intro conjI)
  show "structural_check ref_ext m (named_block n h) = None"
    using n seen by (simp add: structural_check_def Let_def BLOCK_WEIGHT_LIMIT_def demo_coinbase_def)
  show "\<exists>p. resolve_block m (parent_hash (header (named_block n h))) = Some p
      \<and> timestamp (header p) < timestamp (header (named_block n h))"
    using res by simp
  have "collect_ancestors m (Suc 20) GENESIS_HASH = [genesis_block]"
    by (simp only: collect_ancestors.simps(2)) (simp add: res null_hash_def Let_def list_all_iff)
  then have "length (collect_ancestor_window m GENESIS_HASH) = 1"
    by (simp add: collect_ancestor_window_def RETARGET_WINDOW_def)
  then show "check_difficulty m (named_block n h) = None"
    by (simp add: check_difficulty_def Let_def calculate_next_difficulty_def DIFFICULTY_FLOOR_def)
  show "check_coinbase_height (named_block n h) = None"
    by (simp add: check_coinbase_height_def Let_def demo_coinbase_def)
  show "\<exists>s. parent_state ref_ext m (named_block n h) = Ret (Inr s)
      \<and> execute_candidate ref_ext s (named_block n h) = Inr (demo_after n)"
    using demo_execute [OF n] par by simp
qed (use n in \<open>simp_all add: first_duplicate_tx.simps Let_def\<close>)

lemma demo_passed: "n \<noteq> 0 \<Longrightarrow> passed ref_ext (mined_block n) (demo_machine ck) (demo_after n)"
  unfolding mined_block_def
  by (rule named_passed) (simp_all add: resolve_block_def block_at_def parent_state_def)

end
