(* ===== verification/Chain_Props.thy ===== *)
theory Chain_Props
  imports Demo_Chain
begin

text \<open>
  The guarantees of block acceptance as a whole: what holds of every state reached from genesis,
  what one call may change, and what goes wrong when a block's height is not its parent's plus one.
\<close>

section \<open>The heaviest chain\<close>

lemma best_same_frame:
  assumes "best_inv X ht m" "chain_inv X ht (m\<lparr>orphan_pool := p, orphan_by_hash := q\<rparr>)"
  shows "best_inv X ht (m\<lparr>orphan_pool := p, orphan_by_hash := q\<rparr>)"
  by (rule best_frame [OF assms]) simp_all

lemma best_forget: "best_inv X ht m \<Longrightarrow> best_inv X ht (forget_orphan b m)"
proof -
  assume a: "best_inv X ht m"
  then have "chain_inv X ht (forget_orphan b m)" by (intro chain_inv_forget) (simp add: best_inv_def)
  then show ?thesis
    using best_same_frame [OF a, where p = "orphan_pool m"] by (simp add: forget_orphan_def)
qed

lemma best_waiting:
  assumes a: "best_inv X ht m" and w: "take_waiting h m = (m', ws)"
  shows "best_inv X ht m' \<and> (\<forall>e\<in>set ws. honest ht (fst e))"
proof -
  have inv: "chain_inv X ht m" using a by (simp add: best_inv_def)
  then have "bt_wf (orphan_pool m)" by (simp add: chain_inv_def base_ok_def)
  then obtain p where p: "m' = m\<lparr>orphan_pool := p\<rparr>" using take_waiting_facts(1) [OF w] by blast
  note i = chain_inv_waiting [OF inv w]
  then show ?thesis using best_same_frame [OF a, where p = p and q = "orphan_by_hash m"] by (simp add: p)
qed

interpretation best: accept_invariant X "\<lambda>m. store_accepts X \<and> best_inv X ht m" "honest ht"
  for X :: "('db, 'x) ext_scheme" and ht
proof unfold_locales
  fix m m' :: "'db machine" and blk src st
  assume b: "store_accepts X \<and> best_inv X ht m"
  show "honest ht blk \<Longrightarrow> apply_core X blk src m = Ret (m', st) \<Longrightarrow> store_accepts X \<and> best_inv X ht m'"
    using b best_core by blast
  show "store_accepts X \<and> best_inv X ht (forget_orphan blk m)"
    using b best_forget by blast
next
  fix m m' :: "'db machine" and h ws
  assume "store_accepts X \<and> best_inv X ht m" "take_waiting h m = (m', ws)"
  then show "(store_accepts X \<and> best_inv X ht m') \<and> (\<forall>e\<in>set ws. honest ht (fst e))"
    using best_waiting by blast
qed

lemma genesis_best: "ht GENESIS_HASH = 0 \<Longrightarrow> best_inv X ht (genesis_machine d ck)"
proof -
  assume h: "ht GENESIS_HASH = 0"
  have k: "known (genesis_machine d ck) h = (if h = GENESIS_HASH then Some genesis_block else None)" for h
    by (simp add: known_def genesis_machine_def push_canonical_def block_index_def)
  have "states_ok X (genesis_machine d ck) (\<lambda>_. tx_execution_state_new)"
    by (simp add: states_ok_def k)
  moreover have "tip_hash (genesis_machine d ck) = GENESIS_HASH"
    by (simp add: tip_hash_def genesis_machine_def push_canonical_def)
  ultimately show ?thesis
    using genesis_machine_inv [of ht X d ck] h by (auto simp: best_inv_def k tip_work_def)
qed

lemma reached_best: "reached X ht m \<Longrightarrow> store_accepts X \<Longrightarrow> best_inv X ht m"
proof (induction rule: reached.induct)
  case (reached_genesis src d ck m)
  then obtain d' where "m = genesis_machine d' ck"
    by (auto simp: apply_genesis_block split: prod.splits bool.splits)
  then show ?case using genesis_best reached_genesis(1) by simp
next
  case (reached_block m blk src m' r)
  then show ?case using best.apply_block_inv [of X blk src m m' r ht] by blast
qed

lemma reached_ledger:
  assumes "reached X ht m"
  shows "replay_blocks X tx_execution_state_new (blocks m) = Inr (account_state m)"
  using reached_inv [OF assms] by (simp add: chain_inv_def ledger_ok_def replay_checked_all_replay)

section \<open>Blocks with a wrong height\<close>

lemma ref_store_accepts: "store_accepts ref_ext"
  by (simp add: store_accepts_def ref_ext_def)

lemma persist_accepts: "store_accepts X \<Longrightarrow> \<exists>d. persist_canonical_extension X blk m = (m\<lparr>db := d\<rparr>, True)"
proof -
  assume "store_accepts X"
  then have "snd (sled_apply_batch X (db m) (extension_batch X blk))" by (simp add: store_accepts_def)
  then show ?thesis
    by (cases "sled_apply_batch X (db m) (extension_batch X blk)") (auto simp: persist_canonical_extension_def)
qed

lemma apply_core_accepts_tip:
  assumes pass: "passed X blk m s" and pow: "pow_verdict X blk = Inr ()" and dc: "dc_ok (ds_cache m)"
    and tip: "parent_hash (header blk) = tip_hash m" and store: "store_accepts X"
    and clk: "timestamp (header blk) \<le> clock m (ticks m) + MAX_FUTURE_TIMESTAMP_SECS"
    and known: "canon_index m (parent_hash (header blk)) \<noteq> None"
  shows "\<exists>m'. apply_core X blk src m = Ret (m', Promote (CanonExtension (number (header blk))))
    \<and> same_chain (extend_chain blk (candidate_work m blk) s m) m'"
proof -
  let ?m = "clear_pow_prevalidation (block_hash blk) m"
  have sc: "same_chain m ?m" by simp
  note q = same_chainD [OF sc] same_chain_queries [OF sc] same_chain_checks [OF sc]
  note p = pass [unfolded passed_def]
  obtain pb where pb: "resolve_block m (parent_hash (header blk)) = Some pb"
    "timestamp (header pb) < timestamp (header blk)" using p by blast
  let ?m1 = "?m\<lparr>ticks := ticks ?m + 1\<rparr>"
  have t: "check_timestamp blk pb ?m = (?m1, None)"
    using pb(2) clk q(14) by (simp add: check_timestamp_def wall_clock_secs_def not_le not_less clear_pow_prevalidation_def)
  have sc1: "same_chain m ?m1" by (rule same_chainI) (simp_all add: q)
  have "dc_ok (ds_cache ?m1)" using dc by (simp add: clear_pow_prevalidation_def)
  then obtain c where c: "verify_visionx_pow X blk ?m1 = Some (?m1\<lparr>ds_cache := c\<rparr>, Inr ())"
    using verify_visionx_pow_ok [of ?m1 X blk] pow by auto
  have "accept_header X blk ?m = Ret (?m1\<lparr>ds_cache := c\<rparr>, None)"
    using pb p t c same_chain_checks(2) [OF sc1] by (simp add: accept_header_def q)
  then obtain m2 where hd: "accept_header X blk ?m = Ret (m2, None)" and sc2: "same_chain m m2"
    using same_chain_trans [OF sc1 same_chain_ds_cache] by blast
  note q2 = same_chainD [OF sc2] same_chain_queries [OF sc2] same_chain_checks [OF sc2]
  obtain s0 where s0: "parent_state X m blk = Ret (Inr s0)" "execute_candidate X s0 blk = Inr s"
    using p by blast
  have body: "accept_body X blk w tw m2 = Ret (integrate_tip X blk s w m2)" for w tw
    using p s0 tip by (simp add: accept_body_def q2)
  obtain d where d: "persist_canonical_extension X blk m2 = (m2\<lparr>db := d\<rparr>, True)"
    using persist_accepts [OF store] by blast
  let ?m3 = "extend_chain blk (candidate_work m blk) s (m2\<lparr>db := d\<rparr>)"
  obtain d' r where d': "maybe_save_snapshot X ?m3 = (?m3\<lparr>db := d'\<rparr>, r)"
    using maybe_save_snapshot_frame [of X ?m3] by auto
  have it: "integrate_tip X blk s (candidate_work m blk) m2 = (?m3\<lparr>db := d'\<rparr>, Promote (CanonExtension (number (header blk))))"
    using d d' by (simp add: integrate_tip_def Let_def extend_chain_def)
  have "apply_core X blk src m = Ret (?m3\<lparr>db := d'\<rparr>, Promote (CanonExtension (number (header blk))))"
    using p known hd body it by (simp add: apply_core_def Let_def q candidate_work_def)
  moreover have "same_chain m (m2\<lparr>db := d\<rparr>)" using same_chain_trans [OF sc2 same_chain_db] .
  then have "same_chain (extend_chain blk (candidate_work m blk) s m) (?m3\<lparr>db := d'\<rparr>)"
    by (rule same_chain_trans [OF extend_same same_chain_db])
  ultimately show ?thesis by blast
qed

section \<open>What one block changes\<close>

lemma apply_block_advances:
  "chain_inv X ht m \<Longrightarrow> honest ht blk \<Longrightarrow> apply_block X blk src m = Ret (m', r) \<Longrightarrow> advances X ht m m'"
  using progress.apply_block_inv [of X blk src m m' r ht m] advances_refl by blast

section \<open>Example states\<close>

definition demo_ht :: "string \<Rightarrow> nat" where
  "demo_ht h = (if h = GENESIS_HASH then 0 else if h = ''orphan'' then 5 else if h = ''unknown'' then 4 else 1)"

definition orphan_block :: block where
  "orphan_block =
     \<lparr>header = \<lparr>parent_hash = ''unknown'', number = 5, timestamp = 9, difficulty = 1, nonce = 0,
        pow_hash = ''orphan'', state_root = null_hash, tx_root = compute_tx_root ref_ext [demo_coinbase 5],
        miner = demo_addr (CHR ''a'')\<rparr>,
      txs = [demo_coinbase 5], weight = 1\<rparr>"

lemma orphan_honest: "honest demo_ht orphan_block"
  by (simp add: honest_def orphan_block_def demo_ht_def GENESIS_HASH_def)

lemma demo_ht_genesis [simp]: "demo_ht GENESIS_HASH = 0"
  by (simp add: demo_ht_def)

definition demo_db :: ref_db where
  "demo_db = fst (sled_apply_batch ref_ext [] (extension_batch ref_ext genesis_block))"

definition demo_state :: "ref_db machine" where
  "demo_state = genesis_machine demo_db (\<lambda>_. 1)"

lemma demo_reached: "reached ref_ext demo_ht demo_state"
proof -
  have "sled_apply_batch ref_ext [] (extension_batch ref_ext genesis_block) = (demo_db, True)"
    by (simp add: demo_db_def ref_ext_def)
  then have "apply_block ref_ext genesis_block None (start_machine [] (\<lambda>_. 1)) = Ret (demo_state, CanonExtension 0)"
    by (simp add: apply_genesis_block demo_state_def)
  then show ?thesis by (rule reached_genesis [where ht = demo_ht, OF demo_ht_genesis])
qed

lemma demo_inv: "chain_inv ref_ext demo_ht demo_state"
  using demo_reached by (rule reached_inv)

lemma demo_base: "base_ok demo_state"
  using demo_inv by (simp add: chain_inv_def)

lemma demo_state_sel [simp]:
  "blocks demo_state = [genesis_block]" "orphan_pool demo_state = []"
  "canon_index demo_state = [GENESIS_HASH \<mapsto> 0]" "side_blocks demo_state = []"
  "seen_blocks demo_state = {GENESIS_HASH}" "pow_set demo_state = {}"
  by (simp_all add: demo_state_def genesis_machine_def push_canonical_def)

lemma demo_duplicate: "apply_block ref_ext genesis_block src demo_state
    = Ret (demo_state, Rejected (DuplicateBlock GENESIS_HASH))"
proof -
  have "structural_check ref_ext demo_state genesis_block = Some (DuplicateBlock GENESIS_HASH)"
    using genesis_tx_root [of ref_ext] by (simp add: structural_check_def BLOCK_WEIGHT_LIMIT_def)
  then show ?thesis
    by (simp add: apply_block_def apply_core_def clear_pow_prevalidation_def Let_def)
qed

lemma demo_orphan_stored: "apply_block ref_ext orphan_block src demo_state
    = Ret (add_orphan orphan_block (case src of None \<Rightarrow> ''anon'' | Some p \<Rightarrow> p) demo_state, StoredOrphan ''orphan'')"
proof -
  have "structural_check ref_ext demo_state orphan_block = None"
    by (simp add: structural_check_def BLOCK_WEIGHT_LIMIT_def orphan_block_def demo_coinbase_def GENESIS_HASH_def)
  then show ?thesis
    by (simp add: apply_block_def apply_core_def clear_pow_prevalidation_def Let_def orphan_block_def
        GENESIS_HASH_def)
qed

section \<open>Properties of every reached state\<close>

text \<open>C2: from the genesis block on, whatever honest-height blocks arrive in whatever order, the
  canonical blocks form one chain: genesis first, every block naming the hash of the one before it,
  block number i at position i, no hash twice, and the hash index, the lookup by height and the
  lookup by hash agree with the list.\<close>

theorem canonical_chain_consistent:
  assumes "reached X ht m" and "i < length (blocks m)"
  shows "hd (blocks m) = genesis_block \<and> unat (number (header (blocks m ! i))) = i
    \<and> (0 < i \<longrightarrow> parent_hash (header (blocks m ! i)) = block_hash (blocks m ! (i - 1)))
    \<and> distinct (map block_hash (blocks m))
    \<and> canon_index m (block_hash (blocks m ! i)) = Some (number (header (blocks m ! i)))
    \<and> block_by_hash m (block_hash (blocks m ! i)) = Some (blocks m ! i)"
proof -
  have inv: "chain_inv X ht m" using assms(1) by (rule reached_inv)
  have n: "unat (number (header (blocks m ! i))) = i" using inv assms(2) by (rule chain_heights)
  have p: "parent_hash (header (blocks m ! i)) = block_hash (blocks m ! (i - 1))" if "0 < i"
    using inv assms(2) that gr0_implies_Suc [of i] by (auto simp: chain_inv_def linked_def)
  have "block_index (blocks m) (block_hash (blocks m ! i)) = Some (blocks m ! i)"
    using inv assms(2) by (intro block_index_nth) (simp_all add: chain_inv_def index_ok_def)
  then have "canon_index m (block_hash (blocks m ! i)) = Some (number (header (blocks m ! i)))"
    using inv by (simp add: chain_inv_def index_ok_def height_index_block_index)
  then show ?thesis using inv n p assms(2)
    by (simp add: block_by_hash_def block_at_def chain_inv_def linked_def index_ok_def)
qed

theorem canonical_chain_consistent_witness:
  "hd (blocks demo_state) = genesis_block \<and> unat (number (header (blocks demo_state ! 0))) = 0
    \<and> block_by_hash demo_state (block_hash (blocks demo_state ! 0)) = Some (blocks demo_state ! 0)"
  using canonical_chain_consistent [OF demo_reached, of 0] by simp

text \<open>C3: the balances and nonces of a reached state are those of replaying its canonical blocks
  from the empty account state, reorgs and orphans included.\<close>

theorem accounts_are_the_replay:
  assumes "reached X ht m"
  shows "replay_blocks X tx_execution_state_new (blocks m) = Inr (account_state m)"
  using assms by (rule reached_ledger)

theorem accounts_are_the_replay_witness:
  "replay_blocks ref_ext tx_execution_state_new (blocks demo_state) = Inr (account_state demo_state)"
  by (rule accounts_are_the_replay [OF demo_reached])

text \<open>C4: the coins in existence at a reached state are the subsidies of its canonical blocks less
  the fees of their transactions.\<close>

theorem reached_supply:
  assumes "reached X ht m"
  shows "supply_of (balances m) + (\<Sum>b\<leftarrow>blocks m. block_fees b) = (\<Sum>b\<leftarrow>blocks m. block_subsidy b)"
proof -
  have "supply_of (es_balances tx_execution_state_new) = 0"
    by (simp add: supply_of_def tx_execution_state_new_def bt_total_def bt_entries_def)
  then show ?thesis
    using replay_blocks_supply [OF es_wf_new reached_ledger [OF assms]] by (simp add: account_state_def)
qed

theorem reached_supply_witness:
  "supply_of (balances demo_state) + (\<Sum>b\<leftarrow>blocks demo_state. block_fees b)
     = (\<Sum>b\<leftarrow>blocks demo_state. block_subsidy b)"
  by (rule reached_supply [OF demo_reached])

text \<open>The stored nonce of an account is the number of transactions it has sent on the canonical
  chain, so no transaction is ever executed twice.\<close>

lemma reached_nonce_count:
  assumes "reached X ht m"
  shows "unat (nonce_of m a) = (\<Sum>b\<leftarrow>blocks m. senders_in a b)"
proof -
  have "unat (es_nonce_of tx_execution_state_new a) = 0"
    by (simp add: es_nonce_of_def tx_execution_state_new_def)
  moreover have "es_nonce_of (account_state m) a = nonce_of m a"
    by (simp add: es_nonce_of_def nonce_of_def account_state_def)
  ultimately show ?thesis using replay_blocks_nonce [OF reached_ledger [OF assms], of a] by simp
qed

text \<open>C5: with a store that accepts its writes, the tip of a reached state carries at least the
  cumulative work of every block the node knows, canonical or side: the fork choice never misses a
  heavier branch.\<close>

theorem tip_is_heaviest:
  assumes "reached X ht m" "store_accepts X" "known m h = Some b"
  shows "work_at m h \<le> tip_work m"
  using reached_best [OF assms(1,2)] assms(3) by (simp add: best_inv_def)

theorem tip_is_heaviest_witness: "work_at demo_state GENESIS_HASH \<le> tip_work demo_state"
  by (rule tip_is_heaviest [OF demo_reached ref_store_accepts genesis_known [OF demo_inv]])

text \<open>C6: on a reached state a block with an honest height never panics and never loops: the call
  returns, with the whole cascade of promoted orphans.\<close>

theorem apply_block_always_returns:
  assumes "reached X ht m" "honest ht blk"
  shows "\<exists>m' r. apply_block X blk src m = Ret (m', r)"
  using chain.apply_block_returns [OF reached_inv [OF assms(1)] assms(2)] .

theorem apply_block_always_returns_witness:
  "\<exists>m' r. apply_block ref_ext orphan_block (Some ''peer'') demo_state = Ret (m', r)"
  by (rule apply_block_always_returns [OF demo_reached orphan_honest])

text \<open>C7: one call moves forward only. Every block the node knew it still knows, with the same
  recorded work, and either the canonical blocks and the accounts are untouched or the work of the
  tip has strictly grown.\<close>

theorem apply_block_moves_forward:
  assumes "reached X ht m" "honest ht blk" "apply_block X blk src m = Ret (m', r)"
  shows "(\<forall>h b. known m h = Some b \<longrightarrow> known m' h = Some b \<and> work_at m' h = work_at m h)
    \<and> (blocks m' = blocks m \<and> account_state m' = account_state m \<or> tip_work m < tip_work m')"
  using apply_block_advances [OF reached_inv [OF assms(1)] assms(2,3)] unfolding advances_def by blast

theorem apply_block_moves_forward_witness:
  "known (add_orphan orphan_block ''anon'' demo_state) GENESIS_HASH = Some genesis_block"
  using apply_block_moves_forward [OF demo_reached orphan_honest, of None "add_orphan orphan_block ''anon'' demo_state"
      "StoredOrphan ''orphan''"] demo_orphan_stored [of None] genesis_known [OF demo_inv]
  by simp

end
