(* ===== verification/Accept_Props.thy ===== *)
theory Accept_Props
  imports Chain_Props
begin

text \<open>
  Properties of single calls of \<open>apply_block\<close>: its recursion, what a rejection leaves behind,
  the orphan pool, the walk over side blocks, reorgs, and the panic a wrong height leads to.
\<close>

text \<open>C9: \<open>apply_block\<close> computes what the unbounded recursion between block acceptance and
  orphan promotion comes to. The relation \<open>applies\<close> describes that recursion with no bound: a pass,
  then every waiting orphan in turn through the whole of it. Whatever finite nesting the orphans
  lead to, a result or a panic of the recursion is the result or the panic of \<open>apply_block\<close>, and
  where \<open>apply_block\<close> gives neither the recursion has no end at all.\<close>

theorem apply_block_meets_recursion:
  assumes "base_ok m"
  shows "(apply_block X blk src m = Ret (m', r) \<longleftrightarrow> applies X blk src m (Ret (m', r)))
    \<and> (apply_block X blk src m = Panic \<longleftrightarrow> applies X blk src m Panic)
    \<and> (apply_block X blk src m = OutOfFuel \<longleftrightarrow> (\<nexists>out. applies X blk src m out))"
proof -
  note a = apply_block_applies [OF assms, of X blk src]
  have "apply_block X blk src m = OutOfFuel \<longleftrightarrow> (\<nexists>out. applies X blk src m out)"
    using a by metis
  then show ?thesis using a [of "Ret (m', r)"] a [of Panic] by simp
qed

theorem apply_block_meets_recursion_witness:
  "applies ref_ext genesis_block None demo_state (Ret (demo_state, Rejected (DuplicateBlock GENESIS_HASH)))"
  using apply_block_meets_recursion [OF demo_base] demo_duplicate [of None] by blast

text \<open>C9: a rejected block changes nothing of the chain, the accounts, the indexes or the orphans;
  only the store, the proof-of-work caches and the clock may have moved.\<close>

theorem rejection_changes_nothing:
  assumes "base_ok m" "apply_block X blk src m = Ret (m', Rejected e)"
  shows "same_chain m m'"
  using assms(2,1) by (rule apply_block_rejected)

theorem rejection_changes_nothing_witness: "same_chain demo_state demo_state"
  by (rule rejection_changes_nothing [OF demo_base demo_duplicate])

text \<open>C10: the orphan pool never holds more than 2000 blocks, whatever arrives.\<close>

theorem orphan_pool_bounded:
  assumes "base_ok m" "pool_total (orphan_pool m) \<le> 2000" "apply_block X blk src m = Ret (m', r)"
  shows "pool_total (orphan_pool m') \<le> 2000"
  using pool.apply_block_inv [OF assms(3)] assms(1,2) by (simp add: pool_bounded_def ORPHAN_POOL_MAX_def)

theorem orphan_pool_bounded_witness:
  "pool_total (orphan_pool (add_orphan orphan_block ''anon'' demo_state)) \<le> 2000"
  using orphan_pool_bounded [OF demo_base _ demo_orphan_stored [of None]]
  by (simp add: pool_total_def bt_entries_def)

text \<open>C11: adding to a full pool first evicts an entry no other entry is older than, and then
  holds as many as before.\<close>

theorem full_pool_evicts_oldest:
  assumes "bt_wf (orphan_pool g)" "ORPHAN_POOL_MAX \<le> pool_total (orphan_pool g)"
  shows "\<exists>k es i. bt_lookup (orphan_pool g) k = Some es \<and> i < length es
    \<and> orphan_pool (prune_old_orphans g) =
        (if remove_at i es = [] then bt_remove k (orphan_pool g) else bt_insert k (remove_at i es) (orphan_pool g))
    \<and> (\<forall>(k', i', t)\<in>set (pool_positions (orphan_pool g)). fst (snd (es ! i)) \<le> t)
    \<and> Suc (pool_total (orphan_pool (prune_old_orphans g))) = pool_total (orphan_pool g)"
proof -
  let ?p = "orphan_pool g"
  have "pool_total ?p \<noteq> 0" using assms(2) by (simp add: ORPHAN_POOL_MAX_def)
  then have "pool_positions ?p \<noteq> []" by (rule contrapos_nn) (rule pool_positions_Nil)
  then obtain k pos ts where f: "find_oldest ?p = Some (k, pos, ts)"
    using find_oldest_None [of ?p] by (cases "find_oldest ?p") auto
  obtain es where es: "bt_lookup ?p k = Some es" "pos < length es" "ts = fst (snd (es ! pos))"
    using pool_positions_member [OF assms(1) find_oldest_least(1) [OF f]] by blast
  have new: "orphan_pool (prune_old_orphans g) =
      (if remove_at pos es = [] then bt_remove k ?p else bt_insert k (remove_at pos es) ?p)"
    using assms(2) f es by (simp add: prune_old_orphans_def Let_def)
  have "fst (snd (es ! pos)) \<le> t" if "(k', i', t) \<in> set (pool_positions ?p)" for k' i' t
    using find_oldest_least(2) [OF f that] es(3) by simp
  then show ?thesis using es new prune_total(1) [OF assms] by blast
qed

definition full_pool :: "(string, orphan_entry list) btree" where
  "full_pool = [(''p'', (orphan_block, 3, ''a'') # replicate 1999 (orphan_block, 7, ''a''))]"

theorem full_pool_evicts_oldest_witness:
  "Suc (pool_total (orphan_pool (prune_old_orphans (demo_state\<lparr>orphan_pool := full_pool\<rparr>)))) = 2000"
  using full_pool_evicts_oldest [of "demo_state\<lparr>orphan_pool := full_pool\<rparr>"]
  by (auto simp: full_pool_def bt_wf_def pool_total_def bt_entries_def ORPHAN_POOL_MAX_def)

text \<open>C12: what tracing a side chain returns. A non-empty segment comes back exactly when it is
  the branch of side blocks that leads, parent by parent, from a canonical block the branch does not
  contain up to the hash asked for, oldest first; nothing comes back exactly when the hash is itself
  canonical or its ancestry meets a block that is neither canonical nor a side block; and the loop,
  which the code does not bound, has no end exactly when the side blocks offer an ancestry of every
  length.\<close>

theorem side_segment_traced:
  "(collect_new_segment g h = Ret (b # bs) \<longleftrightarrow>
      (\<exists>c k. canon_index g c = Some k \<and> side_path (canon_index g) (side_blocks g) h (rev (b # bs)) c))
    \<and> (collect_new_segment g h = Ret [] \<longleftrightarrow>
        (\<exists>k. canon_index g h = Some k) \<or>
        (\<exists>path c. side_path (canon_index g) (side_blocks g) h path c
          \<and> canon_index g c = None \<and> bt_lookup (side_blocks g) c = None))
    \<and> (collect_new_segment g h = OutOfFuel \<longleftrightarrow>
        (\<forall>n. \<exists>path c. length path = n \<and> side_path (canon_index g) (side_blocks g) h path c))"
  using collect_nonempty_iff collect_empty_iff collect_diverges_iff by blast

text \<open>C13: a reorg that happens keeps the canonical blocks up to the parent of the traced segment
  and puts the segment after them, installs accounts whose state root is the one the new tip claims,
  and hands back exactly the transactions, coinbases aside, of the blocks it abandons whose
  identifiers the segment lacks, in their order, together with the identifiers of the segment.\<close>

theorem reorg_installs_claimed_root:
  assumes "try_reorg X blk g = Ret (g', Some r)"
  shows "compute_state_root X (balances g') (nonces g') = Inr (state_root (header blk))
    \<and> cached_state_root g' = Some (number (header blk), state_root (header blk))
    \<and> (\<exists>k seg. collect_new_segment g (block_hash blk) = Ret seg \<and> seg \<noteq> []
        \<and> canon_index g (parent_hash (header (hd seg))) = Some k \<and> unat k < length (blocks g)
        \<and> blocks g' = take (Suc (unat k)) (blocks g) @ seg
        \<and> displaced_txs r = filter (\<lambda>t. canonical_tx_id X t \<notin> canonical_tx_id X ` (\<Union>b\<in>set seg. set (drop 1 (txs b))))
            (concat (map (\<lambda>b. drop 1 (txs b)) (drop (Suc (unat k)) (blocks g))))
        \<and> set (winning_tx_ids r) = canonical_tx_id X ` (\<Union>b\<in>set seg. set (drop 1 (txs b))))"
  using assms
proof (rule try_reorg_SomeE)
  fix seg ch k anc st d
  assume seg: "collect_new_segment g (block_hash blk) = Ret seg" "seg \<noteq> []"
    and ch: "ch = parent_hash (header (hd seg))" "canon_index g ch = Some k" "unat k < length (blocks g)"
    and root: "compute_state_root X (es_balances st) (es_nonces st) = Inr (state_root (header blk))"
    and g': "g' = g\<lparr>db := d, blocks := pr_blocks (reorg_promotion g ch (unat k) seg),
            balances := es_balances st, nonces := es_nonces st,
            seen_blocks := pr_seen (reorg_promotion g ch (unat k) seg),
            side_blocks := pr_side (reorg_promotion g ch (unat k) seg),
            cumulative_work := pr_work (reorg_promotion g ch (unat k) seg),
            canon_index := pr_canon (reorg_promotion g ch (unat k) seg),
            cached_state_root := Some (number (header blk), state_root (header blk))\<rparr>"
    and r: "r = \<lparr>displaced_txs = compute_displaced_txs X (drop (unat k + 1) (blocks g)) seg,
            winning_tx_ids = sort (remdups (segment_tx_ids X seg))\<rparr>"
  have bs: "blocks g' = take (Suc (unat k)) (blocks g) @ seg"
    by (simp add: g' reorg_promotion_def Let_def case_prod_beta fold_promote_blocks)
  have ids: "set (segment_tx_ids X seg) = canonical_tx_id X ` (\<Union>b\<in>set seg. set (drop 1 (txs b)))"
    by (auto simp: segment_tx_ids_def)
  have disp: "displaced_txs r = filter (\<lambda>t. canonical_tx_id X t \<notin> canonical_tx_id X ` (\<Union>b\<in>set seg. set (drop 1 (txs b))))
      (concat (map (\<lambda>b. drop 1 (txs b)) (drop (Suc (unat k)) (blocks g))))"
    by (simp only: r reorg_recovery.select_convs compute_displaced_txs_def ids Suc_eq_plus1)
  have win: "set (winning_tx_ids r) = canonical_tx_id X ` (\<Union>b\<in>set seg. set (drop 1 (txs b)))"
    using ids by (simp add: r)
  have "compute_state_root X (balances g') (nonces g') = Inr (state_root (header blk))
      \<and> cached_state_root g' = Some (number (header blk), state_root (header blk))"
    using root by (simp add: g')
  then show ?thesis using seg ch bs disp win by blast
qed

lemma demo_fork:
  obtains m g where "chain_inv ref_ext demo_ht m" "last (blocks m) = named_block 1 ''first''"
    "g = record_side_block (named_block 1 ''second'') (candidate_work m (named_block 1 ''second'')) m"
    "chain_inv ref_ext demo_ht g" "\<exists>st. states_ok ref_ext g st"
proof -
  let ?a = "named_block 1 ''first''" and ?b = "named_block 1 ''second''"
  have hon: "honest demo_ht ?a" "honest demo_ht ?b"
    by (simp_all add: honest_def demo_ht_def GENESIS_HASH_def)
  have st: "states_ok ref_ext demo_state (\<lambda>_. tx_execution_state_new)"
    by (simp add: states_ok_def known_def block_index_def)
  have pa: "passed ref_ext ?a demo_state (demo_after 1)"
    by (rule named_passed)
      (simp_all add: resolve_block_def block_at_def parent_state_def tip_hash_def GENESIS_HASH_def
        account_state_def demo_state_def genesis_machine_def push_canonical_def tx_execution_state_new_def)
  let ?m = "extend_chain ?a (candidate_work demo_state ?a) (demo_after 1) demo_state"
  have inv: "chain_inv ref_ext demo_ht ?m"
    by (rule chain_inv_extend [OF demo_inv pa hon(1)]) (simp add: tip_hash_def)
  have fa: "known demo_state ''first'' = None" using passed_facts(1) [OF demo_inv pa] by simp
  have km: "known ?m = (known demo_state)(''first'' \<mapsto> ?a)" using known_extend [of demo_state ?a] fa by simp
  obtain st1 where st1: "states_ok ref_ext ?m st1"
    using states_ok_add [OF demo_inv st, of ?a "demo_after 1" ?m] passed_replay [OF demo_inv st pa]
      passed_facts(3) [OF demo_inv pa] fa km by auto
  have g: "GENESIS_HASH \<noteq> ''first''" by (simp add: GENESIS_HASH_def)
  have kg: "known ?m GENESIS_HASH = Some genesis_block" using genesis_known [OF inv] .
  have "st1 GENESIS_HASH = tx_execution_state_new" using st1 by (simp add: states_ok_def)
  then have par: "parent_state ref_ext ?m ?b = Ret (Inr tx_execution_state_new)"
    using parent_state_states [OF inv st1, of ?b] kg by simp
  have pb: "passed ref_ext ?b ?m (demo_after 1)"
    by (rule named_passed [OF _ _ _ par])
      (use resolve_known [OF inv] kg in \<open>simp_all add: extend_chain_def push_canonical_def GENESIS_HASH_def\<close>)
  let ?g = "record_side_block ?b (candidate_work ?m ?b) ?m"
  have fb: "known ?m ''second'' = None" using passed_facts(1) [OF inv pb] by simp
  have "known ?g = (known ?m)(''second'' \<mapsto> ?b)" using known_record [of ?m ?b] fb by simp
  then have "\<exists>st. states_ok ref_ext ?g st"
    using states_ok_add [OF inv st1, of ?b "demo_after 1" ?g] passed_replay [OF inv st1 pb]
      passed_facts(3) [OF inv pb] fb by auto
  then show thesis
    using that [OF inv _ refl chain_inv_record [OF inv pb hon(2)]]
    by (simp add: extend_chain_def push_canonical_def)
qed

theorem reorg_installs_claimed_root_witness:
  "\<exists>g g' r. last (blocks g) = named_block 1 ''first''
    \<and> try_reorg ref_ext (named_block 1 ''second'') (g :: ref_db machine) = Ret (g', Some r)
    \<and> compute_state_root ref_ext (balances g') (nonces g') = Inr (demo_root 1)"
proof -
  let ?b = "named_block 1 ''second''"
  obtain m g where m: "chain_inv ref_ext demo_ht m" "last (blocks m) = named_block 1 ''first''"
    and g: "g = record_side_block ?b (candidate_work m ?b) m" "chain_inv ref_ext demo_ht g"
    and st: "\<exists>st. states_ok ref_ext g st"
    using demo_fork by blast
  have "bt_lookup (side_blocks g) (block_hash ?b) = Some ?b"
    using m(1) by (simp add: g(1) record_side_block_def chain_inv_def side_ok_def)
  then obtain g' r where r: "try_reorg ref_ext ?b g = Ret (g', Some r)"
    using try_reorg_succeeds [OF g(2) _ ref_store_accepts] st by blast
  moreover have "last (blocks g) = named_block 1 ''first''" using m(2) by (simp add: g(1) record_side_block_def)
  ultimately show ?thesis using reorg_installs_claimed_root [OF r] by auto
qed

text \<open>C14: a reorg that does not happen changes at most the store.\<close>

theorem failed_reorg_changes_nothing:
  assumes "try_reorg X blk g = Ret (g', None)"
  shows "\<exists>d. g' = g\<lparr>db := d\<rparr>"
  using assms by (rule try_reorg_None)

theorem failed_reorg_changes_nothing_witness: "\<exists>d. demo_state = demo_state\<lparr>db := d\<rparr>"
proof -
  have "try_reorg ref_ext orphan_block demo_state = Ret (demo_state, None)"
    by (simp add: try_reorg_def collect_new_segment_def walk_fuel_def orphan_block_def GENESIS_HASH_def)
  then show ?thesis by (rule failed_reorg_changes_nothing)
qed

lemma structural_check_seen:
  "seen_blocks g' = seen_blocks g \<Longrightarrow> structural_check X g' b = structural_check X g b"
  unfolding structural_check_def by (simp only:)

text \<open>C15: nothing compares a block's height with its parent's. A valid block on the tip that claims
  a height beyond the end of the chain is accepted, and the next structurally valid block naming it
  as its parent panics the node: its lookup by the claimed height finds no block.\<close>

theorem wrong_height_panics:
  assumes "passed X blk m s" "pow_verdict X blk = Inr ()" "base_ok m" "orphan_pool m = []"
    and "parent_hash (header blk) = tip_hash m" "canon_index m (tip_hash m) \<noteq> None" "store_accepts X"
    and "timestamp (header blk) \<le> clock m (ticks m) + MAX_FUTURE_TIMESTAMP_SECS"
    and gap: "length (blocks m) < unat (number (header blk))"
    and child: "parent_hash (header child) = block_hash blk" "number (header child) \<noteq> 0"
      "structural_check X (m\<lparr>seen_blocks := insert (block_hash blk) (seen_blocks m)\<rparr>) child = None"
  shows "\<exists>m'. apply_block X blk src m = Ret (m', CanonExtension (number (header blk)))
    \<and> apply_block X child src' m' = Panic"
proof -
  have dc: "dc_ok (ds_cache m)" using assms(3) by (simp add: base_ok_def)
  obtain m1 where core: "apply_core X blk src m = Ret (m1, Promote (CanonExtension (number (header blk))))"
    and sc: "same_chain (extend_chain blk (candidate_work m blk) s m) m1"
    using apply_core_accepts_tip [OF assms(1,2) dc assms(5,7,8)] assms(5,6) by metis
  have pool: "orphan_pool m1 = []"
    using same_chainD(9) [OF sc] assms(4) by (simp add: extend_chain_def push_canonical_def)
  have one: "apply_block X blk src m = Ret (m1, CanonExtension (number (header blk)))"
    by (simp add: apply_block_unfold [OF assms(3)] core process_orphans_def take_waiting_def pool)
  let ?m = "clear_pow_prevalidation (block_hash child) m1"
  have sc': "same_chain (extend_chain blk (candidate_work m blk) s m) ?m"
    by (rule same_chain_trans [OF sc same_chain_clear])
  have "structural_check X ?m child = structural_check X (m\<lparr>seen_blocks := insert (block_hash blk) (seen_blocks m)\<rparr>) child"
    using same_chainD(6) [OF sc'] by (intro structural_check_seen) (simp add: extend_chain_def push_canonical_def)
  moreover have "canon_index ?m (block_hash blk) = Some (number (header blk))"
    "length (blocks ?m) = Suc (length (blocks m))"
    using same_chainD(1,11) [OF sc'] by (simp_all add: extend_chain_def push_canonical_def)
  then have "resolve_block ?m (block_hash blk) = None" using gap by (simp add: resolve_block_def block_at_def)
  ultimately have "apply_core X child src' m1 = Panic"
    using child \<open>canon_index ?m (block_hash blk) = Some (number (header blk))\<close>
    by (simp add: apply_core_def Let_def accept_header_def)
  moreover have "base_ok m1" using apply_core_base [OF core assms(3)] .
  ultimately have "apply_block X child src' m1 = Panic" by (simp add: apply_block_unfold)
  then show ?thesis using one by blast
qed

definition demo_child :: block where
  "demo_child = orphan_block\<lparr>header := (header orphan_block)\<lparr>parent_hash := block_hash (mined_block 5)\<rparr>\<rparr>"

theorem wrong_height_panics_witness:
  "\<exists>m'. apply_block ref_ext (mined_block 5) None (demo_machine (\<lambda>_. 1)) = Ret (m', CanonExtension 5)
    \<and> apply_block ref_ext demo_child None m' = Panic"
proof -
  have n: "length (block_hash (mined_block 5)) = 64"
    using ref_hex_laws header_digest_length [OF demo_digest_ok, of 5]
    by (simp add: mined_block_def hex_laws_def)
  then have "block_hash (mined_block 5) \<noteq> ''orphan''" by auto
  then have c: "structural_check ref_ext ((demo_machine (\<lambda>_. 1))\<lparr>seen_blocks :=
      insert (block_hash (mined_block 5)) (seen_blocks (demo_machine (\<lambda>_. 1)))\<rparr>) demo_child = None"
    by (simp add: structural_check_def BLOCK_WEIGHT_LIMIT_def demo_child_def orphan_block_def demo_coinbase_def)
  have b: "base_ok (demo_machine (\<lambda>_. 1))" by (simp add: base_ok_def)
  have nb: "number (header (mined_block 5)) = 5" "parent_hash (header (mined_block 5)) = GENESIS_HASH"
    "timestamp (header (mined_block 5)) = 1" by (simp_all add: mined_block_def)
  show ?thesis
    using wrong_height_panics [OF demo_passed [of 5] demo_pow b _ _ _ ref_store_accepts _ _ _ _ c, of None None]
    by (simp add: nb MAX_FUTURE_TIMESTAMP_SECS_def demo_child_def orphan_block_def)
qed

end
