(* ===== verification/Mempool.thy ===== *)
theory Mempool
  imports Chain_State Bounded_Fifo "HOL-Library.Product_Lexorder"
begin

text \<open>
  \<open>mempool/pool.rs\<close> and \<open>mempool/admission.rs\<close>: the pool of pending transactions, keyed by
  canonical identifier and ordered by arrival, the admission policy, the selection for a block
  and the return of transactions that a reorganisation displaced. The pool meets the contract of
  \<open>Bounded_Fifo\<close>; the invariants say that index and order agree, that every transaction
  sits under its own identifier, and that admission keeps one transaction per sender and nonce.
\<close>

section \<open>Admission\<close>

datatype mempool_admission_error =
    StatelessValidation tx_validation_error
  | DuplicateCanonicalTxId
  | StaleNonce u64 u64
  | NonceGap u64 u64
  | DuplicateSenderNonce string u64 u64 u64

datatype admission_decision = AdmissionAccept | AdmissionReplace string

definition evaluate ::
  "('db, 'x) ext_scheme \<Rightarrow> u64 \<Rightarrow> tx list \<Rightarrow> tx \<Rightarrow> mempool_admission_error + admission_decision" where
  "evaluate X current_nonce pending t =
     (case validate_tx_stateless X t of
        Inl e \<Rightarrow> Inl (StatelessValidation e)
      | Inr _ \<Rightarrow>
          (if list_ex (\<lambda>u. canonical_tx_id X u = canonical_tx_id X t) pending
           then Inl DuplicateCanonicalTxId
           else if tx_nonce t < current_nonce then Inl (StaleNonce current_nonce (tx_nonce t))
           else if tx_nonce t > saturating_add current_nonce 1
           then Inl (NonceGap current_nonce (tx_nonce t))
           else (case find (\<lambda>u. sender_pubkey u = sender_pubkey t \<and> tx_nonce u = tx_nonce t) pending of
               Some u \<Rightarrow>
                 if tip t > tip u then Inr (AdmissionReplace (canonical_tx_id X u))
                 else Inl (DuplicateSenderNonce (sender_pubkey t) (tx_nonce t) (tip u) (tip t))
             | None \<Rightarrow> Inr AdmissionAccept)))"

section \<open>The pool\<close>

record pool =
  by_id :: "(string, tx) btree"
  pool_order :: "string list"

definition pool_new :: pool where
  "pool_new = \<lparr>by_id = [], pool_order = []\<rparr>"

definition tx_key :: "('db, 'x) ext_scheme \<Rightarrow> tx \<Rightarrow> string" where
  "tx_key X t = canonical_tx_id X t"

definition has :: "pool \<Rightarrow> string \<Rightarrow> bool" where
  "has p i = (bt_lookup (by_id p) i \<noteq> None)"

definition pool_get :: "pool \<Rightarrow> string \<Rightarrow> tx option" where
  "pool_get p i = bt_lookup (by_id p) i"

definition pool_len :: "pool \<Rightarrow> nat" where
  "pool_len p = length (bt_entries (by_id p))"

definition list_ids :: "pool \<Rightarrow> string list" where
  "list_ids p = pool_order p"

definition insert_locked :: "pool \<Rightarrow> string \<Rightarrow> tx \<Rightarrow> pool" where
  "insert_locked p i t =
     (let p1 = (if pool_len p \<ge> MEMPOOL_MAX
                then (case pool_order p of
                        [] \<Rightarrow> p
                      | evict_id # rest \<Rightarrow>
                          p\<lparr>by_id := bt_remove evict_id (by_id p), pool_order := rest\<rparr>)
                else p)
      in p1\<lparr>by_id := bt_insert i t (by_id p1), pool_order := pool_order p1 @ [i]\<rparr>)"

definition pool_insert :: "('db, 'x) ext_scheme \<Rightarrow> tx \<Rightarrow> pool \<Rightarrow> pool \<times> bool" where
  "pool_insert X t p =
     (let i = tx_key X t in if has p i then (p, False) else (insert_locked p i t, True))"

definition pending_txs :: "pool \<Rightarrow> tx list" where
  "pending_txs p = List.map_filter (pool_get p) (pool_order p)"

definition admit ::
  "('db, 'x) ext_scheme \<Rightarrow> tx \<Rightarrow> u64 \<Rightarrow> pool \<Rightarrow> pool \<times> (mempool_admission_error + admission_decision)" where
  "admit X t current_nonce p =
     (case evaluate X current_nonce (pending_txs p) t of
        Inl e \<Rightarrow> (p, Inl e)
      | Inr AdmissionAccept \<Rightarrow> (insert_locked p (tx_key X t) t, Inr AdmissionAccept)
      | Inr (AdmissionReplace evict) \<Rightarrow>
          (insert_locked
             (p\<lparr>by_id := bt_remove evict (by_id p),
                pool_order := filter (\<lambda>i. i \<noteq> evict) (pool_order p)\<rparr>) (tx_key X t) t,
           Inr (AdmissionReplace evict)))"

definition select_for_block :: "pool \<Rightarrow> nat \<Rightarrow> tx list" where
  "select_for_block p limit = List.map_filter (pool_get p) (take limit (pool_order p))"

definition remove_confirmed :: "string list \<Rightarrow> pool \<Rightarrow> pool" where
  "remove_confirmed tx_ids p =
     (let m = fold bt_remove tx_ids (by_id p)
      in p\<lparr>by_id := m, pool_order := filter (\<lambda>i. i \<in> set (map fst (bt_entries m))) (pool_order p)\<rparr>)"

section \<open>Returning displaced transactions\<close>

record reorg_requeue_report =
  rq_accepted :: "string list"
  rq_rejected :: "(string \<times> mempool_admission_error) list"

definition requeue_candidates :: "('db, 'x) ext_scheme \<Rightarrow> reorg_recovery \<Rightarrow> tx list" where
  "requeue_candidates X r =
     sort_key (\<lambda>t. (sender_pubkey t, tx_nonce t))
       (filter (\<lambda>t. canonical_tx_id X t \<notin> set (winning_tx_ids r))
         (filter (\<lambda>t. module t \<noteq> ''coinbase'') (displaced_txs r)))"

fun requeue_all ::
  "('db, 'x) ext_scheme \<Rightarrow> ('db, 'm) chain_state_scheme \<Rightarrow> tx list \<Rightarrow> pool \<Rightarrow> reorg_requeue_report
     \<Rightarrow> pool \<times> reorg_requeue_report" where
  "requeue_all X g [] p rep = (p, rep)"
| "requeue_all X g (t # ts) p rep =
     (case admit X t (nonce_of g (sender_pubkey t)) p of
        (p', Inr _) \<Rightarrow>
          requeue_all X g ts p' (rep\<lparr>rq_accepted := rq_accepted rep @ [canonical_tx_id X t]\<rparr>)
      | (p', Inl e) \<Rightarrow>
          requeue_all X g ts p' (rep\<lparr>rq_rejected := rq_rejected rep @ [(canonical_tx_id X t, e)]\<rparr>))"

definition requeue_after_reorg ::
  "('db, 'x) ext_scheme \<Rightarrow> ('db, 'm) chain_state_scheme \<Rightarrow> reorg_recovery \<Rightarrow> pool \<Rightarrow> pool \<times> reorg_requeue_report" where
  "requeue_after_reorg X g r p =
     requeue_all X g (requeue_candidates X r) (remove_confirmed (winning_tx_ids r) p)
       \<lparr>rq_accepted = [], rq_rejected = []\<rparr>"

section \<open>Index and order agree\<close>

definition pool_shape :: "pool \<Rightarrow> bool" where
  "pool_shape p \<longleftrightarrow> bt_wf (by_id p) \<and> distinct (pool_order p)
     \<and> set (pool_order p) = dom (bt_lookup (by_id p)) \<and> length (pool_order p) \<le> MEMPOOL_MAX"

lemma length_entries:
  assumes "bt_wf m"
  shows "length (bt_entries m) = card (dom (bt_lookup m))"
proof -
  have "dom (bt_lookup m) = fst ` set (bt_entries m)"
    using bt.entries_lookup [OF assms] dom_map_of_conv_image_fst by metis
  then show ?thesis
    using distinct_card [OF bt.distinct_entries [OF assms]] by simp
qed

lemma pool_len_order: "pool_shape p \<Longrightarrow> pool_len p = length (pool_order p)"
  by (simp add: pool_shape_def pool_len_def length_entries) (metis distinct_card)

lemma has_iff: "pool_shape p \<Longrightarrow> has p i \<longleftrightarrow> i \<in> set (pool_order p)"
  by (auto simp: pool_shape_def has_def)

lemma has_get: "has p i \<longleftrightarrow> pool_get p i \<noteq> None"
  by (simp add: has_def pool_get_def)

lemma pool_shape_new [simp]: "pool_shape pool_new"
  by (auto simp: pool_shape_def pool_new_def)

text \<open>Making room takes the oldest entry out of a full pool and nothing else.\<close>

lemma drop_to_cap:
  assumes "length xs \<le> c" "0 < c"
  shows "drop (Suc (length xs) - c) (xs @ [x]) = drop (Suc (length xs) - c) xs @ [x]"
  using assms by simp

lemma insert_locked_order:
  assumes "pool_shape p"
  shows "pool_order (insert_locked p i t)
    = drop (Suc (length (pool_order p)) - MEMPOOL_MAX) (pool_order p @ [i])"
proof -
  have len: "pool_len p = length (pool_order p)" "length (pool_order p) \<le> MEMPOOL_MAX"
    using assms pool_len_order by (auto simp: pool_shape_def)
  show ?thesis
  proof (cases "pool_order p")
    case Nil
    then show ?thesis using len by (simp add: insert_locked_def MEMPOOL_MAX_def)
  next
    case (Cons e r)
    show ?thesis
    proof (cases "MEMPOOL_MAX \<le> length (pool_order p)")
      case True
      then have "Suc (length (pool_order p)) - MEMPOOL_MAX = 1" using len by simp
      then show ?thesis using True len Cons by (simp add: insert_locked_def)
    next
      case False
      then show ?thesis using len Cons by (simp add: insert_locked_def)
    qed
  qed
qed

lemma insert_locked_get:
  assumes "pool_shape p"
  shows "pool_get (insert_locked p i t) j =
    (if j = i then Some t
     else if MEMPOOL_MAX \<le> length (pool_order p) \<and> j = hd (pool_order p) then None
     else pool_get p j)"
proof -
  have len: "pool_len p = length (pool_order p)" using assms by (rule pool_len_order)
  have pos: "0 < MEMPOOL_MAX" by (simp add: MEMPOOL_MAX_def)
  show ?thesis
    using pos by (cases "pool_order p") (auto simp: insert_locked_def pool_get_def len Let_def)
qed

lemma insert_locked_shape:
  assumes sh: "pool_shape p" and new: "\<not> has p i"
  shows "pool_shape (insert_locked p i t)"
proof -
  have wf: "bt_wf (by_id (insert_locked p i t))"
    using sh by (auto simp: insert_locked_def pool_shape_def Let_def split: list.splits)
  have ord: "distinct (pool_order p @ [i])" using sh new by (auto simp: pool_shape_def has_def)
  have len: "length (pool_order p) \<le> MEMPOOL_MAX" using sh by (simp add: pool_shape_def)
  have pos: "0 < MEMPOOL_MAX" by (simp add: MEMPOOL_MAX_def)
  have dom: "j \<in> set (pool_order (insert_locked p i t))
      \<longleftrightarrow> pool_get (insert_locked p i t) j \<noteq> None" for j
  proof (cases "MEMPOOL_MAX \<le> length (pool_order p)")
    case True
    then obtain e r where e: "pool_order p = e # r" using pos by (cases "pool_order p") auto
    have one: "Suc (length (pool_order p)) - MEMPOOL_MAX = 1" using True len by simp
    have "e \<notin> set r" "e \<noteq> i" using ord e by auto
    then show ?thesis
      using has_iff [OF sh, of j] True
      unfolding insert_locked_order [OF sh] insert_locked_get [OF sh] one by (auto simp: e has_get)
  next
    case False
    then have "Suc (length (pool_order p)) - MEMPOOL_MAX = 0" by simp
    then show ?thesis
      using has_iff [OF sh, of j] False
      unfolding insert_locked_order [OF sh] insert_locked_get [OF sh] by (auto simp: has_get)
  qed
  have "length (pool_order (insert_locked p i t)) \<le> MEMPOOL_MAX"
    unfolding insert_locked_order [OF sh] using len pos by simp
  moreover have "distinct (pool_order (insert_locked p i t))"
    unfolding insert_locked_order [OF sh] using ord by (rule distinct_drop)
  ultimately show ?thesis using wf dom by (auto simp: pool_shape_def pool_get_def)
qed

text \<open>The body of \<open>insert\<close> on a key and its transaction is a bounded first-in-first-out
  index.\<close>

definition insert_body :: "string \<Rightarrow> tx \<Rightarrow> pool \<Rightarrow> pool" where
  "insert_body i t p = (if has p i then p else insert_locked p i t)"

interpretation fifo: bounded_fifo pool_order has insert_body MEMPOOL_MAX pool_shape
proof unfold_locales
  show "0 < MEMPOOL_MAX" by (simp add: MEMPOOL_MAX_def)
  show "pool_shape s \<Longrightarrow> pool_shape (insert_body k v s)" for s k v
    by (simp add: insert_body_def insert_locked_shape)
qed (simp_all add: has_iff insert_body_def insert_locked_order, simp_all add: pool_shape_def)

section \<open>Removal and admission\<close>

lemma bt_wf_fold_remove: "bt_wf m \<Longrightarrow> bt_wf (fold bt_remove ks m)"
  by (induction ks arbitrary: m) auto

lemma bt_lookup_fold_remove:
  "bt_lookup (fold bt_remove ks m) k = (if k \<in> set ks then None else bt_lookup m k)"
  by (induction ks arbitrary: m) auto

lemma entries_keys: "bt_wf m \<Longrightarrow> k \<in> set (map fst (bt_entries m)) \<longleftrightarrow> bt_lookup m k \<noteq> None"
  using bt.entries_lookup [of m] by (metis map_of_eq_None_iff set_map)

lemma remove_confirmed_get:
  "pool_get (remove_confirmed ids p) i = (if i \<in> set ids then None else pool_get p i)"
  by (simp add: remove_confirmed_def pool_get_def bt_lookup_fold_remove Let_def)

lemma remove_confirmed_order:
  assumes "pool_shape p"
  shows "pool_order (remove_confirmed ids p) = filter (\<lambda>i. i \<notin> set ids) (pool_order p)"
proof -
  have wf: "bt_wf (fold bt_remove ids (by_id p))"
    using assms by (simp add: bt_wf_fold_remove pool_shape_def)
  have "filter (\<lambda>i. i \<in> set (map fst (bt_entries (fold bt_remove ids (by_id p))))) (pool_order p)
      = filter (\<lambda>i. i \<notin> set ids) (pool_order p)"
    using assms unfolding entries_keys [OF wf]
    by (intro filter_cong) (auto simp: bt_lookup_fold_remove pool_shape_def)
  then show ?thesis by (simp add: remove_confirmed_def Let_def)
qed

lemma length_filter_bound: "length xs \<le> c \<Longrightarrow> length (filter P xs) \<le> c"
  by (rule le_trans [OF length_filter_le])

lemma remove_confirmed_shape: "pool_shape p \<Longrightarrow> pool_shape (remove_confirmed ids p)"
  using remove_confirmed_get [of ids p]
  by (auto simp: pool_shape_def remove_confirmed_order [unfolded pool_shape_def] length_filter_bound
      pool_get_def split: if_splits)
    (simp add: remove_confirmed_def bt_wf_fold_remove Let_def)

text \<open>The replacement branch of \<open>admit\<close> is a confirmed removal of one identifier.\<close>

lemma evict_is_removal:
  assumes "pool_shape p"
  shows "p\<lparr>by_id := bt_remove e (by_id p), pool_order := filter (\<lambda>i. i \<noteq> e) (pool_order p)\<rparr>
    = remove_confirmed [e] p"
proof -
  have "pool_order (remove_confirmed [e] p) = filter (\<lambda>i. i \<noteq> e) (pool_order p)"
    using remove_confirmed_order [OF assms, of "[e]"] by simp
  moreover have "by_id (remove_confirmed [e] p) = bt_remove e (by_id p)"
    by (simp add: remove_confirmed_def Let_def)
  ultimately show ?thesis by (cases p) (cases "remove_confirmed [e] p", simp)
qed

section \<open>Transactions sit under their own identifier\<close>

definition pool_ids :: "('db, 'x) ext_scheme \<Rightarrow> pool \<Rightarrow> bool" where
  "pool_ids X p \<longleftrightarrow> (\<forall>i t. pool_get p i = Some t \<longrightarrow> i = canonical_tx_id X t)"

text \<open>What admission adds: the transactions are valid and no two share sender and nonce.\<close>

definition pool_strict :: "('db, 'x) ext_scheme \<Rightarrow> pool \<Rightarrow> bool" where
  "pool_strict X p \<longleftrightarrow>
     (\<forall>i t. pool_get p i = Some t \<longrightarrow> validate_tx_stateless X t = Inr ()) \<and>
     (\<forall>i j t u. pool_get p i = Some t \<longrightarrow> pool_get p j = Some u \<longrightarrow>
        sender_pubkey t = sender_pubkey u \<longrightarrow> tx_nonce t = tx_nonce u \<longrightarrow> i = j)"

lemma set_pending:
  assumes "pool_shape p"
  shows "t \<in> set (pending_txs p) \<longleftrightarrow> (\<exists>i. pool_get p i = Some t)"
  using has_iff [OF assms] by (force simp: pending_txs_def List.map_filter_def has_get image_iff)

text \<open>Every way \<open>admit\<close> can go.\<close>

lemma admit_cases:
  assumes sh: "pool_shape p" and r: "admit X t n p = (p', r)"
  obtains (rejected) e where "r = Inl e" "p' = p"
  | (accepted) "r = Inr AdmissionAccept" "p' = insert_locked p (tx_key X t) t"
      "validate_tx_stateless X t = Inr ()"
      "\<And>u. u \<in> set (pending_txs p) \<Longrightarrow> canonical_tx_id X u \<noteq> canonical_tx_id X t"
      "\<And>u. u \<in> set (pending_txs p) \<Longrightarrow> sender_pubkey u = sender_pubkey t \<Longrightarrow> tx_nonce u \<noteq> tx_nonce t"
  | (replaced) u where "r = Inr (AdmissionReplace (canonical_tx_id X u))"
      "p' = insert_locked (remove_confirmed [canonical_tx_id X u] p) (tx_key X t) t"
      "validate_tx_stateless X t = Inr ()"
      "\<And>v. v \<in> set (pending_txs p) \<Longrightarrow> canonical_tx_id X v \<noteq> canonical_tx_id X t"
      "u \<in> set (pending_txs p)" "sender_pubkey u = sender_pubkey t" "tx_nonce u = tx_nonce t"
      "tip t > tip u"
  using r evict_is_removal [OF sh]
  by (auto simp: admit_def evaluate_def list_ex_iff find_None_iff find_Some_iff
      split: sum.splits if_splits option.splits admission_decision.splits)

lemma not_has_pending:
  assumes "pool_shape p" "pool_ids X p"
    and "\<And>u. u \<in> set (pending_txs p) \<Longrightarrow> canonical_tx_id X u \<noteq> canonical_tx_id X t"
  shows "\<not> has p (tx_key X t)"
proof
  assume "has p (tx_key X t)"
  then obtain u where u: "pool_get p (tx_key X t) = Some u" by (auto simp: has_get)
  then have "canonical_tx_id X t = canonical_tx_id X u" using assms(2) by (simp add: pool_ids_def tx_key_def)
  moreover have "u \<in> set (pending_txs p)" using u assms(1) by (auto simp: set_pending)
  ultimately show False using assms(3) by metis
qed

lemma insert_locked_getD:
  "pool_shape p \<Longrightarrow> pool_get (insert_locked p i t) j = Some u \<Longrightarrow> j = i \<and> u = t \<or> pool_get p j = Some u"
  by (auto simp: insert_locked_get split: if_splits)

lemma insert_locked_ids:
  "pool_shape p \<Longrightarrow> pool_ids X p \<Longrightarrow> pool_ids X (insert_locked p (tx_key X t) t)"
  by (auto simp: pool_ids_def tx_key_def dest!: insert_locked_getD)

lemma remove_confirmed_ids: "pool_ids X p \<Longrightarrow> pool_ids X (remove_confirmed ids p)"
  by (auto simp: pool_ids_def remove_confirmed_get)

lemma remove_confirmed_strict: "pool_strict X p \<Longrightarrow> pool_strict X (remove_confirmed ids p)"
  unfolding pool_strict_def remove_confirmed_get by (metis option.distinct(1))

lemma insert_locked_strict:
  assumes sh: "pool_shape p" and st: "pool_strict X p"
    and v: "validate_tx_stateless X t = Inr ()"
    and new: "\<And>u j. pool_get p j = Some u \<Longrightarrow> sender_pubkey u = sender_pubkey t \<Longrightarrow> tx_nonce u \<noteq> tx_nonce t"
  shows "pool_strict X (insert_locked p (tx_key X t) t)"
  unfolding pool_strict_def
proof (intro conjI allI impI)
  fix i u assume "pool_get (insert_locked p (tx_key X t) t) i = Some u"
  then show "validate_tx_stateless X u = Inr ()"
    using insert_locked_getD [OF sh] st v by (metis pool_strict_def)
next
  fix i j u w
  assume "pool_get (insert_locked p (tx_key X t) t) i = Some u"
    and "pool_get (insert_locked p (tx_key X t) t) j = Some w"
    and same: "sender_pubkey u = sender_pubkey w" "tx_nonce u = tx_nonce w"
  then consider "i = tx_key X t" "u = t" "j = tx_key X t" "w = t"
    | "i = tx_key X t" "u = t" "pool_get p j = Some w"
    | "pool_get p i = Some u" "j = tx_key X t" "w = t"
    | "pool_get p i = Some u" "pool_get p j = Some w"
    using insert_locked_getD [OF sh] by metis
  then show "i = j" using same new st by cases (auto simp: pool_strict_def)
qed

text \<open>The well-formed pools, and that every operation keeps them.\<close>

definition pool_wf :: "('db, 'x) ext_scheme \<Rightarrow> pool \<Rightarrow> bool" where
  "pool_wf X p \<longleftrightarrow> pool_shape p \<and> pool_ids X p"

lemma pool_wf_new [simp]: "pool_wf X pool_new" "pool_strict X pool_new"
  by (auto simp: pool_wf_def pool_ids_def pool_get_def pool_strict_def) (simp_all add: pool_new_def)

lemma remove_confirmed_wf: "pool_wf X p \<Longrightarrow> pool_wf X (remove_confirmed ids p)"
  by (simp add: pool_wf_def remove_confirmed_shape remove_confirmed_ids)

lemma pool_insert_wf: "pool_wf X p \<Longrightarrow> pool_insert X t p = (p', b) \<Longrightarrow> pool_wf X p'"
  by (auto simp: pool_insert_def pool_wf_def insert_locked_shape insert_locked_ids Let_def
      split: if_splits)

lemma pending_after_removal:
  assumes "pool_shape p" "u \<in> set (pending_txs (remove_confirmed ids p))"
  shows "u \<in> set (pending_txs p)"
  using assms by (auto simp: set_pending remove_confirmed_shape remove_confirmed_get split: if_splits)

lemma admit_wf:
  assumes wf: "pool_wf X p" and r: "admit X t n p = (p', r)"
  shows "pool_wf X p' \<and> (pool_strict X p \<longrightarrow> pool_strict X p')"
proof -
  have sh: "pool_shape p" and ids: "pool_ids X p" using wf by (auto simp: pool_wf_def)
  show ?thesis
    using sh r
  proof (cases rule: admit_cases)
    case (rejected e)
    then show ?thesis using wf by simp
  next
    case accepted
    have "\<not> has p (tx_key X t)" using sh ids accepted(4) by (rule not_has_pending)
    then have "pool_wf X p'"
      using sh ids by (simp add: accepted(2) pool_wf_def insert_locked_shape insert_locked_ids)
    moreover have "pool_strict X p \<Longrightarrow> pool_strict X p'"
      unfolding accepted(2) using sh _ accepted(3)
      by (rule insert_locked_strict) (use sh accepted(5) set_pending in blast)+
    ultimately show ?thesis by blast
  next
    case (replaced u)
    let ?q = "remove_confirmed [canonical_tx_id X u] p"
    have q: "pool_shape ?q" "pool_ids X ?q"
      using sh ids by (simp_all add: remove_confirmed_shape remove_confirmed_ids)
    have "\<not> has ?q (tx_key X t)"
      by (rule not_has_pending [OF q]) (blast dest: pending_after_removal [OF sh] replaced(4))
    then have "pool_wf X p'"
      using q by (simp add: replaced(2) pool_wf_def insert_locked_shape insert_locked_ids)
    moreover have "pool_strict X p'" if st: "pool_strict X p"
      unfolding replaced(2)
    proof (rule insert_locked_strict [OF q(1) remove_confirmed_strict [OF st] replaced(3)])
      fix w j
      assume w: "pool_get ?q j = Some w" "sender_pubkey w = sender_pubkey t"
      obtain i where i: "pool_get p i = Some u" using replaced(5) sh by (auto simp: set_pending)
      then have "i = canonical_tx_id X u" using ids by (simp add: pool_ids_def)
      moreover have "pool_get p j = Some w" "j \<noteq> canonical_tx_id X u"
        using w by (auto simp: remove_confirmed_get split: if_splits)
      ultimately show "tx_nonce w \<noteq> tx_nonce t"
        using st i w(2) replaced(6,7) unfolding pool_strict_def by metis
    qed
    ultimately show ?thesis by blast
  qed
qed

lemma insert_locked_has: "pool_shape p \<Longrightarrow> has (insert_locked p i t) j \<Longrightarrow> j = i \<or> has p j"
  by (auto simp: has_get insert_locked_get split: if_splits)

lemma admit_has:
  assumes sh: "pool_shape p" and r: "admit X t n p = (p', r)" and h: "has p' j"
  shows "j = canonical_tx_id X t \<or> has p j"
  using sh r
proof (cases rule: admit_cases)
  case (replaced u)
  then have "j = canonical_tx_id X t \<or> has (remove_confirmed [canonical_tx_id X u] p) j"
    using h insert_locked_has [OF remove_confirmed_shape [OF sh]] by (simp add: tx_key_def)
  then show ?thesis by (auto simp: has_get remove_confirmed_get split: if_splits)
qed (use h insert_locked_has [OF sh] in \<open>auto simp: tx_key_def\<close>)

lemma pending_has: "pool_wf X p \<Longrightarrow> u \<in> set (pending_txs p) \<Longrightarrow> has p (canonical_tx_id X u)"
  by (auto simp: pool_wf_def set_pending pool_ids_def has_get)

section \<open>The requeue loop\<close>

lemma requeue_all_wf:
  "pool_wf X p \<Longrightarrow> requeue_all X g ts p rep = (p', rep') \<Longrightarrow>
     pool_wf X p' \<and> (pool_strict X p \<longrightarrow> pool_strict X p')"
proof (induction X g ts p rep rule: requeue_all.induct)
  case (2 X g t ts p rep)
  obtain q r where q: "admit X t (nonce_of g (sender_pubkey t)) p = (q, r)" by fastforce
  have "pool_wf X q \<and> (pool_strict X p \<longrightarrow> pool_strict X q)" using admit_wf [OF 2(3) q] .
  with 2 q show ?case by (cases r) auto
qed simp

lemma requeue_all_has:
  "pool_wf X p \<Longrightarrow> requeue_all X g ts p rep = (p', rep') \<Longrightarrow> has p' j \<Longrightarrow>
     j \<in> canonical_tx_id X ` set ts \<or> has p j"
proof (induction X g ts p rep rule: requeue_all.induct)
  case (2 X g t ts p rep)
  obtain q r where q: "admit X t (nonce_of g (sender_pubkey t)) p = (q, r)" by fastforce
  have "pool_wf X q" using admit_wf [OF 2(3) q] by blast
  moreover have "has q j \<Longrightarrow> j = canonical_tx_id X t \<or> has p j"
    using 2(3) q by (auto simp: pool_wf_def dest: admit_has)
  ultimately show ?case using 2 q by (cases r) auto
qed simp

text \<open>The report interleaves: what was accepted and what was rejected shuffle into the
  candidates, each in order.\<close>

lemma requeue_all_report:
  "requeue_all X g ts p rep = (p', rep') \<Longrightarrow>
     \<exists>as rs. rq_accepted rep' = rq_accepted rep @ as \<and> rq_rejected rep' = rq_rejected rep @ rs
       \<and> map (canonical_tx_id X) ts \<in> shuffles as (map fst rs)"
proof (induction X g ts p rep rule: requeue_all.induct)
  case (2 X g t ts p rep)
  obtain q r where q: "admit X t (nonce_of g (sender_pubkey t)) p = (q, r)" by fastforce
  show ?case
  proof (cases r)
    case (Inl e)
    then obtain as rs where "rq_accepted rep' = rq_accepted rep @ as"
      "rq_rejected rep' = rq_rejected rep @ (canonical_tx_id X t, e) # rs"
      "map (canonical_tx_id X) ts \<in> shuffles as (map fst rs)"
      using 2(1) [OF q [symmetric] Inl] 2(3) q Inl by auto
    then show ?thesis by (intro exI [of _ as] exI [of _ "(canonical_tx_id X t, e) # rs"])
      (simp add: Cons_in_shuffles_rightI)
  next
    case (Inr d)
    then obtain as rs where "rq_accepted rep' = rq_accepted rep @ canonical_tx_id X t # as"
      "rq_rejected rep' = rq_rejected rep @ rs"
      "map (canonical_tx_id X) ts \<in> shuffles as (map fst rs)"
      using 2(2) [OF q [symmetric] Inr] 2(3) q Inr by auto
    then show ?thesis by (intro exI [of _ "canonical_tx_id X t # as"] exI [of _ rs])
      (simp add: Cons_in_shuffles_leftI)
  qed
qed simp

section \<open>The admission decision\<close>

abbreviation rivals :: "tx \<Rightarrow> tx \<Rightarrow> bool" where
  "rivals t u \<equiv> sender_pubkey u = sender_pubkey t \<and> tx_nonce u = tx_nonce t"

lemma evaluate_Inr_iff:
  "(\<exists>d. evaluate X n ps t = Inr d) \<longleftrightarrow> validate_tx_stateless X t = Inr ()
     \<and> \<not> list_ex (\<lambda>u. canonical_tx_id X u = canonical_tx_id X t) ps
     \<and> n \<le> tx_nonce t \<and> tx_nonce t \<le> saturating_add n 1
     \<and> (\<forall>u. find (rivals t) ps = Some u \<longrightarrow> tip u < tip t)"
  by (cases "validate_tx_stateless X t"; cases "find (rivals t) ps")
    (auto simp: evaluate_def not_less)

lemma pending_known:
  assumes "pool_wf X p"
  shows "list_ex (\<lambda>u. canonical_tx_id X u = canonical_tx_id X t) (pending_txs p)
    \<longleftrightarrow> has p (canonical_tx_id X t)"
proof
  assume "list_ex (\<lambda>u. canonical_tx_id X u = canonical_tx_id X t) (pending_txs p)"
  then obtain u where "u \<in> set (pending_txs p)" "canonical_tx_id X u = canonical_tx_id X t"
    by (auto simp: list_ex_iff)
  then show "has p (canonical_tx_id X t)" using pending_has [OF assms] by metis
next
  assume "has p (canonical_tx_id X t)"
  then obtain u where u: "pool_get p (canonical_tx_id X t) = Some u" by (auto simp: has_get)
  then have "canonical_tx_id X u = canonical_tx_id X t" "u \<in> set (pending_txs p)"
    using assms set_pending [of p] by (auto simp: pool_wf_def pool_ids_def)
  then show "list_ex (\<lambda>u. canonical_tx_id X u = canonical_tx_id X t) (pending_txs p)"
    by (auto simp: list_ex_iff)
qed

lemma strict_rival:
  assumes sh: "pool_shape p" and st: "pool_strict X p"
    and u: "pool_get p i = Some u" "rivals t u"
  shows "find (rivals t) (pending_txs p) = Some u"
proof (cases "find (rivals t) (pending_txs p)")
  case None
  then have "\<not> rivals t u" using set_pending [OF sh, of u] u(1) unfolding find_None_iff by blast
  then show ?thesis using u(2) by blast
next
  case (Some v)
  then have v: "v \<in> set (pending_txs p)" "rivals t v" unfolding find_Some_iff by auto
  then obtain j where j: "pool_get p j = Some v" using set_pending [OF sh] by blast
  have "i = j" using st u j v(2) unfolding pool_strict_def by metis
  then show ?thesis using Some u(1) j by simp
qed

lemma rival_tip_iff:
  assumes sh: "pool_shape p" and st: "pool_strict X p"
  shows "(\<forall>u. find (rivals t) (pending_txs p) = Some u \<longrightarrow> tip u < tip t)
    \<longleftrightarrow> (\<forall>i u. pool_get p i = Some u \<longrightarrow> rivals t u \<longrightarrow> tip u < tip t)"
proof
  assume "\<forall>u. find (rivals t) (pending_txs p) = Some u \<longrightarrow> tip u < tip t"
  then show "\<forall>i u. pool_get p i = Some u \<longrightarrow> rivals t u \<longrightarrow> tip u < tip t"
    using strict_rival [OF assms] by blast
next
  assume r: "\<forall>i u. pool_get p i = Some u \<longrightarrow> rivals t u \<longrightarrow> tip u < tip t"
  show "\<forall>u. find (rivals t) (pending_txs p) = Some u \<longrightarrow> tip u < tip t"
  proof (intro allI impI)
    fix u assume "find (rivals t) (pending_txs p) = Some u"
    then have "u \<in> set (pending_txs p)" "rivals t u" unfolding find_Some_iff by auto
    then show "tip u < tip t" using r set_pending [OF sh] by blast
  qed
qed

lemma saturating_next:
  fixes k n :: u64
  shows "k \<le> saturating_add n 1 \<longleftrightarrow> unat k \<le> unat n + 1"
proof -
  have "unat (saturating_add n 1) = min (unat n + 1) (2 ^ 64 - 1)" by (simp add: unat_saturating_add)
  then show ?thesis using u64_le [of k] unfolding word_le_nat_alt by (auto simp: min_def)
qed

lemma admit_Inr_iff: "(\<exists>d. snd (admit X t n p) = Inr d) \<longleftrightarrow> (\<exists>d. evaluate X n (pending_txs p) t = Inr d)"
  by (auto simp: admit_def split: sum.splits admission_decision.splits)

lemma admit_Inl: "snd (admit X t n p) = Inl e \<Longrightarrow> fst (admit X t n p) = p"
  by (auto simp: admit_def split: sum.splits admission_decision.splits)

end
