(* ===== verification/Mempool_Props.thy ===== *)
theory Mempool_Props
  imports Mempool Pow_Cache Examples "HOL-Library.Multiset"
begin

text \<open>
  What the pool of pending transactions guarantees, over every sequence of its operations.
\<close>

section \<open>Reached pools\<close>

text \<open>A pool is reached from the empty one by the public operations. The flag says whether the
  unchecked \<open>insert\<close>, which is kept for tests and internal setup, may have been used.\<close>

inductive pool_reached :: "('db, 'x) ext_scheme \<Rightarrow> bool \<Rightarrow> pool \<Rightarrow> bool"
  for X :: "('db, 'x) ext_scheme" and legacy :: bool where
  reached_new: "pool_reached X legacy pool_new"
| reached_insert: "pool_reached X legacy p \<Longrightarrow> legacy \<Longrightarrow> pool_insert X t p = (p', b) \<Longrightarrow>
    pool_reached X legacy p'"
| reached_admit: "pool_reached X legacy p \<Longrightarrow> admit X t n p = (p', r) \<Longrightarrow> pool_reached X legacy p'"
| reached_confirmed: "pool_reached X legacy p \<Longrightarrow> pool_reached X legacy (remove_confirmed ids p)"
| reached_requeue: "pool_reached X legacy p \<Longrightarrow>
    requeue_after_reorg X (g :: 'db machine) rc p = (p', rep) \<Longrightarrow> pool_reached X legacy p'"

inductive_cases pool_reached_newE: "pool_reached X legacy pool_new"

lemma reached_pool_wf:
  "pool_reached X legacy p \<Longrightarrow> pool_wf X p \<and> (\<not> legacy \<longrightarrow> pool_strict X p)"
proof (induction rule: pool_reached.induct)
  case (reached_insert p t p' b)
  then show ?case using pool_insert_wf [of X p t p' b] by simp
next
  case (reached_admit p t n p' r)
  then show ?case using admit_wf [of X p t n p' r] by simp
next
  case (reached_confirmed p ids)
  then show ?case by (simp add: remove_confirmed_wf remove_confirmed_strict)
next
  case (reached_requeue p g rc p' rep)
  then show ?case
    using requeue_all_wf [of X "remove_confirmed (winning_tx_ids rc) p" g
        "requeue_candidates X rc" "\<lparr>rq_accepted = [], rq_rejected = []\<rparr>" p' rep]
    by (simp add: requeue_after_reorg_def remove_confirmed_wf remove_confirmed_strict)
qed simp

section \<open>Example pools\<close>

text \<open>A pool holding one transaction, and the same after a better-paying rival replaced it.\<close>

definition pool_one :: pool where
  "pool_one = fst (admit light_ext (tipped 0 4) 0 pool_new)"

definition pool_two :: pool where
  "pool_two = fst (admit light_ext (tipped 0 7) 0 pool_one)"

lemma pool_one_reached: "pool_reached light_ext False pool_one"
  by (rule reached_admit [OF reached_new]) (simp add: pool_one_def prod_eq_iff)

lemma pool_two_reached: "pool_reached light_ext False pool_two"
  by (rule reached_admit [OF pool_one_reached]) (simp add: pool_two_def prod_eq_iff)

lemma pool_one_admission:
  "admit light_ext (tipped 0 4) 0 pool_new = (pool_one, Inr AdmissionAccept)"
  by (simp add: pool_one_def admit_def evaluate_def pending_txs_def pool_new_def
      List.map_filter_simps saturating_add_def)

lemma pool_one_eq:
  "pool_one = \<lparr>by_id = [(canonical_tx_id light_ext (tipped 0 4), tipped 0 4)],
     pool_order = [canonical_tx_id light_ext (tipped 0 4)]\<rparr>"
  using pool_one_admission
  by (auto simp: admit_def evaluate_def pending_txs_def pool_new_def List.map_filter_simps
      saturating_add_def insert_locked_def pool_len_def bt_entries_def MEMPOOL_MAX_def tx_key_def)

lemma pool_two_admission:
  "admit light_ext (tipped 0 7) 0 pool_one
    = (pool_two, Inr (AdmissionReplace (canonical_tx_id light_ext (tipped 0 4))))"
  by (simp add: pool_two_def admit_def evaluate_def pending_txs_def pool_one_eq
      List.map_filter_simps saturating_add_def pool_get_def bt_lookup_def)

section \<open>Properties\<close>

text \<open>C1: after any sequence of operations index and order of the pool agree, every transaction
  is stored under its own canonical identifier, the number of entries is what \<open>len\<close>
  reports and never exceeds \<open>MEMPOOL_MAX\<close>, and a block selection of up to \<open>limit\<close>
  transactions is the oldest ones in the order of \<open>list_ids\<close>.\<close>

theorem mempool_consistent:
  assumes "pool_reached X legacy p"
  shows "distinct (list_ids p) \<and> (\<forall>i. has p i \<longleftrightarrow> i \<in> set (list_ids p))
    \<and> pool_len p = length (list_ids p) \<and> pool_len p \<le> 10000
    \<and> map (canonical_tx_id X) (select_for_block p limit) = take limit (list_ids p)"
proof -
  have sh: "pool_shape p" and ids: "pool_ids X p"
    using reached_pool_wf [OF assms] by (auto simp: pool_wf_def)
  have "map (canonical_tx_id X) (List.map_filter (pool_get p) is) = is"
    if "set is \<subseteq> set (pool_order p)" for "is"
    using that
  proof (induction "is")
    case (Cons i "is")
    then obtain t where "pool_get p i = Some t" using has_iff [OF sh, of i] by (auto simp: has_get)
    then show ?case using Cons ids by (simp add: List.map_filter_simps pool_ids_def)
  qed (simp add: List.map_filter_simps)
  then have "map (canonical_tx_id X) (select_for_block p limit) = take limit (list_ids p)"
    using set_take_subset [of limit "pool_order p"] by (simp add: select_for_block_def list_ids_def)
  then show ?thesis
    using sh has_iff [OF sh] pool_len_order [OF sh]
    by (simp add: list_ids_def pool_shape_def MEMPOOL_MAX_def)
qed

theorem mempool_consistent_witness:
  "map (canonical_tx_id light_ext) (select_for_block pool_two 5) = take 5 (list_ids pool_two)
    \<and> pool_len pool_two = length (list_ids pool_two)"
  using mempool_consistent [OF pool_two_reached, where limit = 5] by simp

text \<open>C17: a pool filled through admission only ever holds statelessly valid transactions, and at
  most one for each sender and nonce, whatever was admitted, replaced, confirmed or returned by
  reorganisations.\<close>

theorem admitted_pool_unique:
  assumes "pool_reached X False p"
  shows "(\<forall>i t. pool_get p i = Some t \<longrightarrow> validate_tx_stateless X t = Inr ())
    \<and> (\<forall>i j t u. pool_get p i = Some t \<longrightarrow> pool_get p j = Some u \<longrightarrow>
         sender_pubkey t = sender_pubkey u \<longrightarrow> tx_nonce t = tx_nonce u \<longrightarrow> i = j)"
  using reached_pool_wf [OF assms] by (simp add: pool_strict_def)

theorem admitted_pool_unique_witness:
  "\<not> (\<exists>i j t u. pool_get pool_two i = Some t \<and> pool_get pool_two j = Some u \<and>
     sender_pubkey t = sender_pubkey u \<and> tx_nonce t = tx_nonce u \<and> i \<noteq> j)"
  using admitted_pool_unique [OF pool_two_reached] by blast

lemma admit_decides:
  assumes "pool_reached X False p"
  shows "((\<exists>d. snd (admit X t n p) = Inr d) \<longleftrightarrow>
      validate_tx_stateless X t = Inr () \<and> \<not> has p (canonical_tx_id X t)
      \<and> n \<le> tx_nonce t \<and> unat (tx_nonce t) \<le> unat n + 1
      \<and> (\<forall>i u. pool_get p i = Some u \<longrightarrow>
           sender_pubkey u = sender_pubkey t \<and> tx_nonce u = tx_nonce t \<longrightarrow> tip u < tip t))
    \<and> (\<forall>e. snd (admit X t n p) = Inl e \<longrightarrow> fst (admit X t n p) = p)"
proof -
  have wf: "pool_wf X p" and sh: "pool_shape p" and st: "pool_strict X p"
    using reached_pool_wf [OF assms] by (auto simp: pool_wf_def)
  show ?thesis
    unfolding admit_Inr_iff evaluate_Inr_iff pending_known [OF wf] saturating_next
      rival_tip_iff [OF sh st]
    using admit_Inl by blast
qed

text \<open>C18: the admission policy in full. On an admitted pool a transaction is accepted exactly
  when it is statelessly valid, its identifier is new, its nonce is the account's next one or the
  one after (at the top of the range only the former), and its tip strictly exceeds that of a
  pooled transaction of the same sender and nonce; a refusal leaves the pool as it was.\<close>

theorem admission_policy:
  assumes "pool_reached X False p"
  shows "((\<exists>d. snd (admit X t n p) = Inr d) \<longleftrightarrow>
      validate_tx_stateless X t = Inr () \<and> \<not> has p (canonical_tx_id X t)
      \<and> n \<le> tx_nonce t \<and> unat (tx_nonce t) \<le> unat n + 1
      \<and> (\<forall>i u. pool_get p i = Some u \<longrightarrow>
           sender_pubkey u = sender_pubkey t \<and> tx_nonce u = tx_nonce t \<longrightarrow> tip u < tip t))
    \<and> (\<forall>e. snd (admit X t n p) = Inl e \<longrightarrow> fst (admit X t n p) = p)"
  using assms by (rule admit_decides)

theorem admission_policy_witness:
  "fst (admit light_ext (tipped 0 4) 0 pool_one) = pool_one
    \<and> (\<exists>d. snd (admit light_ext (tipped 0 7) 0 pool_one) = Inr d)"
proof -
  have "snd (admit light_ext (tipped 0 4) 0 pool_one) = Inl DuplicateCanonicalTxId"
    by (simp add: admit_def evaluate_def pending_txs_def pool_one_eq List.map_filter_simps
        pool_get_def bt_lookup_def)
  then show ?thesis
    using admission_policy [OF pool_one_reached, of "tipped 0 4" 0] pool_two_admission by simp
qed

text \<open>C19: a replacement takes out exactly one transaction, of the same sender and nonce and with
  a strictly smaller tip, puts the new one at the back of the queue, and leaves the order and the
  number of all others alone; in particular a full pool does not evict its oldest entry.\<close>

theorem replacement_swaps_one:
  assumes "pool_reached X False p" "admit X t n p = (p', Inr (AdmissionReplace e))"
  shows "\<exists>u. pool_get p e = Some u \<and> sender_pubkey u = sender_pubkey t \<and> tx_nonce u = tx_nonce t
    \<and> unat (tip u) < unat (tip t)
    \<and> list_ids p' = filter (\<lambda>i. i \<noteq> e) (list_ids p) @ [canonical_tx_id X t]
    \<and> pool_get p' (canonical_tx_id X t) = Some t \<and> \<not> has p' e \<and> pool_len p' = pool_len p"
proof -
  have wf: "pool_wf X p" and sh: "pool_shape p" and ids: "pool_ids X p"
    using reached_pool_wf [OF assms(1)] by (auto simp: pool_wf_def)
  have sh': "pool_shape p'" using admit_wf [OF wf assms(2)] by (simp add: pool_wf_def)
  show ?thesis
    using sh assms(2)
  proof (cases rule: admit_cases)
    case (replaced u)
    let ?q = "remove_confirmed [e] p"
    have e: "e = canonical_tx_id X u" using replaced(1) by simp
    have u: "pool_get p e = Some u"
      using replaced(5) set_pending [OF sh] ids unfolding e pool_ids_def by blast
    then have mem: "e \<in> set (pool_order p)" using has_iff [OF sh, of e] by (simp add: has_get)
    have dist: "distinct (pool_order p)" using sh by (simp add: pool_shape_def)
    have q: "pool_shape ?q" "pool_order ?q = filter (\<lambda>i. i \<noteq> e) (pool_order p)"
      using sh by (simp_all add: remove_confirmed_shape remove_confirmed_order)
    have "length (filter (\<lambda>i. i \<noteq> e) (pool_order p)) = length (pool_order p) - 1"
      using dist mem length_remove1 [of e "pool_order p"] distinct_remove1_removeAll [OF dist, of e]
      by (simp add: removeAll_filter_not_eq eq_commute [of e])
    moreover have "0 < length (pool_order p)" "length (pool_order p) \<le> MEMPOOL_MAX"
      using mem sh by (auto simp: pool_shape_def)
    ultimately have room: "length (pool_order ?q) < MEMPOOL_MAX"
      and len: "Suc (length (pool_order ?q)) = length (pool_order p)" unfolding q(2) by linarith+
    have ord: "pool_order p' = pool_order ?q @ [canonical_tx_id X t]"
      using insert_locked_order [OF q(1)] room by (simp add: replaced(2) e tx_key_def)
    have get: "pool_get p' j = (if j = canonical_tx_id X t then Some t else pool_get ?q j)" for j
      using insert_locked_get [OF q(1)] room by (simp add: replaced(2) e tx_key_def)
    have ne: "e \<noteq> canonical_tx_id X t" using replaced(4) [OF replaced(5)] e by simp
    have "\<not> has p' e" using ne by (simp add: has_get get remove_confirmed_get)
    moreover have "pool_len p' = pool_len p"
      using len pool_len_order [OF sh] pool_len_order [OF sh'] ord by simp
    ultimately show ?thesis
      using u replaced(6-8) ord q(2) get by (simp add: list_ids_def word_less_nat_alt)
  qed simp_all
qed

theorem replacement_swaps_one_witness:
  "\<exists>u. pool_get pool_one (canonical_tx_id light_ext (tipped 0 4)) = Some u \<and>
     unat (tip u) < unat (tip (tipped 0 7)) \<and> pool_len pool_two = pool_len pool_one"
  using replacement_swaps_one [OF pool_one_reached pool_two_admission] by blast

text \<open>C21: the pool is a sliding window. After inserting any number of transactions with distinct
  identifiers into an empty pool it holds exactly the last \<open>MEMPOOL_MAX\<close> of them, in
  order of arrival.\<close>

theorem mempool_keeps_newest:
  assumes "distinct (map (canonical_tx_id X) ts)"
  shows "list_ids (foldl (\<lambda>p t. fst (pool_insert X t p)) pool_new ts)
    = drop (length ts - 10000) (map (canonical_tx_id X) ts)"
proof -
  have "fst (pool_insert X t p) = insert_body (canonical_tx_id X t) t p" for t p
    by (simp add: pool_insert_def insert_body_def tx_key_def Let_def)
  then have "foldl (\<lambda>p t. fst (pool_insert X t p)) q ts
      = foldl (\<lambda>s p. insert_body (fst p) (snd p) s) q (map (\<lambda>t. (canonical_tx_id X t, t)) ts)" for q
    by (simp add: foldl_map)
  moreover have "pool_order pool_new = []" by (simp add: pool_new_def)
  ultimately show ?thesis
    using fifo.window_of_history [OF pool_shape_new, of "map (\<lambda>t. (canonical_tx_id X t, t)) ts"] assms
    by (simp add: list_ids_def o_def MEMPOOL_MAX_def)
qed

theorem mempool_keeps_newest_witness:
  "list_ids (foldl (\<lambda>p t. fst (pool_insert light_ext t p)) pool_new [tipped 0 4, tipped 1 4])
    = map (canonical_tx_id light_ext) [tipped 0 4, tipped 1 4]"
  by (subst mempool_keeps_newest) simp_all

text \<open>C21: after a reorganisation the pool holds no transaction of the winning branch, and the
  report accounts for every displaced transaction that is neither a coinbase nor on the winning
  branch: accepted and rejected ones, each in order, interleave to the candidates, which are the
  eligible transactions sorted by sender and then nonce. Nothing else enters the pool.\<close>

theorem requeue_accounts_for_displaced:
  assumes "pool_reached X legacy p" "requeue_after_reorg X (g :: 'db machine) r p = (p', rep)"
  shows "(\<forall>i\<in>set (winning_tx_ids r). \<not> has p' i)
    \<and> map (canonical_tx_id X) (requeue_candidates X r)
        \<in> shuffles (rq_accepted rep) (map fst (rq_rejected rep))
    \<and> mset (requeue_candidates X r) = mset (filter (\<lambda>t. module t \<noteq> ''coinbase''
         \<and> canonical_tx_id X t \<notin> set (winning_tx_ids r)) (displaced_txs r))
    \<and> sorted (map (\<lambda>t. (sender_pubkey t, tx_nonce t)) (requeue_candidates X r))
    \<and> (\<forall>i. has p' i \<longrightarrow> has p i \<or> i \<in> canonical_tx_id X ` set (displaced_txs r))"
proof -
  let ?q = "remove_confirmed (winning_tx_ids r) p" and ?cs = "requeue_candidates X r"
  have wf: "pool_wf X ?q" using reached_pool_wf [OF assms(1)] by (simp add: remove_confirmed_wf)
  have run: "requeue_all X g ?cs ?q \<lparr>rq_accepted = [], rq_rejected = []\<rparr> = (p', rep)"
    using assms(2) by (simp add: requeue_after_reorg_def)
  have origin: "j \<in> canonical_tx_id X ` set ?cs \<or> has ?q j" if "has p' j" for j
    using requeue_all_has [OF wf run that] .
  have cs: "set ?cs = {t \<in> set (displaced_txs r). module t \<noteq> ''coinbase''
      \<and> canonical_tx_id X t \<notin> set (winning_tx_ids r)}"
    by (auto simp: requeue_candidates_def)
  have q: "has ?q j \<longleftrightarrow> j \<notin> set (winning_tx_ids r) \<and> has p j" for j
    by (simp add: has_get remove_confirmed_get)
  have "\<forall>i\<in>set (winning_tx_ids r). \<not> has p' i" using origin cs q by blast
  moreover have "\<forall>i. has p' i \<longrightarrow> has p i \<or> i \<in> canonical_tx_id X ` set (displaced_txs r)"
    using origin cs q by blast
  moreover have "map (canonical_tx_id X) ?cs \<in> shuffles (rq_accepted rep) (map fst (rq_rejected rep))"
    using requeue_all_report [OF run] by auto
  moreover have "mset ?cs = mset (filter (\<lambda>t. module t \<noteq> ''coinbase''
      \<and> canonical_tx_id X t \<notin> set (winning_tx_ids r)) (displaced_txs r))"
    by (simp add: requeue_candidates_def conj_commute)
  moreover have "sorted (map (\<lambda>t. (sender_pubkey t, tx_nonce t)) ?cs)"
    by (simp add: requeue_candidates_def)
  ultimately show ?thesis by blast
qed

text \<open>A reorganisation displaces two transfers and a coinbase; one of the transfers won.\<close>

definition demo_recovery :: reorg_recovery where
  "demo_recovery = \<lparr>displaced_txs = [tipped 1 4, demo_coinbase 1, tipped 0 4],
     winning_tx_ids = [canonical_tx_id light_ext (tipped 0 4)]\<rparr>"

theorem requeue_accounts_for_displaced_witness:
  "\<forall>g :: ref_db machine. \<exists>p' rep. requeue_after_reorg light_ext g demo_recovery pool_one = (p', rep) \<and>
     \<not> has p' (canonical_tx_id light_ext (tipped 0 4))"
proof
  fix g :: "ref_db machine"
  obtain p' rep where r: "requeue_after_reorg light_ext g demo_recovery pool_one = (p', rep)"
    by fastforce
  show "\<exists>p' rep. requeue_after_reorg light_ext g demo_recovery pool_one = (p', rep) \<and>
     \<not> has p' (canonical_tx_id light_ext (tipped 0 4))"
    using r requeue_accounts_for_displaced [OF pool_one_reached r] by (auto simp: demo_recovery_def)
qed

end
