(* ===== verification/VisionX_Miner.thy ===== *)
theory VisionX_Miner
  imports Pow_Cache
begin

text \<open>
  \<open>pow/visionx_miner.rs\<close>: mining jobs over a header or over the historical preimage, the
  hash of a nonce, the check of a solution, and the search. The miner object is its parameters.
  The dataset cache is threaded through; a panic is \<open>None\<close>. With a good cache every
  operation is a function of the job alone, and the search returns the least nonce whose digest
  meets the target.
\<close>

section \<open>Jobs\<close>

definition inject_nonce :: "u8 list \<Rightarrow> nat \<Rightarrow> u64 \<Rightarrow> pow_error + u8 list" where
  "inject_nonce header_bytes nonce_offset n =
     (let end_off = nonce_offset + 8 in
      if 2 ^ 64 \<le> end_off then Inl (NonceOffsetOverflows nonce_offset)
      else if length header_bytes < end_off
      then Inl (NonceOffsetNeeds nonce_offset end_off (length header_bytes))
      else Inr (take nonce_offset header_bytes @ u64_to_be_bytes n @ drop end_off header_bytes))"

record pow_job =
  pj_params :: visionx_params
  pj_prev_hash32 :: "u8 list"
  pj_epoch :: u64
  pj_header_bytes :: "u8 list"
  pj_nonce_offset :: nat
  pj_target :: "u8 list"
  pj_historical_preimage :: "u8 list option"

record pow_solution =
  sol_nonce :: u64
  sol_hash :: "u8 list"

definition pow_job_new ::
  "visionx_params \<Rightarrow> u8 list \<Rightarrow> u64 \<Rightarrow> u8 list \<Rightarrow> nat \<Rightarrow> u8 list \<Rightarrow> pow_error + pow_job" where
  "pow_job_new p prev_hash32 epoch header_bytes nonce_offset target =
     (case inject_nonce header_bytes nonce_offset 0 of
        Inl e \<Rightarrow> Inl e
      | Inr _ \<Rightarrow> Inr \<lparr>pj_params = p, pj_prev_hash32 = prev_hash32, pj_epoch = epoch,
          pj_header_bytes = header_bytes, pj_nonce_offset = nonce_offset, pj_target = target,
          pj_historical_preimage = None\<rparr>)"

definition from_historical_header ::
  "('db, 'x) ext_scheme \<Rightarrow> visionx_params \<Rightarrow> u8 list \<Rightarrow> u64 \<Rightarrow> block_header \<Rightarrow> nat \<Rightarrow> u8 list
     \<Rightarrow> pow_error + pow_job" where
  "from_historical_header X p prev_hash32 epoch h nonce_offset target =
     (case historical_vpow_message_bytes_with_nonce_zero X h of
        Inl e \<Rightarrow> Inl e
      | Inr pre \<Rightarrow> Inr \<lparr>pj_params = p, pj_prev_hash32 = prev_hash32, pj_epoch = epoch,
          pj_header_bytes = pre, pj_nonce_offset = nonce_offset, pj_target = target,
          pj_historical_preimage = Some pre\<rparr>)"

definition header_with_nonce :: "pow_job \<Rightarrow> u64 \<Rightarrow> pow_error + u8 list" where
  "header_with_nonce job n = inject_nonce (pj_header_bytes job) (pj_nonce_offset job) n"

definition mining_input_bytes :: "pow_job \<Rightarrow> u8 list" where
  "mining_input_bytes job =
     (case pj_historical_preimage job of Some pre \<Rightarrow> pre | None \<Rightarrow> pj_header_bytes job)"

definition hash_for_nonce ::
  "pow_job \<Rightarrow> u64 \<Rightarrow> dataset_cache \<Rightarrow> (dataset_cache \<times> (pow_error + u8 list)) option" where
  "hash_for_nonce job n c =
     (if pj_historical_preimage job \<noteq> None
      then visionx_digest (pj_params job) (pj_prev_hash32 job) (pj_epoch job) (mining_input_bytes job) n c
      else (case header_with_nonce job n of
          Inl e \<Rightarrow> Some (c, Inl e)
        | Inr bs \<Rightarrow> visionx_digest (pj_params job) (pj_prev_hash32 job) (pj_epoch job) bs n c))"

definition solution_for_nonce ::
  "pow_job \<Rightarrow> u64 \<Rightarrow> dataset_cache \<Rightarrow> (dataset_cache \<times> (pow_error + pow_solution)) option" where
  "solution_for_nonce job n c =
     (case hash_for_nonce job n c of
        None \<Rightarrow> None
      | Some (c', Inl e) \<Rightarrow> Some (c', Inl e)
      | Some (c', Inr hash) \<Rightarrow> Some (c', Inr \<lparr>sol_nonce = n, sol_hash = hash\<rparr>))"

definition validate_solution :: "pow_job \<Rightarrow> pow_solution \<Rightarrow> dataset_cache \<Rightarrow> (dataset_cache \<times> bool) option" where
  "validate_solution job sol c =
     (case header_with_nonce job (sol_nonce sol) of
        Inl _ \<Rightarrow> Some (c, False)
      | Inr _ \<Rightarrow>
          (case hash_for_nonce job (sol_nonce sol) c of
             None \<Rightarrow> None
           | Some (c', Inl _) \<Rightarrow> Some (c', False)
           | Some (c', Inr expected_hash) \<Rightarrow>
               Some (c', sol_hash sol = expected_hash \<and> take 8 (sol_hash sol) \<le> take 8 (pj_target job))))"

section \<open>The miner\<close>

text \<open>The loop \<open>for nonce in 0..nonce_limit\<close>, with the number of rounds left.\<close>

fun mine_from :: "pow_job \<Rightarrow> nat \<Rightarrow> u64 \<Rightarrow> dataset_cache \<Rightarrow> (dataset_cache \<times> pow_solution option) option" where
  "mine_from job 0 n c = Some (c, None)"
| "mine_from job (Suc left) n c =
     (case solution_for_nonce job n c of
        None \<Rightarrow> None
      | Some (c1, Inl _) \<Rightarrow> Some (c1, None)
      | Some (c1, Inr candidate) \<Rightarrow>
          (case validate_solution job candidate c1 of
             None \<Rightarrow> None
           | Some (c2, True) \<Rightarrow> Some (c2, Some candidate)
           | Some (c2, False) \<Rightarrow> mine_from job left (n + 1) c2))"

definition mine ::
  "visionx_params \<Rightarrow> pow_job \<Rightarrow> u64 \<Rightarrow> dataset_cache \<Rightarrow> (dataset_cache \<times> pow_solution option) option" where
  "mine p job nonce_limit c =
     (if pj_params job \<noteq> p then Some (c, None) else mine_from job (unat nonce_limit) 0 c)"

definition verify_solution ::
  "visionx_params \<Rightarrow> pow_job \<Rightarrow> pow_solution \<Rightarrow> dataset_cache \<Rightarrow> (dataset_cache \<times> bool) option" where
  "verify_solution p job sol c =
     (if pj_params job \<noteq> p then Some (c, False) else validate_solution job sol c)"

section \<open>The digest of a nonce, with no cache in sight\<close>

definition job_input :: "pow_job \<Rightarrow> u64 \<Rightarrow> pow_error + u8 list" where
  "job_input job n =
     (if pj_historical_preimage job \<noteq> None then Inr (mining_input_bytes job) else header_with_nonce job n)"

definition job_digest :: "pow_job \<Rightarrow> u64 \<Rightarrow> pow_error + u8 list" where
  "job_digest job n =
     (case job_input job n of
        Inl e \<Rightarrow> Inl e
      | Inr bs \<Rightarrow>
          if params_within_bounds (pj_params job)
          then Inr (the (pure_digest (pj_params job) (pj_prev_hash32 job) (pj_epoch job) bs n))
          else Inl InvalidVisionXParameters)"

definition nonce_wins :: "pow_job \<Rightarrow> u64 \<Rightarrow> bool" where
  "nonce_wins job n =
     (case (header_with_nonce job n, job_digest job n) of
        (Inr _, Inr d) \<Rightarrow> take 8 d \<le> take 8 (pj_target job)
      | _ \<Rightarrow> False)"

lemma hash_for_nonce_ok:
  assumes "dc_ok c"
  shows "\<exists>c'. hash_for_nonce job n c = Some (c', job_digest job n) \<and> dc_ok c'"
proof -
  have eq: "hash_for_nonce job n c = (case job_input job n of Inl e \<Rightarrow> Some (c, Inl e)
      | Inr bs \<Rightarrow> visionx_digest (pj_params job) (pj_prev_hash32 job) (pj_epoch job) bs n c)"
    by (simp add: hash_for_nonce_def job_input_def)
  show ?thesis
  proof (cases "job_input job n")
    case (Inl e)
    then show ?thesis using assms by (simp add: eq job_digest_def)
  next
    case (Inr bs)
    show ?thesis
    proof (cases "params_within_bounds (pj_params job)")
      case True
      from visionx_digest_ok [OF assms True, of "pj_prev_hash32 job" "pj_epoch job" bs n]
      show ?thesis using Inr True by (auto simp: eq job_digest_def)
    next
      case False
      then show ?thesis using Inr assms by (simp add: eq job_digest_def visionx_digest_def)
    qed
  qed
qed

lemma solution_for_nonce_ok:
  assumes "dc_ok c"
  shows "\<exists>c'. solution_for_nonce job n c
      = Some (c', map_sum id (\<lambda>d. \<lparr>sol_nonce = n, sol_hash = d\<rparr>) (job_digest job n)) \<and> dc_ok c'"
  using hash_for_nonce_ok [OF assms, of job n]
  by (auto simp: solution_for_nonce_def split: sum.split)

lemma validate_solution_ok:
  assumes "dc_ok c"
  shows "\<exists>c'. validate_solution job sol c
      = Some (c', nonce_wins job (sol_nonce sol) \<and> job_digest job (sol_nonce sol) = Inr (sol_hash sol)) \<and> dc_ok c'"
  using hash_for_nonce_ok [OF assms, of job "sol_nonce sol"] assms
  by (auto simp: validate_solution_def nonce_wins_def split: sum.split)

text \<open>One round of the search.\<close>

lemma mine_from_Suc:
  assumes c: "dc_ok c"
  shows "\<exists>c'. dc_ok c' \<and> mine_from job (Suc left) n c =
    (case job_digest job n of
       Inl _ \<Rightarrow> Some (c', None)
     | Inr d \<Rightarrow> if nonce_wins job n then Some (c', Some \<lparr>sol_nonce = n, sol_hash = d\<rparr>)
         else mine_from job left (n + 1) c')"
proof -
  obtain c1 where c1: "dc_ok c1" "solution_for_nonce job n c
      = Some (c1, map_sum id (\<lambda>d. \<lparr>sol_nonce = n, sol_hash = d\<rparr>) (job_digest job n))"
    using solution_for_nonce_ok [OF c] by blast
  show ?thesis
  proof (cases "job_digest job n")
    case (Inl e)
    then show ?thesis using c1 by auto
  next
    case (Inr d)
    obtain c2 where c2: "dc_ok c2" "validate_solution job \<lparr>sol_nonce = n, sol_hash = d\<rparr> c1 = Some (c2, nonce_wins job n)"
      using validate_solution_ok [OF c1(1), of job "\<lparr>sol_nonce = n, sol_hash = d\<rparr>"] Inr by auto
    then show ?thesis using c1 Inr by (intro exI [of _ c2]) simp
  qed
qed

text \<open>What a search over \<open>left\<close> nonces from \<open>n\<close> on reports: the least winning one with
  its digest, or that none wins.\<close>

definition least_win :: "pow_job \<Rightarrow> u64 \<Rightarrow> nat \<Rightarrow> pow_solution option \<Rightarrow> bool" where
  "least_win job n left r \<longleftrightarrow>
     (case r of
        None \<Rightarrow> \<forall>j. n \<le> j \<longrightarrow> unat j < unat n + left \<longrightarrow> \<not> nonce_wins job j
      | Some s \<Rightarrow> n \<le> sol_nonce s \<and> unat (sol_nonce s) < unat n + left
          \<and> nonce_wins job (sol_nonce s) \<and> job_digest job (sol_nonce s) = Inr (sol_hash s)
          \<and> (\<forall>j. n \<le> j \<longrightarrow> j < sol_nonce s \<longrightarrow> \<not> nonce_wins job j))"

lemma nonce_left:
  fixes n :: u64
  assumes "n \<noteq> - 1"
  shows "unat (n + 1) = unat n + 1" "2 ^ 64 - unat (n + 1) < 2 ^ 64 - unat n"
proof -
  have "unat (- 1 :: u64) = 2 ^ 64 - 1" by (simp add: unsigned_minus_1_eq_mask mask_eq_exp_minus_1)
  then have "unat n \<noteq> 2 ^ 64 - 1" using assms by (metis word_unat_eq_iff)
  then have l: "unat n + 1 < 2 ^ 64" using u64_le [of n] by linarith
  then show "unat (n + 1) = unat n + 1" by (simp add: unat_plus_small)
  then show "2 ^ 64 - unat (n + 1) < 2 ^ 64 - unat n" using l by linarith
qed

lemma next_nonce_le: "n \<noteq> - 1 \<Longrightarrow> (n :: u64) \<le> k \<longleftrightarrow> k = n \<or> n + 1 \<le> k"
  using nonce_left(1) [of n] by (auto simp: word_le_nat_alt word_unat_eq_iff)

lemma least_win_step:
  assumes n: "n \<noteq> - 1" and no: "\<not> nonce_wins job n" and q: "least_win job (n + 1) left r"
  shows "least_win job n (Suc left) r"
proof (cases r)
  case None
  then have later: "\<And>j. n + 1 \<le> j \<Longrightarrow> unat j < unat n + Suc left \<Longrightarrow> \<not> nonce_wins job j"
    using q nonce_left(1) [OF n] by (simp add: least_win_def)
  have "\<not> nonce_wins job j" if "n \<le> j" "unat j < unat n + Suc left" for j
    using that no later [of j] next_nonce_le [OF n, of j] by blast
  then show ?thesis using None by (simp add: least_win_def)
next
  case (Some s)
  then have s: "n + 1 \<le> sol_nonce s" "unat (sol_nonce s) < unat n + Suc left"
      "nonce_wins job (sol_nonce s)" "job_digest job (sol_nonce s) = Inr (sol_hash s)"
    and least: "\<And>j. n + 1 \<le> j \<Longrightarrow> j < sol_nonce s \<Longrightarrow> \<not> nonce_wins job j"
    using q nonce_left(1) [OF n] by (simp_all add: least_win_def)
  have "n \<le> sol_nonce s" using s(1) next_nonce_le [OF n] by blast
  moreover have "\<not> nonce_wins job j" if "n \<le> j" "j < sol_nonce s" for j
    using that no least [of j] next_nonce_le [OF n, of j] by blast
  ultimately show ?thesis using Some s by (simp add: least_win_def)
qed

text \<open>The search never panics and reports correctly when every nonce can be hashed.\<close>

lemma mine_from_spec:
  assumes "dc_ok c" "unat n + left < 2 ^ 64" "\<And>k. \<exists>d. job_digest job k = Inr d"
  shows "\<exists>c' r. mine_from job left n c = Some (c', r) \<and> dc_ok c' \<and> least_win job n left r"
  using assms(1,2)
proof (induction left arbitrary: n c)
  case 0
  then have "least_win job n 0 None" by (auto simp: least_win_def word_le_nat_alt)
  then show ?case using 0 by simp
next
  case (Suc left)
  obtain d where d: "job_digest job n = Inr d" using assms(3) by blast
  obtain c' where c': "dc_ok c'" "mine_from job (Suc left) n c =
    (if nonce_wins job n then Some (c', Some \<lparr>sol_nonce = n, sol_hash = d\<rparr>)
         else mine_from job left (n + 1) c')"
    using mine_from_Suc [OF Suc.prems(1), of job left n] unfolding d sum.case by blast
  show ?case
  proof (cases "nonce_wins job n")
    case True
    then have "least_win job n (Suc left) (Some \<lparr>sol_nonce = n, sol_hash = d\<rparr>)"
      using d by (auto simp: least_win_def)
    then show ?thesis using c' True by simp
  next
    case False
    have "unat (- 1 :: u64) = 2 ^ 64 - 1" by (simp add: unsigned_minus_1_eq_mask mask_eq_exp_minus_1)
    then have n: "n \<noteq> - 1" using Suc.prems(2) by auto
    then have "unat (n + 1) + left < 2 ^ 64" using Suc.prems(2) nonce_left(1) [OF n] by simp
    then obtain c'' r where "mine_from job left (n + 1) c' = Some (c'', r)" "dc_ok c''" "least_win job (n + 1) left r"
      using Suc.IH [OF c'(1)] by blast
    then show ?thesis using c' False least_win_step [OF n False] by auto
  qed
qed

end
