(* ===== verification/Mining_Job.thy ===== *)
theory Mining_Job
  imports VisionX_Miner Accept
begin

text \<open>
  \<open>miner/job.rs\<close>: the candidate block a miner works on and the test of one nonce. A panic
  (the epoch length is zero, or a dataset read out of range) is \<open>None\<close>. The lemmas connect the
  two sides of proof of work: what \<open>try_nonce\<close> finds is exactly what the validator accepts.
\<close>

definition job_decode_hash_32 :: "('db, 'x) ext_scheme \<Rightarrow> string \<Rightarrow> pow_error + u8 list" where
  "job_decode_hash_32 X s =
     (let s' = (case strip_prefix ''0x'' s of Some r \<Rightarrow> r | None \<Rightarrow> s)
      in case hex_decode X s' of
           None \<Rightarrow> Inl (InvalidHex ''parent_hash'')
         | Some bytes \<Rightarrow>
             (if length bytes \<noteq> 32 then Inl (WrongHashLength ''parent_hash'' (length bytes))
              else Inr bytes))"

record mining_job =
  header_template :: block_header
  target_difficulty :: u64
  job_epoch :: u64
  job_visionx_params :: visionx_params
  job_header_bytes :: "u8 list"
  job_id :: u64
  job_txs :: "tx list"

definition job_encode_header :: "('db, 'x) ext_scheme \<Rightarrow> block_header \<Rightarrow> u8 list" where
  "job_encode_header X h = canonical_bytes X h"

definition try_nonce ::
  "('db, 'x) ext_scheme \<Rightarrow> mining_job \<Rightarrow> u64 \<Rightarrow> dataset_cache \<Rightarrow> (dataset_cache \<times> block option) option" where
  "try_nonce X mj n c =
     (let hdr = (header_template mj)\<lparr>nonce := n, pow_hash := []\<rparr> in
      case job_decode_hash_32 X (parent_hash hdr) of
        Inl _ \<Rightarrow> Some (c, None)
      | Inr prev_hash32 \<Rightarrow>
         (let target = difficulty_to_target (target_difficulty mj) in
          case from_historical_header X (job_visionx_params mj) prev_hash32 (job_epoch mj) hdr
                 HISTORICAL_VPOW_NONCE_OFFSET target of
            Inl _ \<Rightarrow> Some (c, None)
          | Inr job \<Rightarrow>
             (case solution_for_nonce job n c of
                None \<Rightarrow> None
              | Some (c1, Inl _) \<Rightarrow> Some (c1, None)
              | Some (c1, Inr solution) \<Rightarrow>
                 (case verify_solution (job_visionx_params mj) job solution c1 of
                    None \<Rightarrow> None
                  | Some (c2, False) \<Rightarrow> Some (c2, None)
                  | Some (c2, True) \<Rightarrow>
                      Some (c2, Some \<lparr>header = hdr\<lparr>pow_hash := hex_encode X (sol_hash solution)\<rparr>,
                        txs = job_txs mj, weight = word_of_nat (length (job_txs mj))\<rparr>)))))"

definition coinbase_tx :: "u64 \<Rightarrow> tx" where
  "coinbase_tx height =
     \<lparr>tx_nonce = height, sender_pubkey = [], module = ''coinbase'', method_name = ''reward'',
      args = u64_to_be_bytes height, tip = 0, fee_limit = 0, sig = []\<rparr>"

definition build_candidate_with_params ::
  "('db, 'x) ext_scheme \<Rightarrow> block \<Rightarrow> u64 \<Rightarrow> string \<Rightarrow> tx list \<Rightarrow> block list \<Rightarrow> u64 \<Rightarrow> visionx_params
     \<Rightarrow> mining_job option" where
  "build_candidate_with_params X parent jid miner_addr extra_txs ancestor_window now_secs p =
     (let height = number (header parent) + 1;
          ts = coinbase_tx height # take (BLOCK_TARGET_TXS - 1) extra_txs;
          root = hex_encode X (blake3 X (concat (map (\<lambda>t. as_bytes (canonical_tx_id X t)) ts)));
          diff = calculate_next_difficulty ancestor_window now_secs;
          hdr = \<lparr>parent_hash = block_hash parent, number = height, timestamp = now_secs,
            difficulty = diff, nonce = 0, pow_hash = [], state_root = replicate 64 (CHR ''0''),
            tx_root = root, miner = miner_addr\<rparr>
      in case epoch_of p height of
           None \<Rightarrow> None
         | Some epoch \<Rightarrow> Some \<lparr>header_template = hdr, target_difficulty = diff, job_epoch = epoch,
             job_visionx_params = p, job_header_bytes = job_encode_header X hdr, job_id = jid,
             job_txs = ts\<rparr>)"

definition build_candidate ::
  "('db, 'x) ext_scheme \<Rightarrow> block \<Rightarrow> u64 \<Rightarrow> string \<Rightarrow> tx list \<Rightarrow> block list \<Rightarrow> u64 \<Rightarrow> mining_job option" where
  "build_candidate X parent jid miner_addr extra_txs ancestor_window now_secs =
     build_candidate_with_params X parent jid miner_addr extra_txs ancestor_window now_secs VISIONX_PARAMS"

section \<open>Miner and validator agree\<close>

lemma job_decode_visionx: "job_decode_hash_32 X s = visionx_decode_hash_32 X s"
  by (simp add: job_decode_hash_32_def visionx_decode_hash_32_def)

lemma vpow_preimage_length:
  "historical_vpow_message_bytes_with_nonce_zero X h = Inr bs \<Longrightarrow> 108 \<le> length bs"
  using vpow_message_length [of X "h\<lparr>nonce := 0\<rparr>" bs]
  by (simp add: historical_vpow_message_bytes_with_nonce_zero_def)

lemma vpow_preimage_frame:
  "historical_vpow_message_bytes_with_nonce_zero X (h\<lparr>nonce := n, pow_hash := w, state_root := r\<rparr>)
    = historical_vpow_message_bytes_with_nonce_zero X h"
  "historical_vpow_message_bytes_with_nonce_zero X (h\<lparr>nonce := n, pow_hash := w\<rparr>)
    = historical_vpow_message_bytes_with_nonce_zero X h"
  "historical_vpow_message_bytes_with_nonce_zero X (h\<lparr>pow_hash := w\<rparr>)
    = historical_vpow_message_bytes_with_nonce_zero X h"
  by (simp_all add: historical_vpow_message_bytes_with_nonce_zero_def historical_vpow_message_bytes_def
      Let_def split: sum.split)

text \<open>The block a nonce would give.\<close>

definition nonce_block :: "('db, 'x) ext_scheme \<Rightarrow> mining_job \<Rightarrow> u64 \<Rightarrow> u8 list \<Rightarrow> block" where
  "nonce_block X mj n d =
     \<lparr>header = (header_template mj)\<lparr>nonce := n, pow_hash := hex_encode X d\<rparr>,
      txs = job_txs mj, weight = word_of_nat (length (job_txs mj))\<rparr>"

definition job_standard :: "mining_job \<Rightarrow> bool" where
  "job_standard mj \<longleftrightarrow> job_visionx_params mj = VISIONX_PARAMS
     \<and> job_epoch mj = number (header_template mj) div 32
     \<and> target_difficulty mj = difficulty (header_template mj)"

lemma header_digest_frame:
  "header_digest X (h\<lparr>pow_hash := w\<rparr>) = header_digest X h"
  unfolding header_digest_def vpow_preimage_frame by (simp split: sum.split)

lemma try_nonce_ok:
  assumes c: "dc_ok c" and std: "job_standard mj"
  shows "\<exists>c'. dc_ok c' \<and> try_nonce X mj n c = Some (c',
    (case header_digest X ((header_template mj)\<lparr>nonce := n\<rparr>) of
       Inl _ \<Rightarrow> None
     | Inr d \<Rightarrow> if take 8 d \<le> take 8 (difficulty_to_target (target_difficulty mj))
         then Some (nonce_block X mj n d) else None))"
proof -
  let ?h = "(header_template mj)\<lparr>nonce := n, pow_hash := []\<rparr>"
  have digest: "header_digest X ((header_template mj)\<lparr>nonce := n\<rparr>) = header_digest X ?h"
    using header_digest_frame [of X "[]" "(header_template mj)\<lparr>nonce := n\<rparr>"] by simp
  show ?thesis
  proof (cases "visionx_decode_hash_32 X (parent_hash (header_template mj))")
    case (Inl e)
    then show ?thesis using c unfolding digest
      by (intro exI [of _ c]) (simp add: try_nonce_def job_decode_visionx header_digest_def Let_def)
  next
    case ph: (Inr ph)
    show ?thesis
    proof (cases "historical_vpow_message_bytes_with_nonce_zero X ?h")
      case (Inl e)
      then show ?thesis using c ph unfolding digest
        by (intro exI [of _ c])
          (simp add: try_nonce_def job_decode_visionx header_digest_def from_historical_header_def Let_def)
    next
      case pre: (Inr pre)
      define job where "job = \<lparr>pj_params = VISIONX_PARAMS, pj_prev_hash32 = ph, pj_epoch = job_epoch mj,
          pj_header_bytes = pre, pj_nonce_offset = HISTORICAL_VPOW_NONCE_OFFSET,
          pj_target = difficulty_to_target (target_difficulty mj), pj_historical_preimage = Some pre\<rparr>"
      have mk: "from_historical_header X (job_visionx_params mj) ph (job_epoch mj) ?h
          HISTORICAL_VPOW_NONCE_OFFSET (difficulty_to_target (target_difficulty mj)) = Inr job"
        using std pre by (simp add: from_historical_header_def job_def job_standard_def)
      obtain d where d: "pure_digest VISIONX_PARAMS ph (job_epoch mj) pre n = Some d"
        using pure_digest_Some by blast
      then have jd: "job_digest job n = Inr d"
        by (simp add: job_digest_def job_input_def job_def mining_input_bytes_def)
      have hd: "header_digest X ?h = Inr d"
        using ph pre d std by (simp add: header_digest_def job_standard_def)
      have "108 \<le> length pre" using pre by (rule vpow_preimage_length)
      then obtain hb where "header_with_nonce job n = Inr hb"
        by (simp add: header_with_nonce_def inject_nonce_def job_def HISTORICAL_VPOW_NONCE_OFFSET_def Let_def)
      then have wins: "nonce_wins job n \<longleftrightarrow> take 8 d \<le> take 8 (difficulty_to_target (target_difficulty mj))"
        by (simp add: nonce_wins_def jd) (simp add: job_def)
      obtain c1 where c1: "dc_ok c1" "solution_for_nonce job n c = Some (c1, Inr \<lparr>sol_nonce = n, sol_hash = d\<rparr>)"
        using solution_for_nonce_ok [OF c, of job n] jd by auto
      obtain c2 where c2: "dc_ok c2"
        "validate_solution job \<lparr>sol_nonce = n, sol_hash = d\<rparr> c1 = Some (c2, nonce_wins job n)"
        using validate_solution_ok [OF c1(1), of job "\<lparr>sol_nonce = n, sol_hash = d\<rparr>"] jd by auto
      have "verify_solution (job_visionx_params mj) job \<lparr>sol_nonce = n, sol_hash = d\<rparr> c1 = Some (c2, nonce_wins job n)"
        using std c2 by (simp add: verify_solution_def job_standard_def job_def)
      then show ?thesis
        using c2(1) c1 mk ph hd wins unfolding digest
        by (intro exI [of _ c2])
          (simp add: try_nonce_def job_decode_visionx Let_def nonce_block_def split: bool.split)
    qed
  qed
qed

end
