(* ===== verification/Miner_Manager.thy ===== *)
theory Miner_Manager
  imports Mining_Job Mempool
begin

text \<open>
  \<open>miner/manager.rs\<close> and the mining service of \<open>node/services.rs\<close>: the published job and
  its identifier, candidates for the canonical tip, the submission of a found block through the
  acceptance pipeline, the nonce search of a worker, and what a round does with the mempool.
  The job counter, a static of the code, is a field of the state. Whether a job is still current
  while a worker searches depends on the other tasks, so it is an arbitrary predicate.
\<close>

record miner_manager =
  current_job :: "mining_job option"
  last_built_epoch :: "u64 option"
  blocks_found :: u64
  start_time :: nat
  active_job_id :: u64
  mm_params :: visionx_params
  next_id :: u64

definition miner_manager_new :: "visionx_params \<Rightarrow> nat \<Rightarrow> u64 \<Rightarrow> miner_manager" where
  "miner_manager_new p now counter =
     \<lparr>current_job = None, last_built_epoch = None, blocks_found = 0, start_time = now,
      active_job_id = 0, mm_params = p, next_id = counter\<rparr>"

definition build_job :: "mining_job \<Rightarrow> miner_manager \<Rightarrow> miner_manager" where
  "build_job mj mm =
     (let needs_dataset_rebuild = (last_built_epoch mm \<noteq> Some (job_epoch mj));
          mm1 = (if needs_dataset_rebuild then mm\<lparr>last_built_epoch := Some (job_epoch mj)\<rparr> else mm)
      in mm1\<lparr>active_job_id := job_id mj, current_job := Some mj\<rparr>)"

definition clear_job :: "miner_manager \<Rightarrow> miner_manager" where
  "clear_job mm = mm\<lparr>active_job_id := 0, current_job := None\<rparr>"

definition is_current_job :: "miner_manager \<Rightarrow> u64 \<Rightarrow> bool" where
  "is_current_job mm jid = (active_job_id mm = jid)"

definition next_job_id :: "miner_manager \<Rightarrow> miner_manager \<times> u64" where
  "next_job_id mm = (mm\<lparr>next_id := next_id mm + 1\<rparr>, next_id mm)"

definition is_mining :: "miner_manager \<Rightarrow> bool" where
  "is_mining mm = (current_job mm \<noteq> None)"

definition mining_stats :: "miner_manager \<Rightarrow> u64 \<times> nat" where
  "mining_stats mm = (blocks_found mm, start_time mm)"

definition record_block_found :: "miner_manager \<Rightarrow> miner_manager" where
  "record_block_found mm = mm\<lparr>blocks_found := blocks_found mm + 1\<rparr>"

definition submit_solution ::
  "('db, 'x) ext_scheme \<Rightarrow> block \<Rightarrow> 'db machine \<Rightarrow> miner_manager
     \<Rightarrow> ('db machine \<times> miner_manager \<times> accept_result) outcome" where
  "submit_solution X blk g mm =
     (case apply_block X blk None g of
        Panic \<Rightarrow> Panic
      | OutOfFuel \<Rightarrow> OutOfFuel
      | Ret (g', CanonExtension h) \<Rightarrow>
          Ret (refresh_cached_state_root_from_tip g', record_block_found mm, CanonExtension h)
      | Ret (g', r) \<Rightarrow> Ret (g', mm, r))"

text \<open>The last \<open>RETARGET_WINDOW + 1\<close> canonical blocks.\<close>

definition tip_window :: "('db, 'm) chain_state_scheme \<Rightarrow> block list" where
  "tip_window g = rev (take (unat (RETARGET_WINDOW + 1)) (rev (blocks g)))"

definition build_candidate_for_tip ::
  "('db, 'x) ext_scheme \<Rightarrow> string \<Rightarrow> tx list \<Rightarrow> 'db machine \<Rightarrow> miner_manager
     \<Rightarrow> ('db machine \<times> miner_manager \<times> mining_job option) outcome" where
  "build_candidate_for_tip X miner_addr mempool_txs g mm =
     (if blocks g = [] then Ret (g, mm, None)
      else
        let parent = last (blocks g);
            (g1, clk) = wall_clock_secs g;
            now = max clk (timestamp (header parent) + 1);
            (mm1, jid) = next_job_id mm
        in case build_candidate_with_params X parent jid miner_addr mempool_txs (tip_window g) now (mm_params mm) of
             None \<Rightarrow> Panic
           | Some mj \<Rightarrow>
               (case run_all (simulate_tx_execution X) 1 (account_state g) (drop 1 (job_txs mj)) of
                  (_, Inl _) \<Rightarrow> Ret (g1, mm1, None)
                | (s1, Inr _) \<Rightarrow>
                    (case apply_coinbase_reward s1 miner_addr (number (header parent) + 1) of
                       (_, Inl _) \<Rightarrow> Ret (g1, mm1, None)
                     | (s2, Inr _) \<Rightarrow>
                         (case compute_state_root X (es_balances s2) (es_nonces s2) of
                            Inl _ \<Rightarrow> Ret (g1, mm1, None)
                          | Inr root \<Rightarrow>
                              let hdr = (header_template mj)\<lparr>state_root := root\<rparr>
                              in Ret (g1, mm1, Some (mj\<lparr>header_template := hdr,
                                   job_header_bytes := job_encode_header X hdr\<rparr>))))))"

section \<open>The mining service\<close>

text \<open>A worker tries nonces from \<open>n\<close> on until one wins, the job is stale or the last nonce
  has been tried.\<close>

function (sequential) mine_search ::
  "('db, 'x) ext_scheme \<Rightarrow> mining_job \<Rightarrow> (u64 \<Rightarrow> bool) \<Rightarrow> u64 \<Rightarrow> dataset_cache
     \<Rightarrow> (dataset_cache \<times> block option) option" where
  "mine_search X mj current n c =
     (if \<not> current n then Some (c, None)
      else (case try_nonce X mj n c of
          None \<Rightarrow> None
        | Some (c', Some blk) \<Rightarrow> Some (c', Some blk)
        | Some (c', None) \<Rightarrow>
            if n = - 1 then Some (c', None) else mine_search X mj current (n + 1) c'))"
  by pat_completeness auto
termination
  by (relation "measure (\<lambda>(X, mj, current, n, c). 2 ^ 64 - unat n)") (auto dest: nonce_left)

declare mine_search.simps [simp del]

datatype round_start = RoundPaused | RoundNoCandidate | RoundJob mining_job

text \<open>The first half of a round: pause, or publish a job on the pool's oldest transactions.\<close>

definition mining_round_start ::
  "('db, 'x) ext_scheme \<Rightarrow> string \<Rightarrow> nat \<Rightarrow> bool \<Rightarrow> pool \<Rightarrow> 'db machine \<Rightarrow> miner_manager
     \<Rightarrow> ('db machine \<times> miner_manager \<times> round_start) outcome" where
  "mining_round_start X miner_addr connected recovery_pauses p g mm =
     (if connected < MIN_PEERS_FOR_MINING then Ret (g, clear_job mm, RoundPaused)
      else if recovery_pauses then Ret (g, clear_job mm, RoundPaused)
      else (case build_candidate_for_tip X miner_addr (select_for_block p BLOCK_TARGET_TXS) g mm of
          Panic \<Rightarrow> Panic
        | OutOfFuel \<Rightarrow> OutOfFuel
        | Ret (g1, mm1, None) \<Rightarrow> Ret (g1, mm1, RoundNoCandidate)
        | Ret (g1, mm1, Some mj) \<Rightarrow> Ret (g1, build_job mj mm1, RoundJob mj)))"

text \<open>The second half: submit what the worker found and settle the pool.\<close>

definition mining_round_finish ::
  "('db, 'x) ext_scheme \<Rightarrow> block \<Rightarrow> pool \<Rightarrow> 'db machine \<Rightarrow> miner_manager
     \<Rightarrow> ('db machine \<times> miner_manager \<times> pool \<times> accept_result) outcome" where
  "mining_round_finish X blk p g mm =
     (let confirmed_tx_ids = map (canonical_tx_id X) (txs blk) in
      case submit_solution X blk g mm of
        Panic \<Rightarrow> Panic
      | OutOfFuel \<Rightarrow> OutOfFuel
      | Ret (g1, mm1, CanonExtension h) \<Rightarrow>
          (let p1 = remove_confirmed confirmed_tx_ids p;
               g2 = g1\<lparr>pending_reorg_recovery := None\<rparr>
           in case pending_reorg_recovery g1 of
                None \<Rightarrow> Ret (g1, mm1, p1, CanonExtension h)
              | Some recovery \<Rightarrow>
                  Ret (g2, mm1, fst (requeue_after_reorg X g2 recovery p1), CanonExtension h))
      | Ret (g1, mm1, r) \<Rightarrow> Ret (g1, mm1, p, r))"

end
