(* ===== verification/Mining.thy ===== *)
theory Mining
  imports Miner_Manager Chain_Props
begin

text \<open>
  What mining and acceptance share: the difficulty window of a candidate for the tip is the window
  the validator collects, and a block found for a candidate passes every check of the validator.
\<close>

section \<open>The window\<close>

definition zero_text :: "string \<Rightarrow> bool" where
  "zero_text h = list_all (\<lambda>c. c = CHR ''0'') h"

lemma ancestors_of_canonical:
  assumes inv: "chain_inv X ht m" and nz: "\<forall>b\<in>set (blocks m). \<not> zero_text (block_hash b)"
  shows "i < length (blocks m) \<Longrightarrow>
    collect_ancestors m k (block_hash (blocks m ! i)) = take k (rev (take (Suc i) (blocks m)))"
proof (induction k arbitrary: i)
  case 0
  then show ?case by simp
next
  case (Suc k)
  have lk: "linked (blocks m)" and ix: "index_ok m" using inv by (auto simp: chain_inv_def)
  have res: "resolve_block m (block_hash (blocks m ! i)) = Some (blocks m ! i)"
    using known_canonical [OF nth_mem [OF Suc.prems] ix] by (simp add: resolve_known [OF inv])
  show ?case
  proof (cases i)
    case 0
    have "blocks m ! 0 = genesis_block" using lk by (metis linked_def hd_conv_nth)
    then have "list_all (\<lambda>c. c = CHR ''0'') (parent_hash (header (blocks m ! 0)))"
      by (simp add: null_hash_def list_all_iff)
    then show ?thesis using res Suc.prems 0 by (simp add: take_Suc_conv_app_nth)
  next
    case (Suc j)
    have p: "parent_hash (header (blocks m ! i)) = block_hash (blocks m ! j)"
      using lk Suc.prems Suc by (simp add: linked_def)
    have "\<not> list_all (\<lambda>c. c = CHR ''0'') (parent_hash (header (blocks m ! i)))"
      using nz Suc.prems Suc unfolding p zero_text_def by (metis Suc_lessD nth_mem)
    then have "collect_ancestors m (Suc k) (block_hash (blocks m ! i))
        = blocks m ! i # collect_ancestors m k (block_hash (blocks m ! j))"
      using res p by (simp add: Let_def)
    also have "\<dots> = blocks m ! i # take k (rev (take (Suc j) (blocks m)))"
      using Suc.IH [of j] Suc.prems Suc by simp
    also have "\<dots> = take (Suc k) (rev (take (Suc i) (blocks m)))"
      using Suc.prems Suc by (subst take_Suc_conv_app_nth [of i]) simp_all
    finally show ?thesis .
  qed
qed

text \<open>Miner and validator compute the difficulty of the next block from the same window.\<close>

lemma tip_window_collected:
  assumes inv: "chain_inv X ht m" and nz: "\<forall>b\<in>set (blocks m). \<not> zero_text (block_hash b)"
  shows "collect_ancestor_window m (tip_hash m) = tip_window m"
proof -
  have ne: "blocks m \<noteq> []" using inv by (simp add: chain_inv_def linked_def)
  then have t: "tip_hash m = block_hash (blocks m ! (length (blocks m) - 1))"
    by (simp add: tip_hash_def last_conv_nth)
  have "collect_ancestors m k (tip_hash m) = take k (rev (blocks m))" for k
    unfolding t using ancestors_of_canonical [OF inv nz, of "length (blocks m) - 1" k] ne by simp
  then show ?thesis
    by (simp only: collect_ancestor_window_def tip_window_def) (simp add: RETARGET_WINDOW_def)
qed

section \<open>Candidates for the tip\<close>

lemma candidate_fields:
  assumes "build_candidate_with_params X parent jid a ts w now p = Some mj"
  shows "header_template mj = \<lparr>parent_hash = block_hash parent, number = number (header parent) + 1,
      timestamp = now, difficulty = calculate_next_difficulty w now, nonce = 0, pow_hash = [],
      state_root = replicate 64 (CHR ''0''), tx_root = compute_tx_root X (job_txs mj), miner = a\<rparr>
    \<and> target_difficulty mj = calculate_next_difficulty w now \<and> job_visionx_params mj = p
    \<and> epoch_of p (number (header parent) + 1) = Some (job_epoch mj)
    \<and> job_txs mj = coinbase_tx (number (header parent) + 1) # take (BLOCK_TARGET_TXS - 1) ts
    \<and> job_id mj = jid"
  using assms
  by (auto simp: build_candidate_with_params_def compute_tx_root_def Let_def split: option.splits)

lemma candidate_for_tipE:
  assumes "build_candidate_for_tip X a ts m mm = Ret (m1, mm1, Some mj)"
  obtains now s1 rs s2 root mj0 where "blocks m \<noteq> []" "m1 = m\<lparr>ticks := ticks m + 1\<rparr>"
    "now = max (clock m (ticks m)) (timestamp (header (last (blocks m))) + 1)"
    "build_candidate_with_params X (last (blocks m)) (next_id mm) a ts (tip_window m) now (mm_params mm) = Some mj0"
    "run_all (simulate_tx_execution X) 1 (account_state m) (drop 1 (job_txs mj0)) = (s1, Inr rs)"
    "apply_coinbase_reward s1 a (number (header (last (blocks m))) + 1) = (s2, Inr ())"
    "compute_state_root X (es_balances s2) (es_nonces s2) = Inr root"
    "mj = mj0\<lparr>header_template := (header_template mj0)\<lparr>state_root := root\<rparr>,
       job_header_bytes := job_encode_header X ((header_template mj0)\<lparr>state_root := root\<rparr>)\<rparr>"
  using assms
  by (auto simp: build_candidate_for_tip_def Let_def wall_clock_secs_def next_job_id_def
      split: if_splits option.splits prod.splits sum.splits)

lemma job_txs_update [simp]:
  "job_txs (mj\<lparr>header_template := h, job_header_bytes := b\<rparr>) = job_txs mj"
  by simp

lemma first_duplicate_None:
  "distinct (map (canonical_tx_id X) ts) \<Longrightarrow> set (map (canonical_tx_id X) ts) \<inter> set seen = {} \<Longrightarrow>
     first_duplicate_tx X seen ts = None"
  by (induction X seen ts rule: first_duplicate_tx.induct) (auto simp: Let_def)

text \<open>The block of a winning nonce for a candidate passes every check but the two that look at the
  outside world: whether the hash has been seen, and the clock.\<close>

lemma mined_block_passes:
  assumes inv: "chain_inv X ht m" and nz: "\<forall>b\<in>set (blocks m). \<not> zero_text (block_hash b)"
    and build: "build_candidate_for_tip X a ts m mm = Ret (m1, mm1, Some mj)"
    and ts: "distinct (map (canonical_tx_id X) (job_txs mj))"
    and time: "timestamp (header (last (blocks m))) \<noteq> - 1"
    and pos: "target_difficulty mj \<noteq> 0"
  shows "structural_check X m (nonce_block X mj n d)
      = (if block_hash (nonce_block X mj n d) \<in> seen_blocks m
         then Some (DuplicateBlock (block_hash (nonce_block X mj n d))) else None)
    \<and> (block_hash (nonce_block X mj n d) \<notin> seen_blocks m \<longrightarrow> (\<exists>s. passed X (nonce_block X mj n d) m s))
    \<and> parent_hash (header (nonce_block X mj n d)) = tip_hash m"
  using build
proof (rule candidate_for_tipE)
  fix now s1 rs s2 root mj0
  let ?b = "nonce_block X mj n d" and ?t = "last (blocks m)"
  assume ne: "blocks m \<noteq> []"
    and now: "now = max (clock m (ticks m)) (timestamp (header ?t) + 1)"
    and mj0: "build_candidate_with_params X ?t (next_id mm) a ts (tip_window m) now (mm_params mm) = Some mj0"
    and run: "run_all (simulate_tx_execution X) 1 (account_state m) (drop 1 (job_txs mj0)) = (s1, Inr rs)"
    and cb: "apply_coinbase_reward s1 a (number (header ?t) + 1) = (s2, Inr ())"
    and root: "compute_state_root X (es_balances s2) (es_nonces s2) = Inr root"
    and mj: "mj = mj0\<lparr>header_template := (header_template mj0)\<lparr>state_root := root\<rparr>,
       job_header_bytes := job_encode_header X ((header_template mj0)\<lparr>state_root := root\<rparr>)\<rparr>"
  note f = candidate_fields [OF mj0]
  have txs: "txs ?b = job_txs mj0" by (simp add: nonce_block_def mj)
  have hdr: "header ?b = (header_template mj0)\<lparr>state_root := root, nonce := n, pow_hash := hex_encode X d\<rparr>"
    by (simp add: nonce_block_def mj)
  have jt: "job_txs mj0 = coinbase_tx (number (header ?t) + 1) # take (BLOCK_TARGET_TXS - 1) ts" using f by simp
  have tip: "parent_hash (header ?b) = tip_hash m" using ne f by (simp add: hdr tip_hash_def)
  have honest: "honest ht ?t" using chain_inv_honest [OF inv] ne by simp
  then have small: "unat (number (header ?t)) < 2 ^ 64 - 1" by (simp add: honest_def)
  then have "unat (number (header ?t)) + unat (1 :: u64) < 2 ^ LENGTH(64)" by simp
  then have up: "unat (number (header ?t) + 1) = unat (number (header ?t)) + 1" by (simp add: unat_plus_small)
  have num: "number (header ?b) = number (header ?t) + 1" using f by (simp add: hdr)
  have n0: "number (header ?b) \<noteq> 0" using up by (auto simp: num word_unat_eq_iff)
  have len: "length (job_txs mj0) \<le> 200" using jt by (simp add: BLOCK_TARGET_TXS_def)
  have w: "unat (weight ?b) = length (job_txs mj0)"
    using len by (simp add: nonce_block_def mj unat_of_nat)
  have "weight ?b \<le> BLOCK_WEIGHT_LIMIT"
    using len unfolding word_le_nat_alt w BLOCK_WEIGHT_LIMIT_def by simp
  then have st: "structural_check X m ?b
      = (if block_hash ?b \<in> seen_blocks m then Some (DuplicateBlock (block_hash ?b)) else None)"
    using n0 f by (simp add: structural_check_def Let_def txs hdr jt coinbase_tx_def not_less)
  have res: "resolve_block m (tip_hash m) = Some ?t"
    using known_canonical [of ?t m] ne inv
    by (simp add: resolve_known [OF inv] tip_hash_def chain_inv_def)
  have "timestamp (header ?t) < timestamp (header ?t) + 1"
    using nonce_left(1) [OF time] by (simp add: word_less_nat_alt)
  then have later: "timestamp (header ?t) < timestamp (header ?b)"
    using f by (simp add: hdr now less_max_iff_disj)
  have diff: "difficulty (header ?b) = calculate_next_difficulty (tip_window m) (timestamp (header ?b))"
    using f by (simp add: hdr)
  have "target_difficulty mj = difficulty (header ?b)" using f hdr by (simp add: mj nonce_block_def)
  then have "difficulty (header ?b) \<noteq> 0" using pos by simp
  then have "\<not> difficulty (header ?b) < DIFFICULTY_FLOOR"
    by (auto simp: DIFFICULTY_FLOOR_def word_less_nat_alt word_unat_eq_iff)
  then have cd: "check_difficulty m ?b = None"
    using diff tip_window_collected [OF inv nz] unfolding check_difficulty_def tip by (simp add: Let_def)
  have cc: "check_coinbase_height ?b = None"
    using num by (simp add: check_coinbase_height_def txs jt coinbase_tx_def)
  have fd: "first_duplicate_tx X [] (txs ?b) = None"
    unfolding txs using ts by (intro first_duplicate_None) (simp_all add: mj)
  have "execute_candidate X (account_state m) ?b = Inr s2"
    using run cb root n0 f by (simp add: execute_candidate_def txs hdr)
  then have ps: "parent_state X m ?b = Ret (Inr (account_state m))
      \<and> execute_candidate X (account_state m) ?b = Inr s2"
    using tip by (simp add: parent_state_def)
  have "passed X ?b m s2" if "block_hash ?b \<notin> seen_blocks m"
    unfolding passed_def using that st n0 res later cd cc fd ps tip by auto
  then show ?thesis using st tip by blast
qed

section \<open>Winning nonces\<close>

definition winning :: "('db, 'x) ext_scheme \<Rightarrow> mining_job \<Rightarrow> u64 \<Rightarrow> u8 list \<Rightarrow> bool" where
  "winning X mj n d \<longleftrightarrow> header_digest X ((header_template mj)\<lparr>nonce := n\<rparr>) = Inr d
     \<and> take 8 d \<le> take 8 (difficulty_to_target (target_difficulty mj))"

lemma try_nonce_winning:
  assumes "dc_ok c" "job_standard mj"
  shows "\<exists>c' r. try_nonce X mj n c = Some (c', r) \<and> dc_ok c'
    \<and> (\<forall>b. r = Some b \<longleftrightarrow> (\<exists>d. winning X mj n d \<and> b = nonce_block X mj n d))"
  using try_nonce_ok [OF assms, of X n]
  by (cases "header_digest X ((header_template mj)\<lparr>nonce := n\<rparr>)") (auto simp: winning_def)

lemma nonce_block_digest:
  "header_digest X (header (nonce_block X mj n d)) = header_digest X ((header_template mj)\<lparr>nonce := n\<rparr>)"
  using header_digest_frame [of X "hex_encode X d" "(header_template mj)\<lparr>nonce := n\<rparr>"]
  by (simp add: nonce_block_def)

lemma winning_verdict:
  "job_standard mj \<Longrightarrow> winning X mj n d \<Longrightarrow> pow_verdict X (nonce_block X mj n d) = Inr ()"
  by (simp add: pow_verdict_def nonce_block_digest winning_def not_less)
    (simp add: nonce_block_def job_standard_def not_less)

lemma verdict_winning:
  assumes std: "job_standard mj" and v: "pow_verdict X b = Inr ()"
    and b: "b = \<lparr>header = (header_template mj)\<lparr>nonce := n, pow_hash := w\<rparr>, txs = job_txs mj,
      weight = word_of_nat (length (job_txs mj))\<rparr>"
  shows "\<exists>d. winning X mj n d \<and> b = nonce_block X mj n d"
proof -
  have frame: "header_digest X (header b) = header_digest X ((header_template mj)\<lparr>nonce := n\<rparr>)"
    using header_digest_frame [of X w "(header_template mj)\<lparr>nonce := n\<rparr>"] by (simp add: b)
  obtain d where d: "header_digest X (header b) = Inr d"
    "\<not> take 8 d > take 8 (difficulty_to_target (difficulty (header b)))" "block_hash b = hex_encode X d"
    using v by (auto simp: pow_verdict_def split: sum.splits if_splits)
  then have "winning X mj n d" using std frame by (simp add: winning_def b job_standard_def not_less)
  moreover have "b = nonce_block X mj n d" using d(3) by (simp add: b nonce_block_def)
  ultimately show ?thesis by blast
qed

text \<open>What a search returns, whatever becomes of the job meanwhile.\<close>

definition search_result ::
  "('db, 'x) ext_scheme \<Rightarrow> mining_job \<Rightarrow> (u64 \<Rightarrow> bool) \<Rightarrow> u64 \<Rightarrow> block option \<Rightarrow> bool" where
  "search_result X mj current n r \<longleftrightarrow>
     (case r of
        Some b \<Rightarrow> \<exists>k d. n \<le> k \<and> winning X mj k d \<and> b = nonce_block X mj k d
          \<and> (\<forall>j. n \<le> j \<longrightarrow> j < k \<longrightarrow> (\<forall>e. \<not> winning X mj j e))
      | None \<Rightarrow> (\<forall>j. current j) \<longrightarrow> (\<forall>k d. n \<le> k \<longrightarrow> \<not> winning X mj k d))"

lemma search_result_found:
  "winning X mj n d \<Longrightarrow> search_result X mj current n (Some (nonce_block X mj n d))"
  unfolding search_result_def option.case by (intro exI [of _ n] exI [of _ d]) auto

lemma search_result_step:
  assumes n: "n \<noteq> - 1" and no: "\<And>d. \<not> winning X mj n d"
    and q: "search_result X mj current (n + 1) q"
  shows "search_result X mj current n q"
proof (cases q)
  case None
  have "\<not> winning X mj k d" if cur: "\<forall>j. current j" and k: "n \<le> k" for k d
  proof (cases "k = n")
    case True
    then show ?thesis using no by simp
  next
    case False
    then have "n + 1 \<le> k" using k next_nonce_le [OF n] by blast
    then show ?thesis using q cur None by (simp add: search_result_def)
  qed
  then show ?thesis using None by (simp add: search_result_def)
next
  case (Some b)
  then obtain k d where k: "n + 1 \<le> k" "winning X mj k d" "b = nonce_block X mj k d"
    and least: "\<And>j e. n + 1 \<le> j \<Longrightarrow> j < k \<Longrightarrow> \<not> winning X mj j e"
    using q by (auto simp: search_result_def)
  have "n \<le> k" using k(1) next_nonce_le [OF n] by blast
  moreover have "\<not> winning X mj j e" if j: "n \<le> j" "j < k" for j e
    using j no least next_nonce_le [OF n, of j] by blast
  ultimately show ?thesis using k(2,3) Some unfolding search_result_def by auto
qed

lemma mine_search_spec:
  assumes "dc_ok c" "job_standard mj"
  shows "\<exists>c' r. mine_search X mj current n c = Some (c', r) \<and> dc_ok c' \<and> search_result X mj current n r"
  using assms
proof (induction X mj current n c rule: mine_search.induct)
  case (1 X mj current n c)
  obtain c1 r where t: "try_nonce X mj n c = Some (c1, r)" "dc_ok c1"
    and r: "\<forall>b. r = Some b \<longleftrightarrow> (\<exists>d. winning X mj n d \<and> b = nonce_block X mj n d)"
    using try_nonce_winning [OF 1(2,3), of X n] by blast
  have eq: "mine_search X mj current n c = (if \<not> current n then Some (c, None)
      else case r of Some b \<Rightarrow> Some (c1, Some b)
        | None \<Rightarrow> if n = - 1 then Some (c1, None) else mine_search X mj current (n + 1) c1)"
    by (subst mine_search.simps) (simp add: t split: option.split)
  show ?case
  proof (cases "current n")
    case False
    then have "search_result X mj current n None" by (auto simp: search_result_def)
    then show ?thesis using 1(2) False eq by simp
  next
    case cur: True
    show ?thesis
    proof (cases r)
      case (Some b)
      then obtain d where "winning X mj n d" "b = nonce_block X mj n d" using r by blast
      then have "search_result X mj current n (Some b)" by (simp add: search_result_found)
      then show ?thesis using t(2) Some cur eq by simp
    next
      case None
      then have no: "\<And>d. \<not> winning X mj n d" using r by blast
      show ?thesis
      proof (cases "n = - 1")
        case True
        have "k = n" if "n \<le> k" for k using that True by (simp add: word_order.extremum_unique)
        then have "search_result X mj current n None" using no by (auto simp: search_result_def)
        then show ?thesis using t(2) None True cur eq by simp
      next
        case False
        obtain c' q where q: "mine_search X mj current (n + 1) c1 = Some (c', q)" "dc_ok c'"
          "search_result X mj current (n + 1) q"
          using 1(1) [OF _ t(1) _ None] cur False t(2) 1(3) by auto
        then show ?thesis using search_result_step [OF False no] None False cur eq by auto
      qed
    qed
  qed
qed

section \<open>Submission\<close>

lemma candidate_standard:
  assumes "build_candidate_for_tip X a ts m mm = Ret (m1, mm1, Some mj)" "mm_params mm = VISIONX_PARAMS"
  shows "job_standard mj"
  using assms(1)
proof (rule candidate_for_tipE)
  fix now mj0 root
  assume mj0: "build_candidate_with_params X (last (blocks m)) (next_id mm) a ts (tip_window m) now (mm_params mm) = Some mj0"
    and mj: "mj = mj0\<lparr>header_template := (header_template mj0)\<lparr>state_root := root\<rparr>,
       job_header_bytes := job_encode_header X ((header_template mj0)\<lparr>state_root := root\<rparr>)\<rparr>"
  show "job_standard mj"
    using candidate_fields [OF mj0] assms(2) VISIONX_epoch [of "number (header (last (blocks m))) + 1"]
    by (auto simp: mj job_standard_def)
qed

lemma apply_block_accepts_tip:
  assumes inv: "chain_inv X ht m" and h: "honest ht blk" and pass: "passed X blk m s"
    and pow: "pow_verdict X blk = Inr ()" and tip: "parent_hash (header blk) = tip_hash m"
    and store: "store_accepts X" and clk: "timestamp (header blk) \<le> clock m (ticks m) + MAX_FUTURE_TIMESTAMP_SECS"
  shows "\<exists>m'. apply_block X blk src m = Ret (m', CanonExtension (number (header blk)))"
proof -
  have dc: "dc_ok (ds_cache m)" using inv by (simp add: chain_inv_def base_ok_def)
  have ne: "blocks m \<noteq> []" using inv by (simp add: chain_inv_def linked_def)
  then have "block_index (blocks m) (tip_hash m) \<noteq> None"
    unfolding block_index_None by (simp add: tip_hash_def)
  then have known: "canon_index m (parent_hash (header blk)) \<noteq> None"
    using inv by (simp add: tip chain_inv_def index_ok_def height_index_block_index)
  obtain m1 where c: "apply_core X blk src m = Ret (m1, Promote (CanonExtension (number (header blk))))"
    using apply_core_accepts_tip [OF pass pow dc tip store clk known] by blast
  obtain m' r where r: "apply_block X blk src m = Ret (m', r)"
    using chain.apply_block_returns [OF inv h] by blast
  then have "r = CanonExtension (number (header blk))"
    using c by (auto simp: apply_block_def split: outcome.splits prod.splits)
  then show ?thesis using r by blast
qed

lemma apply_block_duplicate:
  assumes "structural_check X m blk = Some r"
  shows "\<exists>m'. apply_block X blk src m = Ret (m', Rejected r)"
proof -
  have "same_chain m (clear_pow_prevalidation (block_hash blk) m)" by simp
  then have "structural_check X (clear_pow_prevalidation (block_hash blk) m) blk = Some r"
    using assms same_chain_checks(1) by metis
  then show ?thesis by (simp add: apply_block_def apply_core_def Let_def)
qed

end
