(* ===== verification/Mining_Props.thy ===== *)
theory Mining_Props
  imports Mining Mempool_Props
begin

text \<open>
  The guarantees of mining: what the search finds and that it finds it, that the validator agrees
  with the miner, that a block built on the tip is accepted, and how one pooled transaction with a
  nonce gap keeps the node from building any block.
\<close>

section \<open>Example jobs\<close>

lemma header_digest_Inr:
  assumes "is_lowercase_hex_32_bytes (parent_hash h)" "is_lowercase_hex_32_bytes (tx_root h)"
  shows "\<exists>d. header_digest ref_ext h = Inr d \<and> length d = 32"
proof -
  obtain ph a b where "visionx_decode_hash_32 ref_ext (parent_hash h) = Inr ph"
    "vpow_decode_hash_32 ref_ext ''parent_hash'' (parent_hash h) = Inr a"
    "vpow_decode_hash_32 ref_ext ''tx_root'' (tx_root h) = Inr b"
    using decode_hash_lower [OF ref_hex_laws] assms by meson
  then have "\<exists>d. header_digest ref_ext h = Inr d"
    by (simp add: header_digest_def historical_vpow_message_bytes_with_nonce_zero_def
        historical_vpow_message_bytes_def Let_def)
  then show ?thesis using header_digest_length by blast
qed

lemma difficulty_one: "length d = 32 \<Longrightarrow> take 8 d \<le> take 8 (difficulty_to_target 1)"
proof -
  assume l: "length d = 32"
  have "nat_le (rev (take 8 d)) < 256 ^ length (rev (take 8 d))" by (rule nat_le_less)
  then have "upper64 d < 2 ^ 64" using l by (simp add: upper64_def)
  then show ?thesis using l by (simp only: meets_target_iff) simp
qed

definition demo_job :: "u64 \<Rightarrow> mining_job" where
  "demo_job n = \<lparr>header_template = demo_header n null_hash, target_difficulty = 1, job_epoch = n div 32,
     job_visionx_params = VISIONX_PARAMS, job_header_bytes = [], job_id = 1, job_txs = [demo_coinbase n]\<rparr>"

lemma demo_job_standard: "job_standard (demo_job n)"
  by (simp add: job_standard_def demo_job_def demo_header_def)

lemma demo_job_wins: "\<exists>d. winning ref_ext (demo_job n) k d"
proof -
  have "is_lowercase_hex_32_bytes (compute_tx_root ref_ext [demo_coinbase n])"
    by (simp add: compute_tx_root_def hash_text_lower)
  then obtain d where "header_digest ref_ext ((demo_header n null_hash)\<lparr>nonce := k\<rparr>) = Inr d" "length d = 32"
    using header_digest_Inr [of "(demo_header n null_hash)\<lparr>nonce := k\<rparr>"] GENESIS_HASH_lower
    by (auto simp: demo_header_def)
  then show ?thesis using difficulty_one [of d] by (auto simp: winning_def demo_job_def)
qed

text \<open>The candidate for the first block after genesis.\<close>

definition demo_manager :: miner_manager where
  "demo_manager = miner_manager_new VISIONX_PARAMS 0 1"

lemma demo_candidate:
  "\<exists>m1 mm1 mj. build_candidate_for_tip ref_ext (demo_addr (CHR ''a'')) [] demo_state demo_manager
     = Ret (m1, mm1, Some mj)"
proof -
  have acc: "account_state demo_state = tx_execution_state_new"
    by (simp add: demo_state_def genesis_machine_def push_canonical_def account_state_def
        tx_execution_state_new_def start_machine_def empty_chain_def chain_state.extend_def machine.fields_def)
  have cb: "apply_coinbase_reward tx_execution_state_new (demo_addr (CHR ''a'')) 1 = (demo_after 1, Inr ())"
    using demo_addr_lower
    by (simp add: apply_coinbase_reward_def is_lowercase_hex_32_bytes_def tx_execution_state_new_def
        es_balance_of_def checked_add_def demo_after_def)
  show ?thesis
    using cb demo_root_ok [of 1]
    by (simp add: build_candidate_for_tip_def build_candidate_with_params_def Let_def wall_clock_secs_def
        next_job_id_def demo_manager_def miner_manager_new_def VISIONX_epoch acc)
qed

lemma demo_ht_hash: "length h = 64 \<Longrightarrow> h \<noteq> GENESIS_HASH \<Longrightarrow> demo_ht h = 1"
  by (auto simp: demo_ht_def)

section \<open>Properties\<close>

text \<open>C22: miner and validator agree on every nonce. With good dataset caches and a job of the
  production parameters, trying a nonce never panics, and it returns a block exactly when that
  block is the template with this nonce and some claimed hash that the validator's proof-of-work
  check accepts.\<close>

theorem try_nonce_agrees_with_validator:
  assumes "dc_ok c" "job_standard mj" "dc_ok (ds_cache m)"
  shows "\<exists>c' r. try_nonce X mj n c = Some (c', r) \<and>
    (\<forall>b. r = Some b \<longleftrightarrow>
      (\<exists>w. b = \<lparr>header = (header_template mj)\<lparr>nonce := n, pow_hash := w\<rparr>, txs = job_txs mj,
          weight = word_of_nat (length (job_txs mj))\<rparr>) \<and>
      (\<exists>m'. verify_visionx_pow X b m = Some (m', Inr ())))"
proof -
  have v: "(\<exists>m'. verify_visionx_pow X b m = Some (m', Inr ())) \<longleftrightarrow> pow_verdict X b = Inr ()" for b
    using verify_visionx_pow_ok [OF assms(3), of X b] by auto
  obtain c' r where t: "try_nonce X mj n c = Some (c', r)"
    and r: "\<forall>b. r = Some b \<longleftrightarrow> (\<exists>d. winning X mj n d \<and> b = nonce_block X mj n d)"
    using try_nonce_winning [OF assms(1,2)] by blast
  have "(\<exists>d. winning X mj n d \<and> b = nonce_block X mj n d) \<longleftrightarrow>
      (\<exists>w. b = \<lparr>header = (header_template mj)\<lparr>nonce := n, pow_hash := w\<rparr>, txs = job_txs mj,
          weight = word_of_nat (length (job_txs mj))\<rparr>) \<and> pow_verdict X b = Inr ()" for b
    using winning_verdict [OF assms(2)] verdict_winning [OF assms(2)] unfolding nonce_block_def by blast
  then show ?thesis using t r v by simp
qed

theorem try_nonce_agrees_with_validator_witness:
  "\<exists>c' b. try_nonce ref_ext (demo_job 1) 0 dc_empty = Some (c', Some b)
    \<and> (\<exists>m'. verify_visionx_pow ref_ext b demo_state = Some (m', Inr ()))"
proof -
  obtain c' r where t: "try_nonce ref_ext (demo_job 1) 0 dc_empty = Some (c', r)"
    and r: "\<forall>b. r = Some b \<longrightarrow> (\<exists>m'. verify_visionx_pow ref_ext b demo_state = Some (m', Inr ()))"
    using try_nonce_agrees_with_validator [OF dc_ok_empty(1) demo_job_standard, of demo_state ref_ext 1 0]
      demo_base by (auto simp: base_ok_def)
  obtain d where "winning ref_ext (demo_job 1) 0 d" using demo_job_wins by blast
  then have "r \<noteq> None"
    using try_nonce_winning [OF dc_ok_empty(1) demo_job_standard, of ref_ext 1 0] t by auto
  then show ?thesis using t r by auto
qed

text \<open>C23: a worker whose job stays current finds a block whenever one is to be found: if some nonce
  from the first one on wins, the search returns, without panicking, the block of the least such
  nonce.\<close>

theorem mining_search_finds:
  assumes "dc_ok c" "job_standard mj" "\<exists>k d. winning X mj k d"
  shows "\<exists>c' k d. mine_search X mj (\<lambda>_. True) 0 c = Some (c', Some (nonce_block X mj k d))
    \<and> winning X mj k d \<and> (\<forall>j<k. \<forall>e. \<not> winning X mj j e)"
proof -
  obtain c' r where s: "mine_search X mj (\<lambda>_. True) 0 c = Some (c', r)"
    and q: "search_result X mj (\<lambda>_. True) 0 r"
    using mine_search_spec [OF assms(1,2)] by blast
  obtain b where "r = Some b" using q assms(3) by (cases r) (auto simp: search_result_def)
  then show ?thesis using s q by (auto simp: search_result_def)
qed

theorem mining_search_finds_witness:
  "\<exists>c' k d. mine_search ref_ext (demo_job 1) (\<lambda>_. True) 0 dc_empty
     = Some (c', Some (nonce_block ref_ext (demo_job 1) k d))"
  using mining_search_finds [OF dc_ok_empty(1) demo_job_standard, of ref_ext 1] demo_job_wins by blast

text \<open>C24: a block mined on a candidate for the tip of a reached chain is accepted. Submitted before
  another block arrives it extends the canonical chain at the next height and is counted, unless
  its hash has been seen, when it is a duplicate. What the theorem needs beyond the code: the store
  accepts writes, the clock has not fallen behind by two hours, identifiers of the block's
  transactions differ, the retarget has not wrapped to zero, no canonical hash is all zeros, and
  the parent's timestamp is not the last one.\<close>

theorem mined_block_is_accepted:
  assumes "reached X ht m" "store_accepts X" "mm_params mm = VISIONX_PARAMS"
    and "build_candidate_for_tip X a ts m mm = Ret (m1, mm1, Some mj)"
    and "try_nonce X mj n (ds_cache m1) = Some (c, Some b)"
    and "distinct (map (canonical_tx_id X) (job_txs mj))" "target_difficulty mj \<noteq> 0"
    and "\<forall>k\<in>set (blocks m). \<not> zero_text (block_hash k)"
    and "timestamp (header (last (blocks m))) \<noteq> - 1"
    and "timestamp (header b) \<le> clock m1 (ticks m1) + MAX_FUTURE_TIMESTAMP_SECS"
    and "block_hash b \<notin> seen_blocks m \<longrightarrow> honest ht b"
  shows "\<exists>m'. submit_solution X b (m1\<lparr>ds_cache := c\<rparr>) mm1 = Ret (m',
    if block_hash b \<in> seen_blocks m then (mm1, Rejected (DuplicateBlock (block_hash b)))
    else (record_block_found mm1, CanonExtension (number (header b))))"
proof -
  let ?m = "m1\<lparr>ds_cache := c\<rparr>"
  have inv: "chain_inv X ht m" using assms(1) by (rule reached_inv)
  have m1: "m1 = m\<lparr>ticks := ticks m + 1\<rparr>" using assms(4) by (rule candidate_for_tipE)
  have sc: "same_chain m ?m" by (rule same_chainI) (simp_all add: m1)
  have std: "job_standard mj" using assms(4,3) by (rule candidate_standard)
  have dc: "dc_ok (ds_cache m1)" using inv by (simp add: m1 chain_inv_def base_ok_def)
  obtain d where d: "dc_ok c" "winning X mj n d" "b = nonce_block X mj n d"
    using try_nonce_winning [OF dc std, of X n] assms(5) by (metis option.inject prod.inject)
  have inv1: "chain_inv X ht ?m" using sc inv by (rule chain_inv_same) (simp add: d(1))
  note p = mined_block_passes [OF inv assms(8,4,6,9,7), of n d, folded d(3)]
  show ?thesis
  proof (cases "block_hash b \<in> seen_blocks m")
    case True
    then have "structural_check X ?m b = Some (DuplicateBlock (block_hash b))"
      using p by (simp add: same_chain_checks(1) [OF sc])
    then obtain m' where "apply_block X b None ?m = Ret (m', Rejected (DuplicateBlock (block_hash b)))"
      using apply_block_duplicate by blast
    then show ?thesis using True by (simp add: submit_solution_def)
  next
    case False
    then obtain s where "passed X b m s" using p by blast
    then have "passed X b ?m s"
      by (simp add: passed_def same_chain_checks [OF sc] same_chain_queries [OF sc])
    moreover have "pow_verdict X b = Inr ()" using winning_verdict [OF std d(2)] d(3) by simp
    moreover have "parent_hash (header b) = tip_hash ?m" using p by (simp add: same_chain_queries [OF sc])
    ultimately obtain m' where "apply_block X b None ?m = Ret (m', CanonExtension (number (header b)))"
      using apply_block_accepts_tip [OF inv1 _ _ _ _ assms(2), of b s None] False assms(10,11) by auto
    then show ?thesis using False by (simp add: submit_solution_def)
  qed
qed

theorem mined_block_is_accepted_witness:
  "\<exists>m1 mm1 mj c b m' q. build_candidate_for_tip ref_ext (demo_addr (CHR ''a'')) [] demo_state demo_manager
      = Ret (m1, mm1, Some mj)
    \<and> try_nonce ref_ext mj 0 (ds_cache m1) = Some (c, Some b)
    \<and> submit_solution ref_ext b (m1\<lparr>ds_cache := c\<rparr>) mm1 = Ret (m', q)"
proof -
  obtain m1 mm1 mj where build: "build_candidate_for_tip ref_ext (demo_addr (CHR ''a'')) [] demo_state demo_manager
      = Ret (m1, mm1, Some mj)" using demo_candidate by blast
  have par: "mm_params demo_manager = VISIONX_PARAMS" by (simp add: demo_manager_def miner_manager_new_def)
  have std: "job_standard mj" using build par by (rule candidate_standard)
  obtain now root ts where m1: "m1 = demo_state\<lparr>ticks := ticks demo_state + 1\<rparr>" and now: "now = 1"
    and mj: "header_template mj = \<lparr>parent_hash = GENESIS_HASH, number = 1, timestamp = now, difficulty = 1,
        nonce = 0, pow_hash = [], state_root = root, tx_root = compute_tx_root ref_ext ts,
        miner = demo_addr (CHR ''a'')\<rparr>" "target_difficulty mj = 1" "job_txs mj = [coinbase_tx 1]"
      "ts = [coinbase_tx 1]"
    using build
  proof (rule candidate_for_tipE)
    fix now mj0 root
    assume m1: "m1 = demo_state\<lparr>ticks := ticks demo_state + 1\<rparr>"
      and now: "now = max (clock demo_state (ticks demo_state)) (timestamp (header (last (blocks demo_state))) + 1)"
      and mj0: "build_candidate_with_params ref_ext (last (blocks demo_state)) (next_id demo_manager)
        (demo_addr (CHR ''a'')) [] (tip_window demo_state) now (mm_params demo_manager) = Some mj0"
      and mj: "mj = mj0\<lparr>header_template := (header_template mj0)\<lparr>state_root := root\<rparr>,
       job_header_bytes := job_encode_header ref_ext ((header_template mj0)\<lparr>state_root := root\<rparr>)\<rparr>"
    have clk: "clock demo_state = (\<lambda>_. 1)"
      by (simp add: demo_state_def genesis_machine_def push_canonical_def start_machine_def
          chain_state.extend_def machine.fields_def empty_chain_def)
    have one: "now = 1" by (simp add: now clk)
    have "tip_window demo_state = [genesis_block]" by (simp add: tip_window_def RETARGET_WINDOW_def)
    then have "calculate_next_difficulty (tip_window demo_state) now = 1"
      by (simp add: calculate_next_difficulty_def DIFFICULTY_FLOOR_def)
    then show ?thesis
      using candidate_fields [OF mj0] one m1 by (intro that [of now root "[coinbase_tx 1]"]) (simp_all add: mj)
  qed
  have "is_lowercase_hex_32_bytes (compute_tx_root ref_ext ts)" by (simp add: mj(4) compute_tx_root_def hash_text_lower)
  then obtain d where "header_digest ref_ext ((header_template mj)\<lparr>nonce := 0\<rparr>) = Inr d" "length d = 32"
    using header_digest_Inr [of "(header_template mj)\<lparr>nonce := 0\<rparr>"] GENESIS_HASH_lower by (auto simp: mj)
  then have win: "winning ref_ext mj 0 d" using difficulty_one [of d] by (simp add: winning_def mj)
  have dc: "dc_ok (ds_cache m1)" using demo_base by (simp add: m1 base_ok_def)
  define b where "b = nonce_block ref_ext mj 0 d"
  obtain c where t: "try_nonce ref_ext mj 0 (ds_cache m1) = Some (c, Some b)"
    using try_nonce_winning [OF dc std, of ref_ext 0] win unfolding b_def by metis
  have len: "length (block_hash b) = 64"
    using \<open>length d = 32\<close> ref_hex_laws by (simp add: b_def nonce_block_def hex_laws_def)
  have "honest demo_ht b" if "block_hash b \<notin> seen_blocks demo_state"
    using that demo_ht_hash [OF len] by (simp add: honest_def) (simp add: b_def nonce_block_def mj)
  moreover have "\<not> zero_text GENESIS_HASH" by (simp add: zero_text_def GENESIS_HASH_def)
  moreover have "timestamp (header b) \<le> clock m1 (ticks m1) + MAX_FUTURE_TIMESTAMP_SECS"
    by (simp add: b_def nonce_block_def mj now m1 MAX_FUTURE_TIMESTAMP_SECS_def demo_state_def
        genesis_machine_def push_canonical_def start_machine_def chain_state.extend_def machine.fields_def
        empty_chain_def)
  ultimately obtain m' where "submit_solution ref_ext b (m1\<lparr>ds_cache := c\<rparr>) mm1 = Ret (m',
      if block_hash b \<in> seen_blocks demo_state then (mm1, Rejected (DuplicateBlock (block_hash b)))
      else (record_block_found mm1, CanonExtension (number (header b))))"
    using mined_block_is_accepted [OF demo_reached ref_store_accepts par build t] by (auto simp: mj)
  then show ?thesis using build t by blast
qed

text \<open>C25: one transaction can stop a node from mining. While the oldest transaction of the pool
  fails to execute on the account state, every round ends without a candidate: the transaction is
  not skipped, the pool is not touched, and the accounts a later round looks at are the same, so
  nothing but a block from elsewhere or an eviction ends the stall. Admission lets such transactions
  in: one whose nonce is ahead of its account's by one, and, as the example shows, a coinbase
  reward that carries no signature at all.\<close>

theorem failing_transaction_stalls_mining:
  assumes "mm_params mm = VISIONX_PARAMS" "pool_order p = i # rest" "pool_get p i = Some t"
    and "simulate_tx_execution X (account_state m) t = (s, Inl e)"
  shows "\<exists>m1 mm1 st. mining_round_start X a connected pauses p m mm = Ret (m1, mm1, st)
    \<and> st \<in> {RoundPaused, RoundNoCandidate} \<and> mm_params mm1 = VISIONX_PARAMS
    \<and> account_state m1 = account_state m \<and> blocks m1 = blocks m"
proof (cases "connected < MIN_PEERS_FOR_MINING \<or> pauses \<or> blocks m = []")
  case True
  then show ?thesis
    using assms(1) by (auto simp: mining_round_start_def clear_job_def build_candidate_for_tip_def)
next
  case False
  let ?now = "max (clock m (ticks m)) (timestamp (header (last (blocks m))) + 1)"
  obtain ts where ts: "select_for_block p BLOCK_TARGET_TXS = t # ts"
    using assms(2,3) by (simp add: select_for_block_def BLOCK_TARGET_TXS_def List.map_filter_simps)
  obtain mj where mj: "build_candidate_with_params X (last (blocks m)) (next_id mm) a (t # ts) (tip_window m)
      ?now (mm_params mm) = Some mj"
    using assms(1) by (simp add: build_candidate_with_params_def VISIONX_epoch Let_def)
  have "\<exists>us. drop 1 (job_txs mj) = t # us"
    using candidate_fields [OF mj] by (simp add: BLOCK_TARGET_TXS_def)
  then obtain us where "drop 1 (job_txs mj) = t # us" by blast
  then have "run_all (simulate_tx_execution X) 1 (account_state m) (drop 1 (job_txs mj)) = (s, Inl (1, e))"
    using assms(4) by simp
  then have "build_candidate_for_tip X a (t # ts) m mm = Ret (m\<lparr>ticks := ticks m + 1\<rparr>, mm\<lparr>next_id := next_id mm + 1\<rparr>, None)"
    using False mj by (simp add: build_candidate_for_tip_def Let_def wall_clock_secs_def next_job_id_def)
  then show ?thesis
    using False assms(1) ts by (simp add: mining_round_start_def account_state_def)
qed

theorem failing_transaction_stalls_mining_witness:
  "\<exists>p m1 mm1 st. admit light_ext (coinbase_tx 0) (nonce_of demo_state (sender_pubkey (coinbase_tx 0))) pool_new
      = (p, Inr AdmissionAccept) \<and> sig (coinbase_tx 0) = []
    \<and> mining_round_start light_ext (demo_addr (CHR ''a'')) 3 False p demo_state demo_manager = Ret (m1, mm1, st)
    \<and> st \<in> {RoundPaused, RoundNoCandidate}"
proof -
  let ?t = "coinbase_tx 0"
  have n: "nonce_of demo_state k = 0" for k
    by (simp add: demo_state_def genesis_machine_def push_canonical_def nonce_of_def)
  have v: "validate_tx_stateless light_ext ?t = Inr ()"
    by (simp add: validate_tx_stateless_def is_coinbase_reward_def serialized_tx_size_def
        MAX_SERIALIZED_TX_BYTES_def coinbase_tx_def)
  define p where "p = \<lparr>by_id = [(canonical_tx_id light_ext ?t, ?t)], pool_order = [canonical_tx_id light_ext ?t]\<rparr>"
  have p: "admit light_ext ?t 0 pool_new = (p, Inr AdmissionAccept)"
    by (simp add: admit_def evaluate_def pending_txs_def pool_new_def List.map_filter_simps v p_def
        saturating_add_def insert_locked_def pool_len_def bt_entries_def MEMPOOL_MAX_def tx_key_def)
      (simp add: coinbase_tx_def)
  have f: "simulate_tx_execution light_ext (account_state demo_state) ?t
      = (account_state demo_state, Inl (Validation UnsupportedModuleMethod))"
    by (simp add: simulate_tx_execution_def coinbase_tx_def)
  have "mm_params demo_manager = VISIONX_PARAMS" by (simp add: demo_manager_def miner_manager_new_def)
  moreover have "pool_order p = canonical_tx_id light_ext ?t # []" by (simp add: p_def)
  moreover have "pool_get p (canonical_tx_id light_ext ?t) = Some ?t"
    by (simp add: p_def pool_get_def bt_lookup_def)
  ultimately obtain m1 mm1 st where
    "mining_round_start light_ext (demo_addr (CHR ''a'')) 3 False p demo_state demo_manager = Ret (m1, mm1, st)"
    "st \<in> {RoundPaused, RoundNoCandidate}"
    using failing_transaction_stalls_mining [OF _ _ _ f, of demo_manager p] by blast
  then show ?thesis using p n by (simp add: coinbase_tx_def)
qed

text \<open>C26: the nonce search of the miner object is exact. On a job over a historical header with
  parameters in bounds it never panics and returns the least nonce below the limit whose digest,
  injected header and target check out, and nothing when there is none; a job of other parameters
  is refused.\<close>

theorem mine_returns_least:
  assumes "dc_ok c" "params_within_bounds p"
    and "from_historical_header X p ph epoch h off target = Inr job"
  shows "\<exists>c' r. mine p job limit c = Some (c', r) \<and>
    (case r of
       None \<Rightarrow> \<forall>j< limit. \<not> nonce_wins job j
     | Some s \<Rightarrow> sol_nonce s < limit \<and> nonce_wins job (sol_nonce s)
         \<and> job_digest job (sol_nonce s) = Inr (sol_hash s) \<and> (\<forall>j< sol_nonce s. \<not> nonce_wins job j))"
proof -
  have job: "pj_params job = p" "pj_historical_preimage job \<noteq> None"
    using assms(3) by (auto simp: from_historical_header_def split: sum.splits)
  have dig: "\<exists>d. job_digest job k = Inr d" for k
    using job assms(2) by (simp add: job_digest_def job_input_def)
  obtain c' r where "mine_from job (unat limit) 0 c = Some (c', r)" "least_win job 0 (unat limit) r"
    using mine_from_spec [OF assms(1) _ dig, of 0 "unat limit"] by auto
  then show ?thesis
    using job(1) by (cases r) (simp_all add: mine_def least_win_def word_less_nat_alt)
qed

theorem mine_returns_least_witness:
  "\<exists>job c' r. from_historical_header ref_ext VISIONX_PARAMS [] 0 (demo_header 1 null_hash)
      HISTORICAL_VPOW_NONCE_OFFSET (difficulty_to_target 1) = Inr job
    \<and> mine VISIONX_PARAMS job 10 dc_empty = Some (c', r)"
proof -
  obtain a b where "vpow_decode_hash_32 ref_ext ''parent_hash'' GENESIS_HASH = Inr a"
    "vpow_decode_hash_32 ref_ext ''tx_root'' (compute_tx_root ref_ext [demo_coinbase 1]) = Inr b"
    using decode_hash_lower(1) [OF ref_hex_laws] GENESIS_HASH_lower hash_text_lower
    by (metis compute_tx_root_def list.distinct(1))
  then obtain job where "from_historical_header ref_ext VISIONX_PARAMS [] 0 (demo_header 1 null_hash)
      HISTORICAL_VPOW_NONCE_OFFSET (difficulty_to_target 1) = Inr job"
    by (simp add: from_historical_header_def historical_vpow_message_bytes_with_nonce_zero_def
        historical_vpow_message_bytes_def demo_header_def Let_def)
  then show ?thesis
    using mine_returns_least [OF dc_ok_empty(1) VISIONX_PARAMS_bounds] by blast
qed

end
