(* ===== verification/Protocol.thy ===== *)
theory Protocol
  imports Chain_State Genesis VisionX
begin

text \<open>
  \<open>p2p/protocol.rs\<close> and \<open>p2p/messages.rs\<close>: the chain summary, the handshake and its
  validation, block announcements and the message set. Strings of the code that only reach a log
  line are left out; the reason of a disconnect is kept.
\<close>

section \<open>Chain summaries\<close>

record chain_summary =
  sum_height :: u64
  sum_tip :: "string option"
  sum_work :: u128

definition summary_from_chain :: "('db, 'm) chain_state_scheme \<Rightarrow> chain_summary" where
  "summary_from_chain g =
     (let tip_opt = (if blocks g = [] then None else Some (tip_hash g))
      in \<lparr>sum_height = current_height g, sum_tip = tip_opt,
          sum_work = (case Option.bind tip_opt (cumulative_work g) of None \<Rightarrow> 0 | Some w \<Rightarrow> w)\<rparr>)"

section \<open>Handshake\<close>

record handshake =
  hs_protocol_version :: u32
  hs_chain_id :: "u8 list"
  hs_genesis_hash :: string
  hs_node_nonce :: u64
  hs_chain_height :: u64
  hs_network_id :: string
  hs_node_tag :: string
  hs_econ_hash :: string
  hs_pow_params_hash :: string
  hs_advertised_ip :: "string option"
  hs_advertised_port :: "u16 option"
  hs_seed_peers :: "string list"

definition expected_chain_id :: "('db, 'x) ext_scheme \<Rightarrow> u8 list" where
  "expected_chain_id X = blake3 X (as_bytes GENESIS_HASH @ as_bytes NETWORK_ID)"

definition handshake_new :: "('db, 'x) ext_scheme \<Rightarrow> u64 \<Rightarrow> u64 \<Rightarrow> handshake" where
  "handshake_new X height n =
     \<lparr>hs_protocol_version = PROTOCOL_VERSION, hs_chain_id = expected_chain_id X,
      hs_genesis_hash = GENESIS_HASH, hs_node_nonce = n, hs_chain_height = height,
      hs_network_id = NETWORK_ID,
      hs_node_tag = NODE_VERSION @ ''-consensus-v1.0.'' @ dec_of_nat (unat CONSENSUS_VERSION),
      hs_econ_hash = ECON_HASH, hs_pow_params_hash = fingerprint X VISIONX_PARAMS,
      hs_advertised_ip = None, hs_advertised_port = None, hs_seed_peers = []\<rparr>"

definition new_with_advertised ::
  "('db, 'x) ext_scheme \<Rightarrow> u64 \<Rightarrow> u64 \<Rightarrow> string option \<Rightarrow> u16 option \<Rightarrow> handshake" where
  "new_with_advertised X height n ip port =
     (handshake_new X height n)\<lparr>hs_advertised_ip := ip, hs_advertised_port := port\<rparr>"

datatype handshake_result =
    Accepted
  | VersionMismatch u32 u32
  | WrongChainId
  | WrongGenesisHash
  | WrongEconHash
  | WrongPowParams
  | SelfConnection

definition validate_handshake :: "('db, 'x) ext_scheme \<Rightarrow> handshake \<Rightarrow> u64 \<Rightarrow> handshake_result" where
  "validate_handshake X remote our_nonce =
     (if hs_node_nonce remote = our_nonce then SelfConnection
      else if hs_protocol_version remote \<noteq> PROTOCOL_VERSION
        then VersionMismatch (hs_protocol_version remote) PROTOCOL_VERSION
      else if hs_chain_id remote \<noteq> expected_chain_id X then WrongChainId
      else if hs_genesis_hash remote \<noteq> GENESIS_HASH then WrongGenesisHash
      else if hs_econ_hash remote \<noteq> ECON_HASH then WrongEconHash
      else if hs_pow_params_hash remote \<noteq> fingerprint X VISIONX_PARAMS then WrongPowParams
      else Accepted)"

section \<open>Messages\<close>

record announcement =
  an_height :: u64
  an_hash :: string
  an_prev :: string

datatype p2p_message =
    MsgHandshake handshake
  | MsgPing u64
  | MsgPong u64
  | MsgGetHeight
  | MsgHeight chain_summary
  | MsgAnnounceBlock announcement
  | MsgGetBlock string
  | MsgBlock block
  | MsgDisconnect string

definition msg_label :: "p2p_message \<Rightarrow> string" where
  "msg_label m =
     (case m of
        MsgHandshake h \<Rightarrow> ''Handshake''
      | MsgPing t \<Rightarrow> ''Ping''
      | MsgPong t \<Rightarrow> ''Pong''
      | MsgGetHeight \<Rightarrow> ''GetHeight''
      | MsgHeight s \<Rightarrow> ''Height''
      | MsgAnnounceBlock a \<Rightarrow> ''AnnounceBlock''
      | MsgGetBlock h \<Rightarrow> ''GetBlock''
      | MsgBlock b \<Rightarrow> ''Block''
      | MsgDisconnect r \<Rightarrow> ''Disconnect'')"

definition is_pre_handshake :: "p2p_message \<Rightarrow> bool" where
  "is_pre_handshake m = (case m of MsgHandshake h \<Rightarrow> True | MsgDisconnect r \<Rightarrow> True | _ \<Rightarrow> False)"

section \<open>Facts\<close>

lemma validate_handshake_Accepted:
  "validate_handshake X h n = Accepted \<longleftrightarrow>
     hs_node_nonce h \<noteq> n \<and> hs_protocol_version h = PROTOCOL_VERSION
     \<and> hs_chain_id h = expected_chain_id X \<and> hs_genesis_hash h = GENESIS_HASH
     \<and> hs_econ_hash h = ECON_HASH \<and> hs_pow_params_hash h = fingerprint X VISIONX_PARAMS"
  by (auto simp: validate_handshake_def)

lemma validate_own_handshake [simp]:
  "validate_handshake X (new_with_advertised X h n ip port) our_nonce =
     (if n = our_nonce then SelfConnection else Accepted)"
  by (simp add: validate_handshake_def new_with_advertised_def handshake_new_def)

end
