(* ===== verification/Net_Addr.thy ===== *)
theory Net_Addr
  imports Prelude
begin

text \<open>
  The address handling of \<open>p2p/peer_manager.rs\<close> with the parts of the standard library it
  uses: \<open>str::trim\<close> on UTF-8 text, \<open>to_ascii_lowercase\<close>, and the parsers of
  \<open>IpAddr\<close> and \<open>SocketAddr\<close>. An address keeps its octets or its eight segments; the
  scope identifier of an IPv6 socket address is parsed and kept.
\<close>

section \<open>Text\<close>

text \<open>The UTF-8 encodings of the characters with the White\_Space property.\<close>

definition white_spaces :: "string list" where
  "white_spaces = map string_of_bytes
     ([[9], [10], [11], [12], [13], [32], [0xC2, 0x85], [0xC2, 0xA0], [0xE1, 0x9A, 0x80]]
      @ map (\<lambda>b. [0xE2, 0x80, b]) [0x80, 0x81, 0x82, 0x83, 0x84, 0x85, 0x86, 0x87, 0x88, 0x89, 0x8A, 0xA8, 0xA9, 0xAF]
      @ [[0xE2, 0x81, 0x9F], [0xE3, 0x80, 0x80]])"

fun first_strip :: "string list \<Rightarrow> string \<Rightarrow> string option" where
  "first_strip [] s = None"
| "first_strip (w # ws) s = (case strip_prefix w s of None \<Rightarrow> first_strip ws s | Some r \<Rightarrow> Some r)"

text \<open>Removes white space at the front, one character at a time. The fuel is the number of bytes;
  every removal takes at least one.\<close>

fun strip_all :: "string list \<Rightarrow> nat \<Rightarrow> string \<Rightarrow> string" where
  "strip_all ws 0 s = s"
| "strip_all ws (Suc n) s = (case first_strip ws s of None \<Rightarrow> s | Some r \<Rightarrow> strip_all ws n r)"

definition trim_start :: "string \<Rightarrow> string" where
  "trim_start s = strip_all white_spaces (length s) s"

definition trim_end :: "string \<Rightarrow> string" where
  "trim_end s = rev (strip_all (map rev white_spaces) (length s) (rev s))"

definition trim :: "string \<Rightarrow> string" where
  "trim s = trim_end (trim_start s)"

definition ascii_lower :: "char \<Rightarrow> char" where
  "ascii_lower c = (let k = of_char c :: nat in if 65 \<le> k \<and> k \<le> 90 then char_of (k + 32) else c)"

definition to_ascii_lowercase :: "string \<Rightarrow> string" where
  "to_ascii_lowercase s = map ascii_lower s"

definition u16_to_string :: "u16 \<Rightarrow> string" where
  "u16_to_string n = dec_of_nat (unat n)"

section \<open>IP addresses\<close>

datatype ip_addr = IpV4 u8 u8 u8 u8 | IpV6 "u16 list"

datatype socket_addr = SocketV4 ip_addr u16 | SocketV6 ip_addr u16 u32

definition socket_ip :: "socket_addr \<Rightarrow> ip_addr" where
  "socket_ip a = (case a of SocketV4 i p \<Rightarrow> i | SocketV6 i p s \<Rightarrow> i)"

definition socket_port :: "socket_addr \<Rightarrow> u16" where
  "socket_port a = (case a of SocketV4 i p \<Rightarrow> p | SocketV6 i p s \<Rightarrow> p)"

text \<open>\<open>char::to_digit\<close> in radix 10 and 16.\<close>

definition to_digit :: "nat \<Rightarrow> char \<Rightarrow> nat option" where
  "to_digit radix c =
     (let k = of_char c :: nat;
          d = (if 48 \<le> k \<and> k \<le> 57 then Some (k - 48)
               else if 97 \<le> k \<and> k \<le> 122 then Some (k - 87)
               else if 65 \<le> k \<and> k \<le> 90 then Some (k - 55) else None)
      in (case d of None \<Rightarrow> None | Some v \<Rightarrow> if v < radix then Some v else None))"

text \<open>The leading digits of the input, their value and the rest.\<close>

fun read_digits :: "nat \<Rightarrow> nat \<Rightarrow> nat \<Rightarrow> string \<Rightarrow> nat \<times> nat \<times> string" where
  "read_digits radix acc count [] = (acc, count, [])"
| "read_digits radix acc count (c # cs) =
     (case to_digit radix c of
        None \<Rightarrow> (acc, count, c # cs)
      | Some d \<Rightarrow> read_digits radix (acc * radix + d) (count + 1) cs)"

text \<open>\<open>read_number\<close>: at least one digit, at most \<open>max_digits\<close> of them, leading zeros
  only where allowed, and a value below \<open>limit\<close>.\<close>

definition read_number :: "nat \<Rightarrow> nat option \<Rightarrow> bool \<Rightarrow> nat \<Rightarrow> string \<Rightarrow> (nat \<times> string) option" where
  "read_number radix max_digits allow_zero_prefix limit s =
     (case read_digits radix 0 0 s of
        (v, count, rest) \<Rightarrow>
          if count = 0 \<or> (case max_digits of None \<Rightarrow> False | Some k \<Rightarrow> k < count)
             \<or> (\<not> allow_zero_prefix \<and> hd s = CHR ''0'' \<and> 1 < count) \<or> limit \<le> v
          then None else Some (v, rest))"

fun read_given_char :: "char \<Rightarrow> string \<Rightarrow> string option" where
  "read_given_char c [] = None"
| "read_given_char c (d # ds) = (if c = d then Some ds else None)"

text \<open>\<open>read_separator\<close>: the separator before every item but the first.\<close>

definition read_separator :: "char \<Rightarrow> nat \<Rightarrow> (string \<Rightarrow> ('a \<times> string) option) \<Rightarrow> string \<Rightarrow> ('a \<times> string) option" where
  "read_separator c i p s = (if i = 0 then p s else Option.bind (read_given_char c s) p)"

definition read_octet :: "nat \<Rightarrow> string \<Rightarrow> (u8 \<times> string) option" where
  "read_octet i s = map_option (\<lambda>(v, r). (word_of_nat v, r))
     (read_separator (CHR ''.'') i (read_number 10 (Some 3) False 256) s)"

definition read_ipv4_addr :: "string \<Rightarrow> (ip_addr \<times> string) option" where
  "read_ipv4_addr s =
     do { (a, s1) \<leftarrow> read_octet 0 s;
          (b, s2) \<leftarrow> read_octet 1 s1;
          (c, s3) \<leftarrow> read_octet 2 s2;
          (d, s4) \<leftarrow> read_octet 3 s3;
          Some (IpV4 a b c d, s4) }"

definition octets_to_groups :: "ip_addr \<Rightarrow> u16 list" where
  "octets_to_groups ip =
     (case ip of IpV4 a b c d \<Rightarrow> [ucast a * 256 + ucast b, ucast c * 256 + ucast d] | IpV6 gs \<Rightarrow> gs)"

text \<open>\<open>read_groups\<close>: up to \<open>i + n\<close> groups, the last two possibly as an embedded IPv4
  address. The result is the groups read, whether an IPv4 address ended them, and the rest.\<close>

fun read_groups :: "nat \<Rightarrow> nat \<Rightarrow> string \<Rightarrow> u16 list \<times> bool \<times> string" where
  "read_groups i 0 s = ([], False, s)"
| "read_groups i (Suc n) s =
     (case (if 0 < n then read_separator (CHR '':'') i read_ipv4_addr s else None) of
        Some (v4, r) \<Rightarrow> (octets_to_groups v4, True, r)
      | None \<Rightarrow>
         (case read_separator (CHR '':'') i (read_number 16 (Some 4) True 65536) s of
            None \<Rightarrow> ([], False, s)
          | Some (g, r) \<Rightarrow>
             (case read_groups (Suc i) n r of (gs, v4, r') \<Rightarrow> (word_of_nat g # gs, v4, r'))))"

definition read_ipv6_addr :: "string \<Rightarrow> (ip_addr \<times> string) option" where
  "read_ipv6_addr s =
     (case read_groups 0 8 s of
        (head, head_ipv4, r) \<Rightarrow>
          if length head = 8 then Some (IpV6 head, r)
          else if head_ipv4 then None
          else do {
            r1 \<leftarrow> read_given_char (CHR '':'') r;
            r2 \<leftarrow> read_given_char (CHR '':'') r1;
            (case read_groups 0 (8 - (length head + 1)) r2 of
               (tail, tail_v4, r3) \<Rightarrow>
                 Some (IpV6 (head @ replicate (8 - length head - length tail) 0 @ tail), r3)) })"

definition read_ip_addr :: "string \<Rightarrow> (ip_addr \<times> string) option" where
  "read_ip_addr s = (case read_ipv4_addr s of None \<Rightarrow> read_ipv6_addr s | Some r \<Rightarrow> Some r)"

definition parse_with :: "(string \<Rightarrow> ('a \<times> string) option) \<Rightarrow> string \<Rightarrow> 'a option" where
  "parse_with p s = (case p s of Some (a, []) \<Rightarrow> Some a | _ \<Rightarrow> None)"

definition parse_ip :: "string \<Rightarrow> ip_addr option" where
  "parse_ip s = parse_with read_ip_addr s"

definition read_port :: "string \<Rightarrow> (u16 \<times> string) option" where
  "read_port s =
     do { r \<leftarrow> read_given_char (CHR '':'') s;
          (p, r1) \<leftarrow> read_number 10 None True 65536 r;
          Some (word_of_nat p, r1) }"

definition read_scope_id :: "string \<Rightarrow> (u32 \<times> string) option" where
  "read_scope_id s =
     do { r \<leftarrow> read_given_char (CHR ''%'') s;
          (p, r1) \<leftarrow> read_number 10 None True (2 ^ 32) r;
          Some (word_of_nat p, r1) }"

definition read_socket_addr_v4 :: "string \<Rightarrow> (socket_addr \<times> string) option" where
  "read_socket_addr_v4 s =
     do { (ip, r) \<leftarrow> read_ipv4_addr s;
          (port, r1) \<leftarrow> read_port r;
          Some (SocketV4 ip port, r1) }"

definition read_socket_addr_v6 :: "string \<Rightarrow> (socket_addr \<times> string) option" where
  "read_socket_addr_v6 s =
     do { r \<leftarrow> read_given_char (CHR ''['') s;
          (ip, r1) \<leftarrow> read_ipv6_addr r;
          (scope, r2) \<leftarrow> Some (case read_scope_id r1 of None \<Rightarrow> (0, r1) | Some sr \<Rightarrow> sr);
          r3 \<leftarrow> read_given_char (CHR '']'') r2;
          (port, r4) \<leftarrow> read_port r3;
          Some (SocketV6 ip port scope, r4) }"

definition parse_socket_addr :: "string \<Rightarrow> socket_addr option" where
  "parse_socket_addr s =
     parse_with (\<lambda>s. case read_socket_addr_v4 s of None \<Rightarrow> read_socket_addr_v6 s | Some r \<Rightarrow> Some r) s"

definition ip_is_loopback :: "ip_addr \<Rightarrow> bool" where
  "ip_is_loopback ip = (case ip of IpV4 a b c d \<Rightarrow> a = 127 | IpV6 gs \<Rightarrow> gs = [0, 0, 0, 0, 0, 0, 0, 1])"

definition ip_is_unspecified :: "ip_addr \<Rightarrow> bool" where
  "ip_is_unspecified ip = (ip = IpV4 0 0 0 0 \<or> ip = IpV6 (replicate 8 0))"

section \<open>The checks of the peer manager\<close>

definition is_private_like_ip :: "ip_addr \<Rightarrow> bool" where
  "is_private_like_ip ip =
     (case ip of
        IpV4 a b c d \<Rightarrow>
          ip_is_loopback ip
          \<or> (a = 10 \<or> (a = 172 \<and> 16 \<le> b \<and> b \<le> 31) \<or> (a = 192 \<and> b = 168))
          \<or> (a = 169 \<and> b = 254)
          \<or> ip_is_unspecified ip
      | IpV6 gs \<Rightarrow>
          (let first = gs ! 0
           in ip_is_loopback ip \<or> ip_is_unspecified ip
              \<or> and first 0xfe00 = 0xfc00 \<or> and first 0xffc0 = 0xfe80))"

datatype advertised_error = MalformedAddress | MalformedHost | PrivateAddress

definition host_byte :: "char \<Rightarrow> bool" where
  "host_byte c = (let k = of_char c :: nat in
     (97 \<le> k \<and> k \<le> 122) \<or> (65 \<le> k \<and> k \<le> 90) \<or> (48 \<le> k \<and> k \<le> 57) \<or> k = 46 \<or> k = 45)"

definition validated_advertised_addr ::
  "string option \<Rightarrow> u16 option \<Rightarrow> bool \<Rightarrow> advertised_error + string option" where
  "validated_advertised_addr host_opt port_opt allow_private =
     (case (host_opt, port_opt) of
        (Some host0, Some port) \<Rightarrow>
          (let host = trim host0
           in if host = [] \<or> port = 0 then Inl MalformedAddress
              else if CHR '':'' \<in> set host \<and> parse_ip host = None then Inl MalformedHost
              else (case parse_ip host of
                  Some ip \<Rightarrow>
                    if \<not> allow_private \<and> is_private_like_ip ip then Inl PrivateAddress
                    else Inr (Some (to_ascii_lowercase host @ '':'' @ u16_to_string port))
                | None \<Rightarrow>
                    if \<not> list_all host_byte host then Inl MalformedHost
                    else Inr (Some (to_ascii_lowercase host @ '':'' @ u16_to_string port))))
      | _ \<Rightarrow> Inr None)"

datatype dial_error = InvalidPeerAddress string | PortZero string | PrivatePeerAddress string

definition validate_dial_address :: "string \<Rightarrow> bool \<Rightarrow> dial_error + socket_addr" where
  "validate_dial_address v allow_private =
     (case parse_socket_addr v of
        None \<Rightarrow> Inl (InvalidPeerAddress v)
      | Some a \<Rightarrow>
          if socket_port a = 0 then Inl (PortZero v)
          else if \<not> allow_private \<and> is_private_like_ip (socket_ip a) then Inl (PrivatePeerAddress v)
          else Inr a)"

end
