(* ===== verification/Peer_Manager.thy ===== *)
theory Peer_Manager
  imports Protocol Net_Addr "HOL-Library.Multiset"
begin

text \<open>
  \<open>p2p/peer_manager.rs\<close>: the registry of peers. Instants are nanoseconds of the monotonic
  clock; an operation that reads the clock takes the reading as its argument, and a scan of the
  registry uses one reading for the peers it visits. The hash map is a map from addresses;
  its operations that scan it fold over the list of its values, whose order the code does not
  fix.
\<close>

type_synonym instant = nat

definition elapsed_secs :: "instant \<Rightarrow> instant \<Rightarrow> u64" where
  "elapsed_secs now t = word_of_nat ((now - t) div 1000000000)"

datatype peer_state = Connected | Connecting | Disconnected | KnownOnly

record peer =
  addr :: string
  observed_addr :: "string option"
  advertised_addr :: "string option"
  state :: peer_state
  is_outbound :: bool
  height :: u64
  peer_tip :: "string option"
  peer_work :: u128
  last_height_updated_at :: "instant option"
  last_height_poll_sent_at :: "instant option"
  last_height_response_at :: "instant option"
  last_activity :: "instant option"
  connection_generation :: u64
  summary_generation :: "u64 option"
  summary_source :: "string option"

definition peer_new :: "string \<Rightarrow> bool \<Rightarrow> peer" where
  "peer_new a outbound =
     \<lparr>addr = a, observed_addr = None, advertised_addr = None, state = KnownOnly,
      is_outbound = outbound, height = 0, peer_tip = None, peer_work = 0,
      last_height_updated_at = None, last_height_poll_sent_at = None,
      last_height_response_at = None, last_activity = None, connection_generation = 0,
      summary_generation = None, summary_source = None\<rparr>"

definition is_height_fresh :: "instant \<Rightarrow> peer \<Rightarrow> bool" where
  "is_height_fresh now p =
     (case last_height_updated_at p of
        None \<Rightarrow> False
      | Some t \<Rightarrow> elapsed_secs now t < PEER_HEIGHT_STALE_SECS)"

definition is_height_poll_stalled :: "instant \<Rightarrow> peer \<Rightarrow> bool" where
  "is_height_poll_stalled now p =
     (case (last_height_poll_sent_at p, last_height_response_at p) of
        (Some sent, Some recv) \<Rightarrow>
          sent > recv \<and> elapsed_secs now sent \<ge> HEIGHT_POLL_RESPONSE_WINDOW_SECS
      | (Some sent, None) \<Rightarrow> elapsed_secs now sent \<ge> HEIGHT_POLL_RESPONSE_WINDOW_SECS
      | _ \<Rightarrow> False)"

definition peer_summary_of :: "peer \<Rightarrow> chain_summary" where
  "peer_summary_of p = \<lparr>sum_height = height p, sum_tip = peer_tip p, sum_work = peer_work p\<rparr>"

record peer_counts_report =
  durable_peers :: nat
  active_inbound_sessions :: nat
  active_outbound_sessions :: nat
  transient_connections :: nat
  dialable_peers :: nat

type_synonym peer_registry = "(string, peer) btree"

section \<open>Updates\<close>

text \<open>\<open>HashMap::get_mut\<close> followed by a mutation of the entry.\<close>

definition modify_peer :: "string \<Rightarrow> (peer \<Rightarrow> peer) \<Rightarrow> peer_registry \<Rightarrow> peer_registry" where
  "modify_peer a f r = (case bt_lookup r a of None \<Rightarrow> r | Some p \<Rightarrow> bt_insert a (f p) r)"

definition clear_peer_summary :: "peer \<Rightarrow> peer" where
  "clear_peer_summary p =
     p\<lparr>height := 0, peer_tip := None, peer_work := 0, last_height_updated_at := None,
       last_height_response_at := None, last_height_poll_sent_at := None,
       summary_generation := None, summary_source := None\<rparr>"

definition upsert :: "string \<Rightarrow> bool \<Rightarrow> peer_registry \<Rightarrow> peer_registry" where
  "upsert a outbound r =
     (case bt_lookup r a of
        Some p \<Rightarrow> bt_insert a (p\<lparr>is_outbound := is_outbound p \<or> outbound\<rparr>) r
      | None \<Rightarrow> bt_insert a (peer_new a outbound) r)"

definition set_state :: "string \<Rightarrow> peer_state \<Rightarrow> peer_registry \<Rightarrow> peer_registry" where
  "set_state a s r =
     modify_peer a (\<lambda>p. let p' = p\<lparr>state := s\<rparr>
                        in if s = Disconnected \<or> s = KnownOnly then clear_peer_summary p' else p') r"

definition disconnect_if_generation :: "string \<Rightarrow> u64 \<Rightarrow> peer_registry \<Rightarrow> peer_registry \<times> bool" where
  "disconnect_if_generation a generation r =
     (case bt_lookup r a of
        None \<Rightarrow> (r, False)
      | Some p \<Rightarrow>
          if connection_generation p \<noteq> generation then (r, False)
          else (bt_insert a (clear_peer_summary (p\<lparr>state := Disconnected\<rparr>)) r, True))"

definition connect_session :: "string \<Rightarrow> u64 \<Rightarrow> peer_registry \<Rightarrow> peer_registry" where
  "connect_session a generation r =
     modify_peer a (\<lambda>p. p\<lparr>connection_generation := max (connection_generation p) generation,
                         state := Connected\<rparr>) r"

definition note_peer_height :: "string \<Rightarrow> u64 \<Rightarrow> instant \<Rightarrow> peer_registry \<Rightarrow> peer_registry" where
  "note_peer_height a h now r =
     modify_peer a (\<lambda>p.
       if h < height p
       then p\<lparr>last_activity := Some now, last_height_response_at := Some now\<rparr>
       else p\<lparr>height := h, last_height_updated_at := Some now,
              last_height_response_at := Some now, last_activity := Some now\<rparr>) r"

definition should_update :: "chain_summary \<Rightarrow> peer \<Rightarrow> bool" where
  "should_update s p \<longleftrightarrow> sum_work s > peer_work p \<or> sum_height s \<ge> height p \<or> peer_tip p = None"

definition note_peer_summary_from ::
  "string \<Rightarrow> chain_summary \<Rightarrow> u64 option \<Rightarrow> string option \<Rightarrow> instant \<Rightarrow> peer_registry \<Rightarrow> peer_registry" where
  "note_peer_summary_from a s generation source now r =
     modify_peer a (\<lambda>p.
       if (case generation of None \<Rightarrow> False | Some g \<Rightarrow> g < connection_generation p) then p
       else
         (let p' = (if should_update s p
                    then p\<lparr>height := sum_height s, peer_tip := sum_tip s, peer_work := sum_work s,
                           last_height_updated_at := Some now,
                           summary_generation :=
                             (case generation of None \<Rightarrow> Some (connection_generation p) | Some g \<Rightarrow> Some g),
                           summary_source := source\<rparr>
                    else p)
          in p'\<lparr>last_height_response_at := Some now, last_activity := Some now\<rparr>)) r"

definition note_peer_summary :: "string \<Rightarrow> chain_summary \<Rightarrow> instant \<Rightarrow> peer_registry \<Rightarrow> peer_registry" where
  "note_peer_summary a s now r = note_peer_summary_from a s None None now r"

definition record_height_poll_sent :: "string \<Rightarrow> instant \<Rightarrow> peer_registry \<Rightarrow> peer_registry" where
  "record_height_poll_sent a now r = modify_peer a (\<lambda>p. p\<lparr>last_height_poll_sent_at := Some now\<rparr>) r"

definition resolve_inbound_peer_key ::
  "string \<Rightarrow> handshake \<Rightarrow> bool \<Rightarrow> peer_registry \<Rightarrow> peer_registry \<times> (advertised_error + string)" where
  "resolve_inbound_peer_key observed hs allow_private r =
     (case validated_advertised_addr (hs_advertised_ip hs) (hs_advertised_port hs) allow_private of
        Inl e \<Rightarrow> (r, Inl e)
      | Inr resolved \<Rightarrow>
          (let durable = (case resolved of Some a \<Rightarrow> a | None \<Rightarrow> observed);
               p0 = (case bt_lookup r durable of Some p \<Rightarrow> p | None \<Rightarrow> peer_new durable False);
               p1 = p0\<lparr>observed_addr := Some observed\<rparr>;
               p2 = (if durable \<noteq> observed then p1\<lparr>advertised_addr := Some durable\<rparr> else p1)
           in (bt_insert durable p2 r, Inr durable)))"

definition note_observed_addr :: "string \<Rightarrow> string \<Rightarrow> peer_registry \<Rightarrow> peer_registry" where
  "note_observed_addr a observed r = modify_peer a (\<lambda>p. p\<lparr>observed_addr := Some observed\<rparr>) r"

section \<open>Queries\<close>

definition registry_values :: "peer_registry \<Rightarrow> peer list" where
  "registry_values r = map snd r"

definition live :: "instant \<Rightarrow> peer \<Rightarrow> bool" where
  "live now p \<longleftrightarrow> state p = Connected \<and> is_height_fresh now p \<and> \<not> is_height_poll_stalled now p"

text \<open>\<open>Iterator::max\<close> and \<open>max_by\<close>: of equal elements the last.\<close>

datatype ordering = LessThan | EqualTo | GreaterThan

definition cmp_of :: "'a::linorder \<Rightarrow> 'a \<Rightarrow> ordering" where
  "cmp_of a b = (if a < b then LessThan else if a = b then EqualTo else GreaterThan)"

definition then_with :: "ordering \<Rightarrow> ordering \<Rightarrow> ordering" where
  "then_with o1 o2 = (case o1 of EqualTo \<Rightarrow> o2 | _ \<Rightarrow> o1)"

fun max_by :: "('a \<Rightarrow> 'a \<Rightarrow> ordering) \<Rightarrow> 'a list \<Rightarrow> 'a option" where
  "max_by cmp [] = None"
| "max_by cmp (x # xs) =
     Some (foldl (\<lambda>a b. if cmp a b = GreaterThan then a else b) x xs)"

definition best_remote_height :: "instant \<Rightarrow> peer list \<Rightarrow> u64" where
  "best_remote_height now ps =
     (case max_by cmp_of (map height (filter (live now) ps)) of None \<Rightarrow> 0 | Some h \<Rightarrow> h)"

definition connected_count :: "peer list \<Rightarrow> nat" where
  "connected_count ps = length (filter (\<lambda>p. state p = Connected) ps)"

definition outbound_count :: "peer list \<Rightarrow> nat" where
  "outbound_count ps = length (filter (\<lambda>p. state p = Connected \<and> is_outbound p) ps)"

definition dialable_addresses :: "nat \<Rightarrow> peer list \<Rightarrow> string list" where
  "dialable_addresses limit ps =
     take limit (remdups_adj (sort
       (map addr (filter (\<lambda>p. is_outbound p \<or> advertised_addr p \<noteq> None) ps))))"

definition by_height :: "peer \<Rightarrow> peer \<Rightarrow> ordering" where
  "by_height a b = then_with (cmp_of (height a) (height b)) (cmp_of (addr b) (addr a))"

definition best_sync_target :: "instant \<Rightarrow> u64 \<Rightarrow> peer list \<Rightarrow> string option" where
  "best_sync_target now local_height ps =
     map_option addr (max_by by_height (filter (\<lambda>p. live now p \<and> height p > local_height) ps))"

definition by_work :: "peer \<Rightarrow> peer \<Rightarrow> ordering" where
  "by_work a b =
     then_with (then_with (cmp_of (peer_work a) (peer_work b)) (cmp_of (height a) (height b)))
       (cmp_of (addr b) (addr a))"

definition ahead :: "instant \<Rightarrow> string \<Rightarrow> u128 \<Rightarrow> peer \<Rightarrow> bool" where
  "ahead now local_tip local_work p \<longleftrightarrow>
     live now p \<and> peer_work p > local_work \<and> peer_tip p \<noteq> Some local_tip \<and> peer_tip p \<noteq> None"

definition best_work_sync_target :: "instant \<Rightarrow> string \<Rightarrow> u128 \<Rightarrow> peer list \<Rightarrow> string option" where
  "best_work_sync_target now local_tip local_work ps =
     map_option addr (max_by by_work (filter (ahead now local_tip local_work) ps))"

definition peer_counts :: "peer list \<Rightarrow> peer_counts_report" where
  "peer_counts ps =
     \<lparr>durable_peers = length ps,
      active_inbound_sessions = length (filter (\<lambda>p. state p = Connected \<and> \<not> is_outbound p) ps),
      active_outbound_sessions = length (filter (\<lambda>p. state p = Connected \<and> is_outbound p) ps),
      transient_connections =
        length (filter (\<lambda>p. state p = Connected \<and> advertised_addr p = None \<and> \<not> is_outbound p) ps),
      dialable_peers = length (filter (\<lambda>p. is_outbound p \<or> advertised_addr p \<noteq> None) ps)\<rparr>"

definition peer_generation :: "peer_registry \<Rightarrow> string \<Rightarrow> u64 option" where
  "peer_generation r a = map_option connection_generation (bt_lookup r a)"

definition peer_summary :: "peer_registry \<Rightarrow> string \<Rightarrow> chain_summary option" where
  "peer_summary r a = map_option peer_summary_of (bt_lookup r a)"

end
