(* ===== verification/Peer_Registry.thy ===== *)
theory Peer_Registry
  imports Peer_Manager
begin

text \<open>
  The laws of the peer registry: the interface of a map whose entries satisfy a condition that
  depends on their key, the interface of a total comparison and what \<open>max_by\<close> selects with it,
  the invariant of the registry, and the operations as the steps of a transition system.
\<close>

section \<open>Keyed entries\<close>

locale keyed_entries = ordered_map lookup ins del entries invar
  for lookup :: "'m \<Rightarrow> 'k::linorder \<Rightarrow> 'v option" and ins :: "'k \<Rightarrow> 'v \<Rightarrow> 'm \<Rightarrow> 'm"
    and del :: "'k \<Rightarrow> 'm \<Rightarrow> 'm" and entries :: "'m \<Rightarrow> ('k \<times> 'v) list" and invar :: "'m \<Rightarrow> bool" +
  fixes entry_ok :: "'k \<Rightarrow> 'v \<Rightarrow> bool" and key_of :: "'v \<Rightarrow> 'k"
  assumes key_of_entry: "entry_ok k v \<Longrightarrow> key_of v = k"
begin

definition all_ok :: "'m \<Rightarrow> bool" where
  "all_ok m \<longleftrightarrow> invar m \<and> (\<forall>k v. lookup m k = Some v \<longrightarrow> entry_ok k v)"

lemma all_ok_ins: "all_ok m \<Longrightarrow> entry_ok k v \<Longrightarrow> all_ok (ins k v m)"
  by (auto simp: all_ok_def invar_ins lookup_ins)

lemma all_ok_del: "all_ok m \<Longrightarrow> all_ok (del k m)"
  by (auto simp: all_ok_def invar_del lookup_del)

lemma entry_of_value:
  assumes "all_ok m"
  shows "v \<in> set (map snd (entries m)) \<longleftrightarrow> lookup m (key_of v) = Some v"
proof
  assume "v \<in> set (map snd (entries m))"
  then obtain k where "(k, v) \<in> set (entries m)" by auto
  then have l: "lookup m k = Some v" using assms set_entries by (auto simp: all_ok_def)
  then have "key_of v = k" using assms key_of_entry by (auto simp: all_ok_def)
  then show "lookup m (key_of v) = Some v" using l by simp
next
  assume "lookup m (key_of v) = Some v"
  then have "(key_of v, v) \<in> set (entries m)" using assms set_entries by (auto simp: all_ok_def)
  then show "v \<in> set (map snd (entries m))" by force
qed

lemma keys_of_values:
  assumes "all_ok m"
  shows "map key_of (map snd (entries m)) = map fst (entries m)"
proof -
  have "key_of v = k" if "(k, v) \<in> set (entries m)" for k v
    using that assms set_entries key_of_entry by (auto simp: all_ok_def)
  then show ?thesis by auto
qed

end

section \<open>Selection\<close>

locale total_compare =
  fixes cmp :: "'a \<Rightarrow> 'a \<Rightarrow> ordering"
  assumes cmp_trans: "cmp a b \<noteq> GreaterThan \<Longrightarrow> cmp b c \<noteq> GreaterThan \<Longrightarrow> cmp a c \<noteq> GreaterThan"
    and cmp_flip: "cmp a b = GreaterThan \<Longrightarrow> cmp b a \<noteq> GreaterThan"
    and cmp_refl: "cmp a a \<noteq> GreaterThan"
begin

lemma fold_pick:
  assumes one: "\<And>a b. pick a b = a \<or> pick a b = b"
    and left: "\<And>a b. cmp a (pick a b) \<noteq> GreaterThan" and right: "\<And>a b. cmp b (pick a b) \<noteq> GreaterThan"
  shows "foldl pick x xs \<in> set (x # xs) \<and> (\<forall>y\<in>set (x # xs). cmp y (foldl pick x xs) \<noteq> GreaterThan)"
proof (induction xs arbitrary: x)
  case Nil
  then show ?case by (simp add: cmp_refl)
next
  case (Cons z zs)
  have ih: "foldl pick (pick x z) zs \<in> set (pick x z # zs)"
    "cmp y (foldl pick (pick x z) zs) \<noteq> GreaterThan" if "y \<in> set (pick x z # zs)" for y
    using Cons.IH [of "pick x z"] that by blast+
  have top: "cmp (pick x z) (foldl pick (pick x z) zs) \<noteq> GreaterThan" by (rule ih(2)) simp
  have "foldl pick (pick x z) zs \<in> set (x # z # zs)"
    using Cons.IH [of "pick x z"] one [of x z] by (metis list.set_intros(1,2) set_ConsD)
  moreover have "cmp y (foldl pick (pick x z) zs) \<noteq> GreaterThan" if "y \<in> set (x # z # zs)" for y
    using that ih(2) [of y] cmp_trans [OF left [of x z] top] cmp_trans [OF right [of z x] top] by auto
  ultimately show ?case by simp
qed

lemma fold_greatest:
  "foldl (\<lambda>a b. if cmp a b = GreaterThan then a else b) x xs \<in> set (x # xs)
    \<and> (\<forall>y\<in>set (x # xs). cmp y (foldl (\<lambda>a b. if cmp a b = GreaterThan then a else b) x xs) \<noteq> GreaterThan)"
  by (rule fold_pick) (use cmp_refl cmp_flip in auto)

lemma max_by_SomeD:
  assumes "max_by cmp xs = Some m"
  shows "m \<in> set xs" "x \<in> set xs \<Longrightarrow> cmp x m \<noteq> GreaterThan"
proof -
  obtain y ys where xs: "xs = y # ys" using assms by (cases xs) auto
  then have m: "m = foldl (\<lambda>a b. if cmp a b = GreaterThan then a else b) y ys" using assms by simp
  show "m \<in> set xs" unfolding m xs using fold_greatest by blast
  show "x \<in> set xs \<Longrightarrow> cmp x m \<noteq> GreaterThan" unfolding m xs using fold_greatest by blast
qed

lemma max_by_None: "max_by cmp xs = None \<longleftrightarrow> xs = []"
  by (cases xs) auto

end

lemma cmp_of_simps [simp]:
  "cmp_of a b = GreaterThan \<longleftrightarrow> b < a" "cmp_of a b = EqualTo \<longleftrightarrow> a = b" "cmp_of a b = LessThan \<longleftrightarrow> a < b"
  for a b :: "'a::linorder"
  by (auto simp: cmp_of_def)

lemma then_with_simps [simp]:
  "then_with p q = GreaterThan \<longleftrightarrow> p = GreaterThan \<or> p = EqualTo \<and> q = GreaterThan"
  "then_with p q = EqualTo \<longleftrightarrow> p = EqualTo \<and> q = EqualTo"
  by (cases p; simp add: then_with_def)+

interpretation heights: total_compare "cmp_of :: u64 \<Rightarrow> u64 \<Rightarrow> ordering"
  by unfold_locales auto

interpretation by_height: total_compare by_height
  by unfold_locales (auto simp: by_height_def)

interpretation by_work: total_compare by_work
  by unfold_locales (auto simp: by_work_def)

section \<open>The invariant of the registry\<close>

text \<open>A peer is stored under its own address; an advertised address is that address; data about
  its chain is there only with the instant it was learnt at.\<close>

definition peer_ok :: "string \<Rightarrow> peer \<Rightarrow> bool" where
  "peer_ok a p \<longleftrightarrow>
     addr p = a \<and> advertised_addr p \<in> {None, Some a}
     \<and> (last_height_updated_at p = None \<longrightarrow>
          height p = 0 \<and> peer_tip p = None \<and> peer_work p = 0
          \<and> summary_generation p = None \<and> summary_source p = None)
     \<and> (last_height_updated_at p \<noteq> None \<longrightarrow> last_height_response_at p \<noteq> None)
     \<and> (last_height_response_at p \<noteq> None \<longrightarrow> last_activity p \<noteq> None)"

interpretation registry: keyed_entries bt_lookup bt_insert bt_remove bt_entries bt_wf peer_ok addr
  by unfold_locales (simp add: peer_ok_def)

abbreviation registry_ok :: "peer_registry \<Rightarrow> bool" where
  "registry_ok \<equiv> registry.all_ok"

lemma registry_lookup_ok: "registry_ok r \<Longrightarrow> bt_lookup r a = Some p \<Longrightarrow> peer_ok a p"
  by (simp add: registry.all_ok_def)

lemma registry_ok_Nil [simp]: "registry_ok []"
  by (simp add: registry.all_ok_def)

lemma registry_ok_modify:
  assumes "registry_ok r" "\<And>p. peer_ok a p \<Longrightarrow> peer_ok a (f p)"
  shows "registry_ok (modify_peer a f r)"
  using assms registry_lookup_ok [OF assms(1)]
  by (auto simp: modify_peer_def intro!: registry.all_ok_ins split: option.split)

lemma lookup_modify:
  "bt_lookup (modify_peer a f r) b = (if b = a then map_option f (bt_lookup r a) else bt_lookup r b)"
  by (auto simp: modify_peer_def split: option.split)

lemma peer_ok_new [simp]: "peer_ok a (peer_new a out)"
  by (simp add: peer_ok_def peer_new_def)

lemma peer_ok_clear: "peer_ok a p \<Longrightarrow> peer_ok a (clear_peer_summary p)"
  by (simp add: peer_ok_def clear_peer_summary_def)

text \<open>The steps that change the registry.\<close>

inductive registry_step :: "peer_registry \<Rightarrow> peer_registry \<Rightarrow> bool" where
  "registry_step r (upsert a out r)"
| "registry_step r (set_state a s r)"
| "registry_step r (fst (disconnect_if_generation a g r))"
| "registry_step r (connect_session a g r)"
| "registry_step r (note_peer_height a h now r)"
| "registry_step r (note_peer_summary_from a s go src now r)"
| "registry_step r (record_height_poll_sent a now r)"
| "registry_step r (fst (resolve_inbound_peer_key obs hs allow r))"
| "registry_step r (note_observed_addr a obs r)"

inductive registry_reached :: "peer_registry \<Rightarrow> bool" where
  reg_start: "registry_reached []"
| reg_step: "registry_reached r \<Longrightarrow> registry_step r r' \<Longrightarrow> registry_reached r'"

lemma peer_ok_state: "peer_ok a p \<Longrightarrow> peer_ok a (p\<lparr>state := s\<rparr>)"
  by (simp add: peer_ok_def)

lemma registry_ok_upsert: "registry_ok r \<Longrightarrow> registry_ok (upsert a out r)"
  using registry_lookup_ok [of r a]
  by (auto simp: upsert_def peer_ok_def peer_new_def intro!: registry.all_ok_ins split: option.split)

lemma registry_ok_set_state: "registry_ok r \<Longrightarrow> registry_ok (set_state a s r)"
  unfolding set_state_def
  by (rule registry_ok_modify) (auto simp: Let_def intro: peer_ok_clear peer_ok_state)

lemma registry_ok_disconnect: "registry_ok r \<Longrightarrow> registry_ok (fst (disconnect_if_generation a g r))"
  using registry_lookup_ok [of r a]
  by (auto simp: disconnect_if_generation_def intro!: registry.all_ok_ins peer_ok_clear peer_ok_state
      split: option.split)

lemma registry_ok_note_summary: "registry_ok r \<Longrightarrow> registry_ok (note_peer_summary_from a s go src now r)"
  unfolding note_peer_summary_from_def
  by (rule registry_ok_modify) (auto simp: Let_def peer_ok_def)

lemma registry_ok_resolve: "registry_ok r \<Longrightarrow> registry_ok (fst (resolve_inbound_peer_key obs hs allow r))"
  using registry_lookup_ok [of r]
  by (auto simp: resolve_inbound_peer_key_def Let_def peer_ok_def peer_new_def
      intro!: registry.all_ok_ins split: sum.split option.split)

lemma registry_ok_step: "registry_step r r' \<Longrightarrow> registry_ok r \<Longrightarrow> registry_ok r'"
proof (induction rule: registry_step.induct)
  case (4 r a g)
  then show ?case unfolding connect_session_def
    by (rule registry_ok_modify) (simp add: peer_ok_def)
next
  case (5 r a h now)
  then show ?case unfolding note_peer_height_def
    by (rule registry_ok_modify) (simp add: peer_ok_def)
next
  case (7 r a now)
  then show ?case unfolding record_height_poll_sent_def
    by (rule registry_ok_modify) (simp add: peer_ok_def)
next
  case (9 r a obs)
  then show ?case unfolding note_observed_addr_def
    by (rule registry_ok_modify) (simp add: peer_ok_def)
qed (simp_all add: registry_ok_upsert registry_ok_set_state registry_ok_disconnect
    registry_ok_note_summary registry_ok_resolve)

lemma registry_reached_ok: "registry_reached r \<Longrightarrow> registry_ok r"
  by (induction rule: registry_reached.induct) (auto intro: registry_ok_step)

section \<open>Generations\<close>

lemma generation_modify:
  assumes "bt_lookup r a = Some p" "\<And>p. connection_generation p \<le> connection_generation (f p)"
  shows "\<exists>p'. bt_lookup (modify_peer b f r) a = Some p' \<and> connection_generation p \<le> connection_generation p'"
  using assms by (cases "a = b") (auto simp: lookup_modify)

lemma generation_clear [simp]: "connection_generation (clear_peer_summary p) = connection_generation p"
  by (simp add: clear_peer_summary_def)

lemma generation_step:
  assumes "registry_step r r'" "bt_lookup r a = Some p"
  shows "\<exists>p'. bt_lookup r' a = Some p' \<and> connection_generation p \<le> connection_generation p'"
  using assms
proof (cases rule: registry_step.cases)
  case (1 b out)
  then show ?thesis using assms(2) by (auto simp: upsert_def split: option.split)
next
  case (3 b g)
  then show ?thesis using assms(2)
    by (auto simp: disconnect_if_generation_def split: option.split)
next
  case (8 obs hs allow)
  then show ?thesis using assms(2)
    by (auto simp: resolve_inbound_peer_key_def Let_def split: sum.split option.split)
qed (use assms(2) in \<open>simp_all add: set_state_def connect_session_def note_peer_height_def
    note_peer_summary_from_def record_height_poll_sent_def note_observed_addr_def Let_def
    generation_modify\<close>)

text \<open>A peer that a step takes out of another state into \<open>Disconnected\<close> has lost what was known
  of its chain.\<close>

lemma disconnect_step:
  assumes "registry_step r r'" "bt_lookup r a = Some p" "bt_lookup r' a = Some p'"
    and "state p \<noteq> Disconnected" "state p' = Disconnected"
  shows "p' = clear_peer_summary p'"
  using assms(1)
proof (cases rule: registry_step.cases)
  case (1 b out)
  then show ?thesis using assms by (auto simp: upsert_def split: if_splits option.splits)
next
  case (2 b s)
  then show ?thesis using assms
    by (auto simp: set_state_def lookup_modify Let_def clear_peer_summary_def split: if_splits)
next
  case (3 b g)
  then show ?thesis using assms
    by (auto simp: disconnect_if_generation_def clear_peer_summary_def split: if_splits option.splits)
next
  case (4 b g)
  then show ?thesis using assms by (auto simp: connect_session_def lookup_modify split: if_splits)
next
  case (5 b h now)
  then show ?thesis using assms by (auto simp: note_peer_height_def lookup_modify split: if_splits)
next
  case (6 b s go src now)
  then show ?thesis using assms
    by (auto simp: note_peer_summary_from_def lookup_modify Let_def split: if_splits option.splits)
next
  case (7 b now)
  then show ?thesis using assms by (auto simp: record_height_poll_sent_def lookup_modify split: if_splits)
next
  case (8 obs hs allow)
  then show ?thesis using assms
    by (auto simp: resolve_inbound_peer_key_def Let_def split: sum.splits option.splits if_splits)
next
  case (9 b obs)
  then show ?thesis using assms by (auto simp: note_observed_addr_def lookup_modify split: if_splits)
qed

section \<open>Values in any order\<close>

lemma value_lookup:
  assumes "registry_ok r" "mset ps = mset (registry_values r)"
  shows "p \<in> set ps \<longleftrightarrow> bt_lookup r (addr p) = Some p"
proof -
  have "set ps = set (registry_values r)" using assms(2) by (rule mset_eq_setD)
  then show ?thesis using registry.entry_of_value [OF assms(1), of p]
    by (simp add: registry_values_def bt_entries_def)
qed

lemma lookup_value:
  assumes "registry_ok r" "mset ps = mset (registry_values r)" "bt_lookup r a = Some p"
  shows "p \<in> set ps" "addr p = a"
  using value_lookup [OF assms(1,2), of p] registry_lookup_ok [OF assms(1,3)] assms(3)
  by (auto simp: peer_ok_def)

text \<open>A selection by a total comparison that breaks ties by the address is the greatest entry, in
  whatever order the entries are visited.\<close>

lemma select_greatest:
  assumes ok: "registry_ok r" and ps: "mset ps = mset (registry_values r)"
    and tc: "total_compare cmp"
    and tie: "\<And>p q. cmp p q \<noteq> GreaterThan \<Longrightarrow> cmp q p \<noteq> GreaterThan \<Longrightarrow> addr p = addr q"
  shows "map_option addr (max_by cmp (filter P ps)) = Some a \<longleftrightarrow>
    (\<exists>p. bt_lookup r a = Some p \<and> P p
       \<and> (\<forall>b q. bt_lookup r b = Some q \<longrightarrow> P q \<longrightarrow> cmp q p \<noteq> GreaterThan))"
proof
  assume "map_option addr (max_by cmp (filter P ps)) = Some a"
  then obtain p where m: "max_by cmp (filter P ps) = Some p" and a: "addr p = a" by auto
  have "p \<in> set (filter P ps)" using total_compare.max_by_SomeD(1) [OF tc m] .
  then have p: "bt_lookup r a = Some p" "P p" using value_lookup [OF ok ps, of p] a by simp_all
  have "cmp q p \<noteq> GreaterThan" if q: "bt_lookup r b = Some q" "P q" for b q
  proof (rule total_compare.max_by_SomeD(2) [OF tc m])
    show "q \<in> set (filter P ps)" using lookup_value(1) [OF ok ps q(1)] q(2) by simp
  qed
  with p show "\<exists>p. bt_lookup r a = Some p \<and> P p
       \<and> (\<forall>b q. bt_lookup r b = Some q \<longrightarrow> P q \<longrightarrow> cmp q p \<noteq> GreaterThan)" by blast
next
  assume "\<exists>p. bt_lookup r a = Some p \<and> P p
       \<and> (\<forall>b q. bt_lookup r b = Some q \<longrightarrow> P q \<longrightarrow> cmp q p \<noteq> GreaterThan)"
  then obtain p where p: "bt_lookup r a = Some p" "P p"
    and g: "\<And>b q. bt_lookup r b = Some q \<Longrightarrow> P q \<Longrightarrow> cmp q p \<noteq> GreaterThan" by blast
  have in_ps: "p \<in> set (filter P ps)" and ap: "addr p = a"
    using lookup_value [OF ok ps p(1)] p(2) by simp_all
  then have "filter P ps \<noteq> []" by (metis empty_iff empty_set)
  then have "max_by cmp (filter P ps) \<noteq> None" by (simp only: total_compare.max_by_None [OF tc] not_False_eq_True)
  then obtain m where m: "max_by cmp (filter P ps) = Some m" by blast
  have "m \<in> set (filter P ps)" using total_compare.max_by_SomeD(1) [OF tc m] .
  then have mp: "cmp m p \<noteq> GreaterThan" using g [of "addr m" m] value_lookup [OF ok ps, of m] by simp
  have "cmp p m \<noteq> GreaterThan" using total_compare.max_by_SomeD(2) [OF tc m in_ps] .
  then have "addr m = addr p" using tie [OF mp] by simp
  then show "map_option addr (max_by cmp (filter P ps)) = Some a" using m ap by simp
qed

end
