(* ===== verification/Net_Parse.thy ===== *)
theory Net_Parse
  imports Net_Addr
begin

text \<open>
  The address parsers accept what the standard library prints: decimal octets and ports are read
  back, alone and inside the textual forms of IPv4, of IPv4-mapped IPv6 and of socket addresses.
\<close>

definition ipv4_text :: "u8 \<Rightarrow> u8 \<Rightarrow> u8 \<Rightarrow> u8 \<Rightarrow> string" where
  "ipv4_text a b c d =
     dec_of_nat (unat a) @ ''.'' @ dec_of_nat (unat b) @ ''.'' @ dec_of_nat (unat c) @ ''.'' @ dec_of_nat (unat d)"

definition no_digit :: "string \<Rightarrow> bool" where
  "no_digit s = (case s of [] \<Rightarrow> True | c # cs \<Rightarrow> to_digit 10 c = None)"

lemma to_digit_digit_char: "d < 10 \<Longrightarrow> to_digit 10 (digit_char d) = Some d"
  by (simp add: to_digit_def digit_char_def)

lemma read_digits_append:
  "list_all (\<lambda>c. to_digit radix c \<noteq> None) xs \<Longrightarrow>
   read_digits radix acc k (xs @ ys) =
     (case read_digits radix acc k xs of (v, j, _) \<Rightarrow> read_digits radix v j ys)"
  by (induction xs arbitrary: acc k) (auto split: option.split)

lemma dec_of_nat_digits: "list_all (\<lambda>c. to_digit 10 c \<noteq> None) (dec_of_nat n)"
  using set_dec_of_nat to_digit_digit_char by (fastforce simp: list_all_iff)

lemma read_digits_stop: "no_digit rest \<Longrightarrow> read_digits 10 acc k rest = (acc, k, rest)"
  by (cases rest) (auto simp: no_digit_def)

lemma read_digits_dec: "read_digits 10 acc k (dec_of_nat n) =
    (acc * 10 ^ length (dec_of_nat n) + n, k + length (dec_of_nat n), [])"
proof (induction n arbitrary: acc k rule: dec_of_nat.induct)
  case (1 n)
  show ?case
  proof (cases "n < 10")
    case True
    then show ?thesis by (simp add: dec_of_nat.simps [of n] to_digit_digit_char)
  next
    case False
    have "10 * (acc * 10 ^ length (dec_of_nat (n div 10)) + n div 10) + n mod 10
        = acc * (10 * 10 ^ length (dec_of_nat (n div 10))) + n"
      by (simp add: algebra_simps)
    then show ?thesis using False 1
      by (simp add: dec_of_nat.simps [of n] read_digits_append [OF dec_of_nat_digits]
          to_digit_digit_char algebra_simps)
  qed
qed

lemma length_dec_le: "n < 10 ^ Suc k \<Longrightarrow> length (dec_of_nat n) \<le> Suc k"
proof (induction k arbitrary: n)
  case 0
  then show ?case by (simp add: dec_of_nat.simps [of n])
next
  case (Suc k)
  then show ?case using Suc.IH [of "n div 10"] by (simp add: dec_of_nat.simps [of n])
qed

lemma hd_dec_zero: "hd (dec_of_nat n) = CHR ''0'' \<Longrightarrow> length (dec_of_nat n) = 1"
proof (induction n rule: dec_of_nat.induct)
  case (1 n)
  show ?case
  proof (cases "n < 10")
    case True
    then show ?thesis by (simp add: dec_of_nat.simps [of n])
  next
    case False
    then have "hd (dec_of_nat (n div 10)) = CHR ''0''"
      using 1(2) by (simp add: dec_of_nat.simps [of n])
    then have one: "length (dec_of_nat (n div 10)) = 1" using 1(1) False by simp
    have small: "n div 10 < 10"
    proof (rule ccontr)
      assume "\<not> n div 10 < 10"
      then show False using one by (simp add: dec_of_nat.simps [of "n div 10"])
    qed
    then have "dec_of_nat (n div 10) = [digit_char (n div 10)]" by (simp add: dec_of_nat.simps [of "n div 10"])
    then have d: "digit_char (n div 10) = CHR ''0''" using \<open>hd (dec_of_nat (n div 10)) = CHR ''0''\<close> by simp
    have "to_digit 10 (digit_char (n div 10)) = Some (n div 10)" using small by (rule to_digit_digit_char)
    then have "n div 10 = 0" unfolding d by (simp add: to_digit_def)
    then show ?thesis using False by simp
  qed
qed

lemma read_number_dec:
  assumes "n < limit" "no_digit rest" "\<And>k. md = Some k \<Longrightarrow> length (dec_of_nat n) \<le> k"
  shows "read_number 10 md zero limit (dec_of_nat n @ rest) = Some (n, rest)"
proof -
  have r: "read_digits 10 0 0 (dec_of_nat n @ rest) = (n, length (dec_of_nat n), rest)"
    using assms(2) by (simp add: read_digits_append [OF dec_of_nat_digits] read_digits_dec read_digits_stop)
  have "hd (dec_of_nat n @ rest) = hd (dec_of_nat n)" by (simp add: hd_append)
  then have z: "hd (dec_of_nat n @ rest) = CHR ''0'' \<Longrightarrow> length (dec_of_nat n) = 1" using hd_dec_zero by simp
  have m: "\<not> (case md of None \<Rightarrow> False | Some k \<Rightarrow> k < length (dec_of_nat n))"
    using assms(3) by (auto split: option.split simp: not_less)
  show ?thesis unfolding read_number_def r using z m assms(1) by auto
qed

lemma read_octet_dec:
  assumes "no_digit rest"
  shows "read_octet 0 (dec_of_nat (unat (a :: u8)) @ rest) = Some (a, rest)"
    and "read_octet (Suc i) (CHR ''.'' # dec_of_nat (unat (a :: u8)) @ rest) = Some (a, rest)"
proof -
  have "unat a < 256" using unsigned_less [of a] by simp
  moreover from this have "length (dec_of_nat (unat a)) \<le> 3" using length_dec_le [of "unat a" 2] by simp
  ultimately have "read_number 10 (Some 3) False 256 (dec_of_nat (unat a) @ rest) = Some (unat a, rest)"
    using assms by (intro read_number_dec) auto
  then show "read_octet 0 (dec_of_nat (unat a) @ rest) = Some (a, rest)"
    "read_octet (Suc i) (CHR ''.'' # dec_of_nat (unat a) @ rest) = Some (a, rest)"
    by (simp_all add: read_octet_def read_separator_def)
qed

lemma no_digit_simps [simp]:
  "no_digit []" "no_digit (CHR ''.'' # s)" "no_digit (CHR '':'' # s)" "no_digit (CHR '']'' # s)"
  by (simp_all add: no_digit_def to_digit_def)

lemma read_ipv4_text:
  assumes "no_digit rest"
  shows "read_ipv4_addr (ipv4_text a b c d @ rest) = Some (IpV4 a b c d, rest)"
proof -
  let ?r3 = "CHR ''.'' # dec_of_nat (unat d) @ rest"
  let ?r2 = "CHR ''.'' # dec_of_nat (unat c) @ ?r3"
  let ?r1 = "CHR ''.'' # dec_of_nat (unat b) @ ?r2"
  have 0: "read_octet 0 (dec_of_nat (unat a) @ ?r1) = Some (a, ?r1)"
    by (rule read_octet_dec(1)) simp
  have 1: "read_octet (Suc 0) ?r1 = Some (b, ?r2)" by (rule read_octet_dec(2)) simp
  have 2: "read_octet (Suc 1) ?r2 = Some (c, ?r3)" by (rule read_octet_dec(2)) simp
  have 3: "read_octet (Suc 2) ?r3 = Some (d, rest)" using assms by (rule read_octet_dec(2))
  have n: "Suc 1 = 2" "Suc 2 = 3" by simp_all
  show ?thesis unfolding read_ipv4_addr_def ipv4_text_def append_assoc
    using 0 1 2 [unfolded n] 3 [unfolded n] by simp
qed

lemma read_port_dec: "no_digit rest \<Longrightarrow> read_port (CHR '':'' # u16_to_string p @ rest) = Some (p, rest)"
proof -
  assume r: "no_digit rest"
  have "unat p < 65536" using unsigned_less [of p] by simp
  then have "read_number 10 None True 65536 (dec_of_nat (unat p) @ rest) = Some (unat p, rest)"
    using r by (intro read_number_dec) auto
  then show ?thesis by (simp add: read_port_def u16_to_string_def)
qed

text \<open>The textual forms of a socket address with an IPv4 address and with the IPv6 address that
  maps it.\<close>

definition socket_v4_text :: "u8 \<Rightarrow> u8 \<Rightarrow> u8 \<Rightarrow> u8 \<Rightarrow> u16 \<Rightarrow> string" where
  "socket_v4_text a b c d p = ipv4_text a b c d @ '':'' @ u16_to_string p"

definition socket_mapped_text :: "u8 \<Rightarrow> u8 \<Rightarrow> u8 \<Rightarrow> u8 \<Rightarrow> u16 \<Rightarrow> string" where
  "socket_mapped_text a b c d p = ''[::ffff:'' @ ipv4_text a b c d @ '']:'' @ u16_to_string p"

definition mapped_ip :: "u8 \<Rightarrow> u8 \<Rightarrow> u8 \<Rightarrow> u8 \<Rightarrow> ip_addr" where
  "mapped_ip a b c d = IpV6 ([0, 0, 0, 0, 0, 65535] @ octets_to_groups (IpV4 a b c d))"

lemma parse_socket_v4_text: "parse_socket_addr (socket_v4_text a b c d p) = Some (SocketV4 (IpV4 a b c d) p)"
proof -
  have "read_ipv4_addr (ipv4_text a b c d @ CHR '':'' # u16_to_string p)
      = Some (IpV4 a b c d, CHR '':'' # u16_to_string p)" by (rule read_ipv4_text) simp
  then show ?thesis
    using read_port_dec [of "[]" p]
    by (simp add: parse_socket_addr_def parse_with_def read_socket_addr_v4_def socket_v4_text_def)
qed

lemma read_ipv4_no_start: "to_digit 10 c = None \<Longrightarrow> read_ipv4_addr (c # s) = None"
  by (simp add: read_ipv4_addr_def read_octet_def read_separator_def read_number_def)

lemma read_mapped_tail:
  "read_groups 0 7 (''ffff:'' @ ipv4_text a b c d @ '']'' @ s)
     = (65535 # octets_to_groups (IpV4 a b c d), True, '']'' @ s)"
proof -
  have f: "read_ipv4_addr (''ffff:'' @ r) = None" for r
    using read_ipv4_no_start [of "CHR ''f''"] by (simp add: to_digit_def)
  have n: "read_number 16 (Some 4) True 65536 (''ffff:'' @ r) = Some (65535, CHR '':'' # r)" for r
    by (simp add: read_number_def to_digit_def)
  have v: "read_ipv4_addr (ipv4_text a b c d @ '']'' @ s) = Some (IpV4 a b c d, '']'' @ s)"
    by (rule read_ipv4_text) simp
  have two: "read_groups 1 6 (CHR '':'' # ipv4_text a b c d @ '']'' @ s)
      = (octets_to_groups (IpV4 a b c d), True, '']'' @ s)"
    using v by (simp add: numeral_eq_Suc read_separator_def)
  have "read_groups 0 (Suc 6) (''ffff:'' @ ipv4_text a b c d @ '']'' @ s)
     = (word_of_nat 65535 # octets_to_groups (IpV4 a b c d), True, '']'' @ s)"
    unfolding read_groups.simps(2) read_separator_def
    using f [of "ipv4_text a b c d @ '']'' @ s"] n [of "ipv4_text a b c d @ '']'' @ s"] two
    by (simp del: read_groups.simps append.simps)
  moreover have "(7 :: nat) = Suc 6" by simp
  ultimately show ?thesis by (simp only: of_nat_numeral)
qed

lemma read_mapped_ipv6:
  "read_ipv6_addr (''::ffff:'' @ ipv4_text a b c d @ '']'' @ s) = Some (mapped_ip a b c d, '']'' @ s)"
proof -
  have g: "read_groups 0 (Suc n) (''::'' @ r) = ([], False, ''::'' @ r)" for r n
    using read_ipv4_no_start [of "CHR '':''" "CHR '':'' # r"]
    by (simp add: read_separator_def read_number_def to_digit_def)
  have e: "(8 :: nat) = Suc 7" by simp
  have h: "read_groups 0 8 (''::'' @ r) = ([], False, ''::'' @ r)" for r
    unfolding e by (rule g)
  have "read_ipv6_addr (''::'' @ ''ffff:'' @ ipv4_text a b c d @ '']'' @ s)
      = Some (mapped_ip a b c d, '']'' @ s)"
    unfolding read_ipv6_addr_def h using read_mapped_tail [of a b c d s]
    by (simp add: mapped_ip_def octets_to_groups_def numeral_eq_Suc)
  then show ?thesis by simp
qed

lemma parse_socket_mapped_text:
  "parse_socket_addr (socket_mapped_text a b c d p) = Some (SocketV6 (mapped_ip a b c d) p 0)"
proof -
  have v4: "read_socket_addr_v4 (CHR ''['' # s) = None" for s
    using read_ipv4_no_start [of "CHR ''[''" s] by (simp add: read_socket_addr_v4_def to_digit_def)
  have v6: "read_ipv6_addr (''::ffff:'' @ ipv4_text a b c d @ '']'' @ CHR '':'' # u16_to_string p)
      = Some (mapped_ip a b c d, '']'' @ CHR '':'' # u16_to_string p)" by (rule read_mapped_ipv6)
  have "read_socket_addr_v6 (socket_mapped_text a b c d p) = Some (SocketV6 (mapped_ip a b c d) p 0, [])"
    using v6 read_port_dec [of "[]" p]
    by (simp add: read_socket_addr_v6_def socket_mapped_text_def read_scope_id_def)
  then show ?thesis using v4 by (simp add: parse_socket_addr_def parse_with_def socket_mapped_text_def)
qed

lemma mapped_not_private: "\<not> is_private_like_ip (mapped_ip a b c d)"
proof -
  have "replicate 8 (0 :: u16) = [0, 0, 0, 0, 0, 0, 0, 0]" by (simp add: numeral_eq_Suc)
  then show ?thesis
    by (simp add: is_private_like_ip_def mapped_ip_def octets_to_groups_def ip_is_loopback_def
        ip_is_unspecified_def Let_def)
qed

end
