(* ===== verification/Peer_Props.thy ===== *)
theory Peer_Props
  imports Peer_Registry Net_Parse
begin

text \<open>The properties of the peer registry and of the address checks.\<close>

section \<open>The registry\<close>

lemma by_work_iff: "by_work q p \<noteq> GreaterThan \<longleftrightarrow>
    peer_work q < peer_work p \<or> peer_work q = peer_work p \<and>
      (height q < height p \<or> height q = height p \<and> addr p \<le> addr q)"
  by (auto simp: by_work_def)

text \<open>C27: every registry the operations can build is well formed: one entry for each address, stored
  under the peer's own address, an advertised address equal to it, and data about the peer's chain
  only together with the instant it was learnt at. No further operation removes a peer or lowers its
  connection generation, and one that turns a peer that was not disconnected into a disconnected one
  leaves nothing known of its chain. (A summary that arrives late for a peer already disconnected
  is recorded again.)\<close>

theorem registry_well_typed:
  assumes "registry_reached r"
  shows "sorted_wrt (<) (map fst r) \<and>
    (\<forall>(a, p)\<in>set r. addr p = a \<and> advertised_addr p \<in> {None, Some a}
       \<and> (last_height_updated_at p = None \<longrightarrow>
            peer_summary_of p = \<lparr>sum_height = 0, sum_tip = None, sum_work = 0\<rparr>
            \<and> summary_generation p = None)
       \<and> (last_height_updated_at p \<noteq> None \<longrightarrow> last_activity p \<noteq> None))
    \<and> (\<forall>r' a p. registry_step r r' \<longrightarrow> bt_lookup r a = Some p \<longrightarrow>
         (\<exists>p'. bt_lookup r' a = Some p' \<and> connection_generation p \<le> connection_generation p'
            \<and> (state p \<noteq> Disconnected \<and> state p' = Disconnected \<longrightarrow>
                 last_height_updated_at p' = None
                 \<and> peer_summary_of p' = \<lparr>sum_height = 0, sum_tip = None, sum_work = 0\<rparr>)))"
proof -
  have ok: "registry_ok r" using assms by (rule registry_reached_ok)
  then have wf: "bt_wf r" by (simp add: registry.all_ok_def)
  have each: "peer_ok a p" if "(a, p) \<in> set r" for a p
    using that bt.set_entries [OF wf, of a p] registry_lookup_ok [OF ok] by (simp add: bt_entries_def)
  have typed: "sorted_wrt (<) (map fst r)" using wf by (simp add: bt_wf_def)
  have typed': "\<forall>(a, p)\<in>set r. addr p = a \<and> advertised_addr p \<in> {None, Some a}
       \<and> (last_height_updated_at p = None \<longrightarrow>
            peer_summary_of p = \<lparr>sum_height = 0, sum_tip = None, sum_work = 0\<rparr>
            \<and> summary_generation p = None)
       \<and> (last_height_updated_at p \<noteq> None \<longrightarrow> last_activity p \<noteq> None)"
    using each by (fastforce simp: peer_ok_def peer_summary_of_def)
  have "\<exists>p'. bt_lookup r' a = Some p' \<and> connection_generation p \<le> connection_generation p'
      \<and> (state p \<noteq> Disconnected \<and> state p' = Disconnected \<longrightarrow> last_height_updated_at p' = None
           \<and> peer_summary_of p' = \<lparr>sum_height = 0, sum_tip = None, sum_work = 0\<rparr>)"
    if step: "registry_step r r'" and p: "bt_lookup r a = Some p" for r' a p
  proof -
    obtain p' where p': "bt_lookup r' a = Some p'" "connection_generation p \<le> connection_generation p'"
      using generation_step [OF step p] by blast
    have clear: "last_height_updated_at (clear_peer_summary p') = None
        \<and> peer_summary_of (clear_peer_summary p') = \<lparr>sum_height = 0, sum_tip = None, sum_work = 0\<rparr>"
      by (simp add: clear_peer_summary_def peer_summary_of_def)
    have "last_height_updated_at p' = None
        \<and> peer_summary_of p' = \<lparr>sum_height = 0, sum_tip = None, sum_work = 0\<rparr>"
      if "state p \<noteq> Disconnected" "state p' = Disconnected"
      using clear unfolding disconnect_step [OF step p p'(1) that, symmetric] .
    then show ?thesis using p' by (intro exI [of _ p'] conjI impI) simp_all
  qed
  then show ?thesis by (intro conjI typed typed' allI impI)
qed

definition demo_peers :: peer_registry where
  "demo_peers =
     note_peer_summary ''b'' \<lparr>sum_height = 3, sum_tip = Some ''y'', sum_work = 9\<rparr> 5
       (connect_session ''b'' 2 (upsert ''b'' True
         (note_peer_summary ''a'' \<lparr>sum_height = 4, sum_tip = Some ''x'', sum_work = 9\<rparr> 5
           (connect_session ''a'' 1 (upsert ''a'' True [])))))"

lemma demo_peers_reached: "registry_reached demo_peers"
  unfolding demo_peers_def note_peer_summary_def
  by (intro reg_step [OF _ registry_step.intros(6)] reg_step [OF _ registry_step.intros(4)]
      reg_step [OF _ registry_step.intros(1)] reg_start)

theorem registry_well_typed_witness: "sorted_wrt (<) (map fst demo_peers)"
  using registry_well_typed [OF demo_peers_reached] by simp

text \<open>C28: the peer chosen for work-based synchronisation does not depend on the order in which the
  hash map is visited. It is a connected peer with a fresh summary that claims more work than the
  local tip, and among these the one with the most work, then the greatest height, then the smallest
  address; nothing is chosen exactly when there is no such peer.\<close>

theorem work_target_is_greatest:
  assumes "registry_reached r" "mset ps = mset (registry_values r)"
  shows "(best_work_sync_target now tip0 w ps = Some a \<longleftrightarrow>
      (\<exists>p. bt_lookup r a = Some p \<and> ahead now tip0 w p
        \<and> (\<forall>b q. bt_lookup r b = Some q \<longrightarrow> ahead now tip0 w q \<longrightarrow>
             peer_work q < peer_work p \<or> peer_work q = peer_work p \<and>
               (height q < height p \<or> height q = height p \<and> a \<le> b))))
    \<and> (best_work_sync_target now tip0 w ps = None \<longleftrightarrow>
        (\<forall>b q. bt_lookup r b = Some q \<longrightarrow> \<not> ahead now tip0 w q))"
proof -
  have ok: "registry_ok r" using assms(1) by (rule registry_reached_ok)
  have key: "addr q = b" if "bt_lookup r b = Some q" for b q
    using lookup_value(2) [OF ok assms(2) that] .
  have tc: "total_compare by_work" by (rule by_work.total_compare_axioms)
  have tie: "addr p = addr q" if "by_work p q \<noteq> GreaterThan" "by_work q p \<noteq> GreaterThan" for p q
    using that by (auto simp: by_work_iff)
  have sel: "best_work_sync_target now tip0 w ps = Some a \<longleftrightarrow>
      (\<exists>p. bt_lookup r a = Some p \<and> ahead now tip0 w p
        \<and> (\<forall>b q. bt_lookup r b = Some q \<longrightarrow> ahead now tip0 w q \<longrightarrow> by_work q p \<noteq> GreaterThan))"
    unfolding best_work_sync_target_def by (rule select_greatest [OF ok assms(2) tc tie])
  have none: "best_work_sync_target now tip0 w ps = None \<longleftrightarrow> filter (ahead now tip0 w) ps = []"
    by (simp add: best_work_sync_target_def by_work.max_by_None)
  have "(\<forall>b q. bt_lookup r b = Some q \<longrightarrow> \<not> ahead now tip0 w q) \<longleftrightarrow> filter (ahead now tip0 w) ps = []"
    using value_lookup [OF ok assms(2)] lookup_value(1) [OF ok assms(2)] by (auto simp: filter_empty_conv)
  moreover have "(\<exists>p. bt_lookup r a = Some p \<and> ahead now tip0 w p
        \<and> (\<forall>b q. bt_lookup r b = Some q \<longrightarrow> ahead now tip0 w q \<longrightarrow> by_work q p \<noteq> GreaterThan))
    \<longleftrightarrow> (\<exists>p. bt_lookup r a = Some p \<and> ahead now tip0 w p
        \<and> (\<forall>b q. bt_lookup r b = Some q \<longrightarrow> ahead now tip0 w q \<longrightarrow>
             peer_work q < peer_work p \<or> peer_work q = peer_work p \<and>
               (height q < height p \<or> height q = height p \<and> a \<le> b)))"
    unfolding by_work_iff by (intro ex_cong1 conj_cong refl all_cong1 imp_cong) (use key in simp)
  ultimately show ?thesis using sel none by blast
qed

theorem work_target_is_greatest_witness:
  "best_work_sync_target 5 ''z'' 8 (rev (registry_values demo_peers)) = Some ''a''"
proof -
  have l: "bt_lookup demo_peers c = Some p \<Longrightarrow> c = ''a'' \<or> c = ''b''" for c p
    by (simp add: demo_peers_def bt_lookup_def note_peer_summary_def note_peer_summary_from_def
        modify_peer_def connect_session_def upsert_def split: if_splits)
  have e: "ahead 5 ''z'' 8 p \<and> peer_work p = 9" if "bt_lookup demo_peers c = Some p" for c p
    using that l [OF that]
    by (auto simp: demo_peers_def bt_lookup_def note_peer_summary_def note_peer_summary_from_def
        modify_peer_def connect_session_def upsert_def peer_new_def should_update_def ahead_def live_def
        is_height_fresh_def is_height_poll_stalled_def elapsed_secs_def PEER_HEIGHT_STALE_SECS_def Let_def)
  have h: "map_option height (bt_lookup demo_peers ''a'') = Some 4"
    "map_option height (bt_lookup demo_peers ''b'') = Some 3"
    by (simp_all add: demo_peers_def bt_lookup_def note_peer_summary_def note_peer_summary_from_def
        modify_peer_def connect_session_def upsert_def peer_new_def should_update_def Let_def)
  obtain p where p: "bt_lookup demo_peers ''a'' = Some p" "height p = 4" using h(1) by auto
  show ?thesis
    using work_target_is_greatest [OF demo_peers_reached, of "rev (registry_values demo_peers)" 5 "''z''" 8 "''a''"]
      p e l h by fastforce
qed

text \<open>C0: a finished transport cannot disconnect a newer session of the same peer. Once a session of
  generation \<open>g\<close> has been connected, whatever happens to the registry afterwards, closing a
  session of an earlier generation leaves it as it is.\<close>

theorem stale_session_cannot_disconnect:
  assumes "bt_lookup r a = Some p" "registry_step\<^sup>*\<^sup>* (connect_session a g r) r'" "g' < g"
  shows "disconnect_if_generation a g' r' = (r', False)"
proof -
  have "\<exists>q. bt_lookup r' a = Some q \<and> g \<le> connection_generation q"
    using assms(2)
  proof (induction rule: rtranclp_induct)
    case base
    then show ?case using assms(1) by (simp add: connect_session_def lookup_modify)
  next
    case (step s t)
    then show ?case using generation_step [OF step(2)] order_trans by blast
  qed
  then show ?thesis using assms(3) by (auto simp: disconnect_if_generation_def)
qed

theorem stale_session_cannot_disconnect_witness:
  "disconnect_if_generation ''a'' 1 (note_observed_addr ''a'' ''o'' (connect_session ''a'' 2 (upsert ''a'' False [])))
    = (note_observed_addr ''a'' ''o'' (connect_session ''a'' 2 (upsert ''a'' False [])), False)"
proof (rule stale_session_cannot_disconnect)
  show "bt_lookup (upsert ''a'' False []) ''a'' = Some (peer_new ''a'' False)"
    by (simp add: upsert_def bt_lookup_def)
  show "registry_step\<^sup>*\<^sup>* (connect_session ''a'' 2 (upsert ''a'' False []))
      (note_observed_addr ''a'' ''o'' (connect_session ''a'' 2 (upsert ''a'' False [])))"
    by (rule r_into_rtranclp) (rule registry_step.intros(9))
qed simp

section \<open>Dial addresses\<close>

text \<open>The reserved blocks of IPv4 the node refuses, by their prefixes.\<close>

definition ipv4_number :: "u8 \<Rightarrow> u8 \<Rightarrow> u8 \<Rightarrow> u8 \<Rightarrow> nat" where
  "ipv4_number a b c d = ((unat a * 256 + unat b) * 256 + unat c) * 256 + unat d"

definition reserved_ipv4 :: "nat \<Rightarrow> bool" where
  "reserved_ipv4 n \<longleftrightarrow>
     n div 2 ^ 24 \<in> {10, 127} \<or> n div 2 ^ 20 = 172 * 16 + 1 \<or> n div 2 ^ 16 \<in> {192 * 256 + 168, 169 * 256 + 254} \<or> n = 0"

lemma octet_less: "unat (x :: u8) < 256"
  using unsigned_less [of x] by simp

lemma ipv4_number_prefix:
  "ipv4_number a b c d div 2 ^ 24 = unat a"
  "ipv4_number a b c d div 2 ^ 20 = unat a * 16 + unat b div 16"
  "ipv4_number a b c d div 2 ^ 16 = unat a * 256 + unat b"
  "ipv4_number a b c d = 0 \<longleftrightarrow> unat a = 0 \<and> unat b = 0 \<and> unat c = 0 \<and> unat d = 0"
proof -
  let ?n = "ipv4_number a b c d"
  have e: "(2::nat) ^ 24 = 256 * 256 * 256" "(2::nat) ^ 20 = 256 * 256 * 16" "(2::nat) ^ 16 = 256 * 256"
    by simp_all
  have 1: "?n div 256 div 256 = unat a * 256 + unat b"
    using octet_less [of c] octet_less [of d] by (simp add: ipv4_number_def)
  then show "?n div 2 ^ 16 = unat a * 256 + unat b" by (simp only: e div_mult2_eq)
  show "?n div 2 ^ 24 = unat a" unfolding e div_mult2_eq 1 using octet_less [of b] by simp
  show "?n div 2 ^ 20 = unat a * 16 + unat b div 16" unfolding e div_mult2_eq 1 by arith
  show "?n = 0 \<longleftrightarrow> unat a = 0 \<and> unat b = 0 \<and> unat c = 0 \<and> unat d = 0"
    by (auto simp: ipv4_number_def)
qed


lemma two_digits:
  fixes m n x y k :: nat
  assumes "x < k" "y < k"
  shows "m * k + x = n * k + y \<longleftrightarrow> m = n \<and> x = y"
proof
  assume e: "m * k + x = n * k + y"
  have "(m * k + x) div k = m" "(n * k + y) div k = n" using assms by simp_all
  then have "m = n" using e by simp
  then show "m = n \<and> x = y" using e by simp
qed simp

lemma prefix_eq:
  fixes m x :: nat
  shows "x < 16 \<Longrightarrow> m * 16 + x = 2753 \<longleftrightarrow> m = 172 \<and> x = 1"
    and "x < 256 \<Longrightarrow> m * 256 + x = 49320 \<longleftrightarrow> m = 192 \<and> x = 168"
    and "x < 256 \<Longrightarrow> m * 256 + x = 43518 \<longleftrightarrow> m = 169 \<and> x = 254"
  using two_digits [of x 16 1 m 172] two_digits [of x 256 168 m 192] two_digits [of x 256 254 m 169]
  by simp_all

lemma div_16_eq_1: "x div 16 = 1 \<longleftrightarrow> 16 \<le> x \<and> x \<le> (31 :: nat)"
  by auto

lemma octet_eq: "x = 0 \<longleftrightarrow> unat x = 0" "x = numeral k \<longleftrightarrow> unat x = unat (numeral k :: u8)" for x :: u8
  by (simp_all add: word_unat_eq_iff)

lemma private_ipv4: "is_private_like_ip (IpV4 a b c d) \<longleftrightarrow> reserved_ipv4 (ipv4_number a b c d)"
proof -
  have "reserved_ipv4 (ipv4_number a b c d) \<longleftrightarrow>
      unat a = 10 \<or> unat a = 127 \<or> (unat a = 172 \<and> 16 \<le> unat b \<and> unat b \<le> 31)
      \<or> (unat a = 192 \<and> unat b = 168) \<or> (unat a = 169 \<and> unat b = 254)
      \<or> (unat a = 0 \<and> unat b = 0 \<and> unat c = 0 \<and> unat d = 0)"
    using octet_less [of b] prefix_eq(1) [of "unat b div 16" "unat a"] prefix_eq(2,3) [of "unat b" "unat a"]
    unfolding reserved_ipv4_def ipv4_number_prefix
    by (simp add: less_mult_imp_div_less disj_assoc div_16_eq_1 del: One_nat_def)
  also have "\<dots> \<longleftrightarrow> is_private_like_ip (IpV4 a b c d)"
    by (simp add: is_private_like_ip_def ip_is_loopback_def ip_is_unspecified_def octet_eq
        word_le_nat_alt disj_ac)
  finally show ?thesis by simp
qed

text \<open>C30: the textual form of every IPv4 socket address is read back, and is dialled exactly when its
  port is not zero and, unless private peers are allowed, its number lies outside the reserved
  blocks 10/8, 127/8, 172.16/12, 192.168/16, 169.254/16 and the unspecified address.\<close>

theorem ipv4_dial_policy:
  "validate_dial_address (socket_v4_text a b c d p) allow =
     (if p = 0 then Inl (PortZero (socket_v4_text a b c d p))
      else if \<not> allow \<and> reserved_ipv4 (ipv4_number a b c d)
        then Inl (PrivatePeerAddress (socket_v4_text a b c d p))
      else Inr (SocketV4 (IpV4 a b c d) p))"
  by (simp add: validate_dial_address_def parse_socket_v4_text socket_port_def socket_ip_def private_ipv4)

text \<open>The IPv6 address that maps an IPv4 address passes the check whatever it maps: with private
  peers forbidden, the mapped form of a loopback, private or link-local address is dialled although
  the plain form is refused.\<close>

lemma mapped_private_address_dialled:
  assumes "p \<noteq> 0" "reserved_ipv4 (ipv4_number a b c d)"
  shows "validate_dial_address (socket_mapped_text a b c d p) False = Inr (SocketV6 (mapped_ip a b c d) p 0)
    \<and> validate_dial_address (socket_v4_text a b c d p) False = Inl (PrivatePeerAddress (socket_v4_text a b c d p))"
  using assms mapped_not_private [of a b c d]
  by (simp add: validate_dial_address_def parse_socket_mapped_text parse_socket_v4_text socket_port_def
      socket_ip_def private_ipv4)

end
