(* ===== verification/Sessions.thy ===== *)
theory Sessions
  imports Peer_Registry
begin

text \<open>
  The session registry of \<open>p2p/connection.rs\<close>: which transports are live for each durable peer,
  the generations they were given, and the bounded queue of every session. The generation counter
  wraps like the code's \<open>fetch_add\<close>. The second half composes it with the peer registry:
  transports of the same peer take their generation, enter the registry, mark their peer connected,
  leave the registry and report their end in any interleaving of these five atomic actions.
\<close>

definition SESSION_OUTBOUND_CAPACITY :: nat where "SESSION_OUTBOUND_CAPACITY = 32"

section \<open>The registry\<close>

text \<open>A session with the queue of its channel; a receiver that was dropped closes the channel.\<close>

record session_sender =
  ss_generation :: u64
  ss_queue :: "p2p_message list"
  ss_open :: bool

record peer_sessions =
  latest_generation :: u64
  active :: "session_sender list"

record session_registry =
  next_generation :: u64
  sessions :: "(string, peer_sessions) btree"

definition sessions_new :: session_registry where
  "sessions_new = \<lparr>next_generation = 1, sessions = []\<rparr>"

text \<open>\<open>register\<close> is two atomic actions: \<open>fetch_add\<close> on the counter, before the lock on the
  sessions is taken, and the entry of the new session under the lock.\<close>

definition take_generation :: "session_registry \<Rightarrow> session_registry \<times> u64" where
  "take_generation s = (s\<lparr>next_generation := next_generation s + 1\<rparr>, next_generation s)"

definition register_at :: "string \<Rightarrow> u64 \<Rightarrow> session_registry \<Rightarrow> session_registry" where
  "register_at a generation s =
     (let old = (case bt_lookup (sessions s) a of
                   Some ps \<Rightarrow> ps
                 | None \<Rightarrow> \<lparr>latest_generation = generation, active = []\<rparr>);
          new = \<lparr>latest_generation = generation,
                 active = active old @ [\<lparr>ss_generation = generation, ss_queue = [], ss_open = True\<rparr>]\<rparr>
      in s\<lparr>sessions := bt_insert a new (sessions s)\<rparr>)"

definition register :: "string \<Rightarrow> session_registry \<Rightarrow> session_registry \<times> u64" where
  "register a s = (case take_generation s of (s1, generation) \<Rightarrow> (register_at a generation s1, generation))"

definition unregister :: "string \<Rightarrow> u64 \<Rightarrow> session_registry \<Rightarrow> session_registry \<times> u64 option" where
  "unregister a generation s =
     (case bt_lookup (sessions s) a of
        None \<Rightarrow> (s, None)
      | Some ps \<Rightarrow>
          (let rest = filter (\<lambda>x. ss_generation x \<noteq> generation) (active ps)
           in if length rest = length (active ps) \<or> rest \<noteq> []
              then (s\<lparr>sessions := bt_insert a (ps\<lparr>active := rest\<rparr>) (sessions s)\<rparr>, None)
              else (s\<lparr>sessions := bt_remove a (sessions s)\<rparr>, Some (latest_generation ps))))"

text \<open>\<open>try_send\<close> of one session, and \<open>any\<close> over the sessions of a peer: the first one whose
  queue takes the message.\<close>

definition try_send :: "p2p_message \<Rightarrow> session_sender \<Rightarrow> session_sender \<times> bool" where
  "try_send m x =
     (if ss_open x \<and> length (ss_queue x) < SESSION_OUTBOUND_CAPACITY
      then (x\<lparr>ss_queue := ss_queue x @ [m]\<rparr>, True) else (x, False))"

fun send_any :: "p2p_message \<Rightarrow> session_sender list \<Rightarrow> session_sender list \<times> bool" where
  "send_any m [] = ([], False)"
| "send_any m (x # xs) =
     (case try_send m x of
        (x', True) \<Rightarrow> (x' # xs, True)
      | (x', False) \<Rightarrow> (case send_any m xs of (xs', ok) \<Rightarrow> (x' # xs', ok)))"

definition announcement_of :: "block \<Rightarrow> announcement" where
  "announcement_of b =
     \<lparr>an_height = number (header b), an_hash = block_hash b, an_prev = parent_hash (header b)\<rparr>"

fun announce_all :: "p2p_message \<Rightarrow> string option \<Rightarrow> (string, peer_sessions) btree
    \<Rightarrow> (string, peer_sessions) btree \<times> nat" where
  "announce_all m exclude [] = ([], 0)"
| "announce_all m exclude ((a, ps) # rest) =
     (case announce_all m exclude rest of
        (rest', n) \<Rightarrow>
          if exclude = Some a then ((a, ps) # rest', n)
          else (case send_any m (active ps) of
                  (xs, ok) \<Rightarrow> ((a, ps\<lparr>active := xs\<rparr>) # rest', if ok then n + 1 else n)))"

definition announce_block :: "block \<Rightarrow> string option \<Rightarrow> session_registry \<Rightarrow> session_registry \<times> nat" where
  "announce_block b exclude s =
     (case announce_all (MsgAnnounceBlock (announcement_of b)) exclude (sessions s) of
        (ss, n) \<Rightarrow> (s\<lparr>sessions := ss\<rparr>, n))"

text \<open>The receiving end: \<open>try_recv\<close> takes the oldest message of the session's queue.\<close>

fun take_first :: "u64 \<Rightarrow> session_sender list \<Rightarrow> session_sender list \<times> p2p_message option" where
  "take_first g [] = ([], None)"
| "take_first g (x # xs) =
     (if ss_generation x = g
      then (case ss_queue x of [] \<Rightarrow> (x # xs, None) | m # ms \<Rightarrow> (x\<lparr>ss_queue := ms\<rparr> # xs, Some m))
      else (case take_first g xs of (xs', r) \<Rightarrow> (x # xs', r)))"

definition session_recv :: "string \<Rightarrow> u64 \<Rightarrow> session_registry \<Rightarrow> session_registry \<times> p2p_message option" where
  "session_recv a g s =
     (case bt_lookup (sessions s) a of
        None \<Rightarrow> (s, None)
      | Some ps \<Rightarrow>
          (case take_first g (active ps) of
             (xs, r) \<Rightarrow> (s\<lparr>sessions := bt_insert a (ps\<lparr>active := xs\<rparr>) (sessions s)\<rparr>, r)))"

section \<open>Interleaved transports\<close>

text \<open>The two registries and, for each transport, what it still has to do: with a generation taken
  it enters the session registry; after that it marks its peer connected; and after an
  \<open>unregister\<close> that emptied the peer's list it marks the peer disconnected if the generation is still
  the latest. Between any two of these the other transports may do any of theirs.\<close>

record session_system =
  sys_sessions :: session_registry
  sys_peers :: peer_registry
  taken :: "(string \<times> u64) set"
  to_connect :: "(string \<times> u64) set"
  to_finish :: "(string \<times> u64) set"

definition live_generations :: "session_registry \<Rightarrow> string \<Rightarrow> u64 set" where
  "live_generations s a =
     (case bt_lookup (sessions s) a of None \<Rightarrow> {} | Some ps \<Rightarrow> ss_generation ` set (active ps))"

inductive session_step :: "session_system \<Rightarrow> session_system \<Rightarrow> bool" where
  s_take: "bt_lookup (sys_peers y) a \<noteq> None \<Longrightarrow> next_generation (sys_sessions y) \<noteq> - 1 \<Longrightarrow>
    take_generation (sys_sessions y) = (s', g) \<Longrightarrow>
    session_step y (y\<lparr>sys_sessions := s', taken := insert (a, g) (taken y)\<rparr>)"
| s_open: "(a, g) \<in> taken y \<Longrightarrow>
    session_step y (y\<lparr>sys_sessions := register_at a g (sys_sessions y), taken := taken y - {(a, g)},
      to_connect := insert (a, g) (to_connect y)\<rparr>)"
| s_connect: "(a, g) \<in> to_connect y \<Longrightarrow>
    session_step y (y\<lparr>sys_peers := connect_session a g (sys_peers y), to_connect := to_connect y - {(a, g)}\<rparr>)"
| s_close: "g \<in> live_generations (sys_sessions y) a \<Longrightarrow> (a, g) \<notin> to_connect y \<Longrightarrow>
    unregister a g (sys_sessions y) = (s', r) \<Longrightarrow>
    session_step y (y\<lparr>sys_sessions := s',
      to_finish := (case r of None \<Rightarrow> to_finish y | Some l \<Rightarrow> insert (a, l) (to_finish y))\<rparr>)"
| s_finish: "(a, l) \<in> to_finish y \<Longrightarrow>
    session_step y (y\<lparr>sys_peers := fst (disconnect_if_generation a l (sys_peers y)),
      to_finish := to_finish y - {(a, l)}\<rparr>)"

text \<open>A step that is in order does not enter a session while an older generation taken for the same
  peer has yet to be entered: no registration is overtaken between its \<open>fetch_add\<close> and its lock by
  another one of its peer.\<close>

definition in_order :: "session_system \<Rightarrow> session_system \<Rightarrow> bool" where
  "in_order y z \<longleftrightarrow> (\<forall>a g h. (a, g) \<in> taken y \<and> (a, g) \<notin> taken z \<and> (a, h) \<in> taken y \<longrightarrow> g \<le> h)"

definition ordered_step :: "session_system \<Rightarrow> session_system \<Rightarrow> bool" where
  "ordered_step y z \<longleftrightarrow> session_step y z \<and> in_order y z"

text \<open>It starts with no session, no work pending and a registry of peers none of which is connected
  and all of which have the initial generation.\<close>

definition session_start :: "peer_registry \<Rightarrow> session_system" where
  "session_start r = \<lparr>sys_sessions = sessions_new, sys_peers = r, taken = {},
     to_connect = {}, to_finish = {}\<rparr>"

definition unconnected :: "peer_registry \<Rightarrow> bool" where
  "unconnected r \<longleftrightarrow>
     (\<forall>a p. bt_lookup r a = Some p \<longrightarrow> state p \<noteq> Connected \<and> connection_generation p = 0)"

section \<open>The invariant\<close>

definition registry_bound :: "session_registry \<Rightarrow> bool" where
  "registry_bound s \<longleftrightarrow> bt_wf (sessions s) \<and> 0 < next_generation s \<and>
     (\<forall>a ps. bt_lookup (sessions s) a = Some ps \<longrightarrow>
        active ps \<noteq> [] \<and> distinct (map ss_generation (active ps)) \<and> 0 < latest_generation ps \<and>
        latest_generation ps < next_generation s \<and>
        (\<forall>x\<in>set (active ps). ss_generation x \<le> latest_generation ps))"

text \<open>What one peer's entry says, relative to the sessions and the pending work. The highest
  generation that was ever marked connected is the entry's; the last clause is what makes the report
  of the last transport effective. A generation that is taken and not yet entered is above every
  other one of its peer.\<close>

definition peer_agrees :: "session_system \<Rightarrow> string \<Rightarrow> peer \<Rightarrow> bool" where
  "peer_agrees y a p \<longleftrightarrow>
     (let s = sys_sessions y; gens = live_generations s a in
        connection_generation p < next_generation s
        \<and> (\<forall>g\<in>gens. (a, g) \<notin> to_connect y \<longrightarrow>
              state p = Connected \<and> g \<le> connection_generation p
              \<and> (\<forall>l. (a, l) \<in> to_finish y \<longrightarrow> l < g))
        \<and> (case bt_lookup (sessions s) a of
             None \<Rightarrow> state p = Connected \<longrightarrow> (a, connection_generation p) \<in> to_finish y
           | Some ps \<Rightarrow> connection_generation p \<le> latest_generation ps
               \<and> ((a, latest_generation ps) \<notin> to_connect y \<longrightarrow> connection_generation p = latest_generation ps)))"

definition above_all :: "session_system \<Rightarrow> string \<Rightarrow> u64 \<Rightarrow> bool" where
  "above_all y a g \<longleftrightarrow> 0 < g \<and> g < next_generation (sys_sessions y)
     \<and> (\<forall>ps. bt_lookup (sessions (sys_sessions y)) a = Some ps \<longrightarrow> latest_generation ps < g)
     \<and> (\<forall>l. (a, l) \<in> to_finish y \<longrightarrow> l < g)
     \<and> (\<forall>p. bt_lookup (sys_peers y) a = Some p \<longrightarrow> connection_generation p < g)
     \<and> bt_lookup (sys_peers y) a \<noteq> None"

definition system_ok :: "session_system \<Rightarrow> bool" where
  "system_ok y \<longleftrightarrow>
     registry_bound (sys_sessions y)
     \<and> (\<forall>a g. (a, g) \<in> taken y \<longrightarrow> above_all y a g)
     \<and> (\<forall>a g. (a, g) \<in> to_connect y \<longrightarrow> g \<in> live_generations (sys_sessions y) a)
     \<and> (\<forall>a l. (a, l) \<in> to_finish y \<longrightarrow> l < next_generation (sys_sessions y)
          \<and> (\<forall>g\<in>live_generations (sys_sessions y) a. l < g))
     \<and> (\<forall>a. live_generations (sys_sessions y) a \<noteq> {} \<longrightarrow> bt_lookup (sys_peers y) a \<noteq> None)
     \<and> (\<forall>a p. bt_lookup (sys_peers y) a = Some p \<longrightarrow> peer_agrees y a p)"

end
