(* ===== verification/Session_Inv.thy ===== *)
theory Session_Inv
  imports Sessions
begin

text \<open>The invariant of the interleaved transports, step by step.\<close>

inductive_cases session_stepE: "session_step y z"

section \<open>The registry operations\<close>

text \<open>The bound for one peer's sessions.\<close>

definition sessions_bound :: "u64 \<Rightarrow> peer_sessions \<Rightarrow> bool" where
  "sessions_bound n ps \<longleftrightarrow> active ps \<noteq> [] \<and> distinct (map ss_generation (active ps)) \<and>
     0 < latest_generation ps \<and> latest_generation ps < n \<and>
     (\<forall>x\<in>set (active ps). ss_generation x \<le> latest_generation ps)"

lemma registry_bound_alt: "registry_bound s \<longleftrightarrow> bt_wf (sessions s) \<and> 0 < next_generation s \<and>
    (\<forall>a ps. bt_lookup (sessions s) a = Some ps \<longrightarrow> sessions_bound (next_generation s) ps)"
  by (simp add: registry_bound_def sessions_bound_def)

lemma registry_boundI:
  assumes "registry_bound s" "bt_wf (sessions s')" "next_generation s \<le> next_generation s'"
    and "bt_lookup (sessions s') = (bt_lookup (sessions s))(a := v)"
    and "\<And>ps. v = Some ps \<Longrightarrow> sessions_bound (next_generation s') ps"
  shows "registry_bound s'"
proof -
  have "sessions_bound n' ps" if "sessions_bound n ps" "n \<le> n'" for n n' ps
    using that by (auto simp: sessions_bound_def intro: less_le_trans)
  then show ?thesis using assms unfolding registry_bound_alt
    by (auto split: if_splits) (metis assms(3))
qed

lemma registry_bound_lookup:
  "registry_bound s \<Longrightarrow> bt_lookup (sessions s) a = Some ps \<Longrightarrow> sessions_bound (next_generation s) ps"
  by (simp add: registry_bound_alt)

lemma u64_less_succ: "g \<noteq> - 1 \<Longrightarrow> g < g + (1 :: u64)"
proof -
  assume "g \<noteq> - 1"
  then have "unat g \<noteq> unat (- 1 :: u64)" by (simp only: word_unat_eq_iff) simp
  moreover have "unat (- 1 :: u64) = 18446744073709551615"
    by (simp add: unsigned_minus_1_eq_mask mask_eq_exp_minus_1)
  moreover have "unat g < 18446744073709551616" by (rule u64_bound)
  ultimately have "unat g + 1 < 18446744073709551616" by linarith
  then have "unat g + unat (1 :: u64) < 2 ^ LENGTH(64)" by simp
  then have "unat (g + 1) = unat g + unat (1 :: u64)" by (rule unat_plus_small)
  then show ?thesis by (simp add: word_less_nat_alt)
qed

lemma live_lookup_None: "bt_lookup (sessions s) a = None \<Longrightarrow> live_generations s a = {}"
  by (simp add: live_generations_def)

lemma register_atE:
  assumes "registry_bound s" "0 < g" "g < next_generation s"
    and "\<And>ps. bt_lookup (sessions s) a = Some ps \<Longrightarrow> latest_generation ps < g"
  obtains ps where "next_generation (register_at a g s) = next_generation s"
    "live_generations (register_at a g s) = (live_generations s)(a := insert g (live_generations s a))"
    "bt_lookup (sessions (register_at a g s)) = (bt_lookup (sessions s))(a \<mapsto> ps)" "latest_generation ps = g"
    "registry_bound (register_at a g s)"
proof -
  define old where "old = (case bt_lookup (sessions s) a of
      Some ps \<Rightarrow> ps | None \<Rightarrow> \<lparr>latest_generation = g, active = []\<rparr>)"
  define ps where "ps = \<lparr>latest_generation = g,
     active = active old @ [\<lparr>ss_generation = g, ss_queue = [], ss_open = True\<rparr>]\<rparr>"
  have s': "register_at a g s = s\<lparr>sessions := bt_insert a ps (sessions s)\<rparr>"
    by (simp add: register_at_def Let_def ps_def old_def)
  have wf: "bt_wf (sessions s)" using assms(1) by (simp add: registry_bound_def)
  have lk: "bt_lookup (sessions (register_at a g s)) = (bt_lookup (sessions s))(a \<mapsto> ps)"
    using wf by (simp add: s' fun_eq_iff)
  have old_live: "ss_generation ` set (active old) = live_generations s a"
    by (simp add: old_def live_generations_def split: option.split)
  have old_props: "distinct (map ss_generation (active old)) \<and> (\<forall>x\<in>set (active old). ss_generation x < g)"
  proof (cases "bt_lookup (sessions s) a")
    case None
    then show ?thesis by (simp add: old_def)
  next
    case (Some ps0)
    then have "distinct (map ss_generation (active ps0))" "latest_generation ps0 < g"
      "\<forall>x\<in>set (active ps0). ss_generation x \<le> latest_generation ps0"
      using registry_bound_lookup [OF assms(1) Some] assms(4) by (simp_all add: sessions_bound_def)
    then show ?thesis using Some by (auto simp: old_def)
  qed
  have lg: "live_generations (register_at a g s) = (live_generations s)(a := insert g (live_generations s a))"
    using old_live by (simp add: fun_eq_iff live_generations_def lk ps_def)
  have new: "sessions_bound (next_generation s) ps"
    using old_props assms(2,3) by (auto simp: sessions_bound_def ps_def less_imp_le)
  have "registry_bound (register_at a g s)"
    by (rule registry_boundI [OF assms(1) _ _ lk]) (use wf new in \<open>simp_all add: s'\<close>)
  then show ?thesis using that [of ps] s' lg lk by (simp add: ps_def)
qed

lemma unregisterE:
  assumes b: "registry_bound s" and live: "g \<in> live_generations s a" and un: "unregister a g s = (s', r)"
  obtains (kept) ps qs where "bt_lookup (sessions s) a = Some ps" "r = None"
      "latest_generation qs = latest_generation ps" "live_generations s a \<noteq> {g}"
      "bt_lookup (sessions s') = (bt_lookup (sessions s))(a \<mapsto> qs)"
      "next_generation s' = next_generation s" "registry_bound s'"
      "live_generations s' = (live_generations s)(a := live_generations s a - {g})"
  | (gone) ps where "bt_lookup (sessions s) a = Some ps" "r = Some (latest_generation ps)"
      "live_generations s a = {g}"
      "bt_lookup (sessions s') = (bt_lookup (sessions s))(a := None)"
      "next_generation s' = next_generation s" "registry_bound s'"
      "live_generations s' = (live_generations s)(a := {})"
proof -
  obtain ps where ps: "bt_lookup (sessions s) a = Some ps" and gin: "g \<in> ss_generation ` set (active ps)"
    using live by (auto simp: live_generations_def split: option.splits)
  define rest where "rest = filter (\<lambda>x. ss_generation x \<noteq> g) (active ps)"
  have wf: "bt_wf (sessions s)" using b by (simp add: registry_bound_def)
  obtain x where "x \<in> set (active ps)" "ss_generation x = g" using gin by auto
  then have "length rest < length (active ps)" unfolding rest_def by (intro length_filter_less [of x]) simp_all
  then have len: "length rest \<noteq> length (active ps)" by simp
  have rest_set: "ss_generation ` set rest = live_generations s a - {g}"
    by (auto simp: rest_def live_generations_def ps)
  have pb: "sessions_bound (next_generation s) ps" by (rule registry_bound_lookup [OF b ps])
  show thesis
  proof (cases "rest = []")
    case True
    then have u: "s' = s\<lparr>sessions := bt_remove a (sessions s)\<rparr>" "r = Some (latest_generation ps)"
      using un len by (simp_all add: unregister_def ps Let_def flip: rest_def)
    have lk: "bt_lookup (sessions s') = (bt_lookup (sessions s))(a := None)" by (simp add: u fun_eq_iff)
    have one: "live_generations s a = {g}" using rest_set True live by auto
    have lg: "live_generations s' = (live_generations s)(a := {})"
      by (simp add: fun_eq_iff live_generations_def lk)
    have "registry_bound s'"
      by (rule registry_boundI [OF b _ _ lk]) (use wf in \<open>simp_all add: u\<close>)
    moreover have "next_generation s' = next_generation s" by (simp add: u)
    ultimately show thesis using gone ps u(2) one lk lg by blast
  next
    case False
    then have u: "s' = s\<lparr>sessions := bt_insert a (ps\<lparr>active := rest\<rparr>) (sessions s)\<rparr>" "r = None"
      using un by (simp_all add: unregister_def ps Let_def flip: rest_def)
    have lk: "bt_lookup (sessions s') = (bt_lookup (sessions s))(a \<mapsto> ps\<lparr>active := rest\<rparr>)"
      by (simp add: u fun_eq_iff)
    have lg: "live_generations s' = (live_generations s)(a := live_generations s a - {g})"
      using rest_set by (simp add: fun_eq_iff live_generations_def lk)
    have "sessions_bound (next_generation s) (ps\<lparr>active := rest\<rparr>)"
      using pb False by (auto simp: sessions_bound_def rest_def distinct_map_filter)
    then have "registry_bound s'"
      by (intro registry_boundI [OF b _ _ lk]) (use wf in \<open>simp_all add: u\<close>)
    moreover have "live_generations s a \<noteq> {g}" using rest_set False by auto
    moreover have "next_generation s' = next_generation s" "latest_generation (ps\<lparr>active := rest\<rparr>) = latest_generation ps"
      by (simp_all add: u)
    ultimately show thesis using kept ps u(2) lk lg by blast
  qed
qed

section \<open>The composed system\<close>

lemma live_bound:
  assumes "registry_bound s" "g \<in> live_generations s a"
  obtains ps where "bt_lookup (sessions s) a = Some ps" "g \<le> latest_generation ps"
    "latest_generation ps < next_generation s"
proof -
  obtain ps where ps: "bt_lookup (sessions s) a = Some ps" "g \<in> ss_generation ` set (active ps)"
    using assms(2) by (auto simp: live_generations_def split: option.splits)
  then show thesis using that registry_bound_lookup [OF assms(1) ps(1)] by (auto simp: sessions_bound_def)
qed

lemma system_okD:
  assumes "system_ok y"
  shows "registry_bound (sys_sessions y)"
    and "(a, g) \<in> to_connect y \<Longrightarrow> g \<in> live_generations (sys_sessions y) a"
    and "(a, l) \<in> to_finish y \<Longrightarrow> l < next_generation (sys_sessions y)"
    and "(a, l) \<in> to_finish y \<Longrightarrow> g \<in> live_generations (sys_sessions y) a \<Longrightarrow> l < g"
    and "g \<in> live_generations (sys_sessions y) a \<Longrightarrow> bt_lookup (sys_peers y) a \<noteq> None"
    and "bt_lookup (sys_peers y) a = Some p \<Longrightarrow> peer_agrees y a p"
    and "(a, g) \<in> taken y \<Longrightarrow> above_all y a g"
  using assms by (auto simp: system_ok_def)

lemma system_okI:
  assumes "registry_bound (sys_sessions y)"
    and "\<And>a g. (a, g) \<in> to_connect y \<Longrightarrow> g \<in> live_generations (sys_sessions y) a"
    and "\<And>a l. (a, l) \<in> to_finish y \<Longrightarrow> l < next_generation (sys_sessions y)"
    and "\<And>a l g. (a, l) \<in> to_finish y \<Longrightarrow> g \<in> live_generations (sys_sessions y) a \<Longrightarrow> l < g"
    and "\<And>a g. g \<in> live_generations (sys_sessions y) a \<Longrightarrow> bt_lookup (sys_peers y) a \<noteq> None"
    and "\<And>a p. bt_lookup (sys_peers y) a = Some p \<Longrightarrow> peer_agrees y a p"
    and "\<And>a g. (a, g) \<in> taken y \<Longrightarrow> above_all y a g"
  shows "system_ok y"
  unfolding system_ok_def
proof (intro conjI allI impI ballI)
  fix a assume "live_generations (sys_sessions y) a \<noteq> {}"
  then show "bt_lookup (sys_peers y) a \<noteq> None" using assms(5) by (metis ex_in_conv)
qed (fact assms(1), erule assms(7), erule assms(2), erule assms(3), erule (1) assms(4), erule assms(6))

lemma ok_take:
  assumes y: "system_ok y" and ex: "bt_lookup (sys_peers y) a \<noteq> None"
    and n: "next_generation (sys_sessions y) \<noteq> - 1" and t: "take_generation (sys_sessions y) = (s', g)"
  shows "system_ok (y\<lparr>sys_sessions := s', taken := insert (a, g) (taken y)\<rparr>)" (is "system_ok ?z")
proof -
  have g: "g = next_generation (sys_sessions y)"
    and s': "s' = (sys_sessions y)\<lparr>next_generation := g + 1\<rparr>"
    using t by (auto simp: take_generation_def)
  have up1: "g < g + 1" using u64_less_succ n g by simp
  have up: "h < g + 1" if "h < g" for h using that up1 by (rule less_trans)
  have ss: "sessions s' = sessions (sys_sessions y)" "next_generation s' = g + 1" by (simp_all add: s')
  have lg: "live_generations s' = live_generations (sys_sessions y)"
    by (simp add: fun_eq_iff live_generations_def ss)
  have b: "registry_bound s'"
  proof -
    have "0 < g + 1" using system_okD(1) [OF y] up g by (simp add: registry_bound_def)
    then show ?thesis using system_okD(1) [OF y] up by (simp add: registry_bound_def ss g [symmetric])
  qed
  have agree: "peer_agrees ?z b p" if p: "bt_lookup (sys_peers y) b = Some p" for b p
    using system_okD(6) [OF y p] up
    by (simp add: peer_agrees_def Let_def lg ss g [symmetric] cong: option.case_cong)
  have abv: "above_all ?z b h" if h: "(b, h) \<in> taken ?z" for b h
  proof (cases "(b, h) \<in> taken y")
    case True
    then show ?thesis using system_okD(7) [OF y True] up by (simp add: above_all_def ss g [symmetric])
  next
    case False
    then have bh: "b = a" "h = g" using h by auto
    have "latest_generation ps < g" if "bt_lookup (sessions (sys_sessions y)) a = Some ps" for ps
      using registry_bound_lookup [OF system_okD(1) [OF y] that] g by (simp add: sessions_bound_def)
    moreover have "connection_generation p < g" if "bt_lookup (sys_peers y) a = Some p" for p
      using system_okD(6) [OF y that] g by (simp add: peer_agrees_def Let_def)
    moreover have "0 < g" using system_okD(1) [OF y] g by (simp add: registry_bound_def)
    ultimately show ?thesis using system_okD(3) [OF y] ex up1 by (simp add: above_all_def bh ss g)
  qed
  show ?thesis
  proof (rule system_okI)
    show "l < next_generation (sys_sessions ?z)" if "(b, l) \<in> to_finish ?z" for b l
      using system_okD(3) [OF y, of b l] that up g by (simp add: ss)
  qed (use b agree abv system_okD(2,4,5) [OF y] in \<open>simp_all add: lg\<close>)
qed

lemma ok_open:
  assumes y: "system_ok y" and t: "(a, g) \<in> taken y" and least: "\<And>h. (a, h) \<in> taken y \<Longrightarrow> g \<le> h"
  shows "system_ok (y\<lparr>sys_sessions := register_at a g (sys_sessions y), taken := taken y - {(a, g)},
      to_connect := insert (a, g) (to_connect y)\<rparr>)" (is "system_ok ?z")
proof -
  let ?s' = "register_at a g (sys_sessions y)"
  have abv: "above_all y a g" using system_okD(7) [OF y t] .
  then have g: "0 < g" "g < next_generation (sys_sessions y)"
    and gl: "\<And>ps. bt_lookup (sessions (sys_sessions y)) a = Some ps \<Longrightarrow> latest_generation ps < g"
    and fresh: "\<And>l. (a, l) \<in> to_finish y \<Longrightarrow> l < g"
    and cg: "\<And>p. bt_lookup (sys_peers y) a = Some p \<Longrightarrow> connection_generation p < g"
    and ex: "bt_lookup (sys_peers y) a \<noteq> None"
    by (simp_all add: above_all_def)
  obtain ps where ng: "next_generation ?s' = next_generation (sys_sessions y)"
    and lg: "live_generations ?s' = (live_generations (sys_sessions y))(a := insert g (live_generations (sys_sessions y) a))"
    and lk: "bt_lookup (sessions ?s') = (bt_lookup (sessions (sys_sessions y)))(a \<mapsto> ps)"
    and ps: "latest_generation ps = g" and b: "registry_bound ?s'"
    using register_atE [OF system_okD(1) [OF y] g gl] by metis
  have agree: "peer_agrees ?z b p" if p: "bt_lookup (sys_peers y) b = Some p" for b p
  proof -
    have old: "peer_agrees y b p" using system_okD(6) [OF y p] .
    show ?thesis
    proof (cases "b = a")
      case True
      then have "connection_generation p < g" using cg p by simp
      then show ?thesis using True old ps
        by (auto simp: peer_agrees_def Let_def lg lk ng less_imp_le)
    next
      case False
      then show ?thesis using old
        by (simp add: peer_agrees_def Let_def lg lk ng cong: option.case_cong)
    qed
  qed
  have above: "above_all ?z b h" if h: "(b, h) \<in> taken ?z" for b h
  proof (cases "b = a")
    case True
    then have "(a, h) \<in> taken y" "h \<noteq> g" using h by auto
    then have "g < h" using least by (simp add: order.strict_iff_order)
    then show ?thesis using system_okD(7) [OF y \<open>(a, h) \<in> taken y\<close>] True
      by (simp add: above_all_def lk ng ps)
  next
    case False
    then show ?thesis using system_okD(7) [OF y, of b h] h by (simp add: above_all_def lk ng)
  qed
  show ?thesis
  proof (rule system_okI)
    show "l < h" if "(b, l) \<in> to_finish ?z" "h \<in> live_generations (sys_sessions ?z) b" for b l h
      using that fresh system_okD(4) [OF y, of b l h] by (auto simp: lg split: if_splits)
    show "bt_lookup (sys_peers ?z) b \<noteq> None" if "h \<in> live_generations (sys_sessions ?z) b" for b h
      using that ex system_okD(5) [OF y, of h b] by (auto simp: lg split: if_splits)
    show "h \<in> live_generations (sys_sessions ?z) b" if "(b, h) \<in> to_connect ?z" for b h
      using that system_okD(2) [OF y, of b h] by (auto simp: lg)
    show "l < next_generation (sys_sessions ?z)" if "(b, l) \<in> to_finish ?z" for b l
      using that system_okD(3) [OF y, of b l] by (simp add: ng)
  qed (use b agree above in \<open>simp_all\<close>)
qed

lemma ok_connect:
  assumes y: "system_ok y" and t: "(a, g) \<in> to_connect y"
  shows "system_ok (y\<lparr>sys_peers := connect_session a g (sys_peers y), to_connect := to_connect y - {(a, g)}\<rparr>)"
    (is "system_ok ?z")
proof -
  have gl: "g \<in> live_generations (sys_sessions y) a" using system_okD(2) [OF y t] .
  obtain ps where ps: "bt_lookup (sessions (sys_sessions y)) a = Some ps" "g \<le> latest_generation ps"
    "latest_generation ps < next_generation (sys_sessions y)"
    using live_bound [OF system_okD(1) [OF y] gl] by metis
  have lk: "bt_lookup (connect_session a g (sys_peers y)) b = (if b = a then
      map_option (\<lambda>p. p\<lparr>connection_generation := max (connection_generation p) g, state := Connected\<rparr>)
        (bt_lookup (sys_peers y) a) else bt_lookup (sys_peers y) b)" for b
    by (simp add: connect_session_def lookup_modify)
  have agree: "peer_agrees ?z b p" if p: "bt_lookup (sys_peers ?z) b = Some p" for b p
  proof (cases "b = a")
    case False
    then show ?thesis using system_okD(6) [OF y, of b p] p
      by (simp add: lk peer_agrees_def Let_def cong: option.case_cong)
  next
    case True
    then obtain q where q: "bt_lookup (sys_peers y) a = Some q"
      and pq: "p = q\<lparr>connection_generation := max (connection_generation q) g, state := Connected\<rparr>"
      using p by (auto simp: lk)
    have old: "peer_agrees y a q" using system_okD(6) [OF y q] .
    then have cg: "connection_generation q < next_generation (sys_sessions y)"
      and le: "connection_generation q \<le> latest_generation ps"
      and eq: "(a, latest_generation ps) \<notin> to_connect y \<Longrightarrow> connection_generation q = latest_generation ps"
      and old_live: "\<And>h. h \<in> live_generations (sys_sessions y) a \<Longrightarrow> (a, h) \<notin> to_connect y
        \<Longrightarrow> h \<le> connection_generation q"
      by (auto simp: peer_agrees_def Let_def ps(1))
    have "max (connection_generation q) g < next_generation (sys_sessions y)"
      using cg ps(2,3) by simp
    moreover have "max (connection_generation q) g \<le> latest_generation ps" using le ps(2) by simp
    moreover have "max (connection_generation q) g = latest_generation ps"
      if "(a, latest_generation ps) \<notin> to_connect y \<or> g = latest_generation ps"
      using that eq le ps(2) by (auto simp: max_def)
    moreover have "h \<le> max (connection_generation q) g"
      if "h \<in> live_generations (sys_sessions y) a" "(a, h) \<notin> to_connect y \<or> h = g" for h
      using that old_live [of h] by (auto simp: le_max_iff_disj)
    ultimately show ?thesis using True system_okD(4) [OF y, of a]
      by (auto simp: peer_agrees_def Let_def ps(1) pq)
  qed
  have dom: "bt_lookup (sys_peers ?z) b \<noteq> None" if "h \<in> live_generations (sys_sessions y) b" for b h
    using system_okD(5) [OF y that] by (cases "b = a") (auto simp: lk)
  have above: "above_all ?z b h" if t': "(b, h) \<in> taken y" for b h
  proof -
    have old: "above_all y b h" using system_okD(7) [OF y t'] .
    have "g < h" if "b = a" using old ps that le_less_trans by (auto simp: above_all_def)
    then show ?thesis using old by (auto simp: above_all_def lk)
  qed
  show ?thesis
    by (rule system_okI) (use system_okD(1-5) [OF y] agree dom above in \<open>simp_all\<close>)
qed

lemma ok_close:
  assumes y: "system_ok y" and gl: "g \<in> live_generations (sys_sessions y) a" and nt: "(a, g) \<notin> to_connect y"
    and un: "unregister a g (sys_sessions y) = (s', r)"
  shows "system_ok (y\<lparr>sys_sessions := s',
      to_finish := (case r of None \<Rightarrow> to_finish y | Some l \<Rightarrow> insert (a, l) (to_finish y))\<rparr>)" (is "system_ok ?z")
  using system_okD(1) [OF y] gl un
proof (cases rule: unregisterE)
  case (kept ps qs)
  have agree: "peer_agrees ?z b p" if "bt_lookup (sys_peers y) b = Some p" for b p
    using system_okD(6) [OF y that] kept by (auto simp: peer_agrees_def Let_def cong: option.case_cong)
  have "h \<in> live_generations s' b" if "(b, h) \<in> to_connect y" for b h
    using system_okD(2) [OF y that] nt that kept(8) by auto
  moreover have sub: "h \<in> live_generations (sys_sessions y) b" if "h \<in> live_generations s' b" for b h
    using that kept(8) by (auto split: if_splits)
  moreover have "bt_lookup (sys_peers y) b \<noteq> None" if "h \<in> live_generations s' b" for b h
    using system_okD(5) [OF y sub [OF that]] .
  moreover have "above_all ?z b h" if "(b, h) \<in> taken y" for b h
    using system_okD(7) [OF y that] kept by (auto simp: above_all_def)
  ultimately show ?thesis
    by (intro system_okI) (use system_okD(3,4) [OF y] agree kept(2,6,7) in \<open>simp_all\<close>)
next
  case (gone ps)
  have none: "(a, h) \<notin> to_connect y" for h using system_okD(2) [OF y, of a h] gone(3) nt by auto
  have l: "latest_generation ps < next_generation (sys_sessions y)"
    using registry_bound_lookup [OF system_okD(1) [OF y] gone(1)] by (simp add: sessions_bound_def)
  have agree: "peer_agrees ?z b p" if p: "bt_lookup (sys_peers y) b = Some p" for b p
  proof (cases "b = a")
    case True
    have "connection_generation p = latest_generation ps"
      using system_okD(6) [OF y p] none True gone(1) by (simp add: peer_agrees_def Let_def)
    then show ?thesis using True l by (simp add: peer_agrees_def Let_def gone)
  next
    case False
    then show ?thesis using system_okD(6) [OF y p] by (simp add: peer_agrees_def Let_def gone cong: option.case_cong)
  qed
  have "h \<in> live_generations s' b" if "(b, h) \<in> to_connect y" for b h
    using system_okD(2) [OF y that] none that gone(7) by auto
  moreover have sub: "h \<in> live_generations (sys_sessions y) b \<and> b \<noteq> a" if "h \<in> live_generations s' b" for b h
    using that gone(7) by (auto split: if_splits)
  moreover have "bt_lookup (sys_peers y) b \<noteq> None" if "h \<in> live_generations s' b" for b h
    using system_okD(5) [OF y conjunct1 [OF sub [OF that]]] .
  moreover have "above_all ?z b h" if "(b, h) \<in> taken y" for b h
    using system_okD(7) [OF y that] gone by (auto simp: above_all_def)
  ultimately show ?thesis
    by (intro system_okI) (use system_okD(3,4) [OF y] agree gone(2,5,6) l in \<open>auto\<close>)
qed

lemma ok_finish:
  assumes y: "system_ok y" and t: "(a, l) \<in> to_finish y"
  shows "system_ok (y\<lparr>sys_peers := fst (disconnect_if_generation a l (sys_peers y)),
      to_finish := to_finish y - {(a, l)}\<rparr>)" (is "system_ok ?z")
proof -
  have lk: "bt_lookup (fst (disconnect_if_generation a l (sys_peers y))) b = (case bt_lookup (sys_peers y) b of None \<Rightarrow> None
      | Some q \<Rightarrow> Some (if b = a \<and> connection_generation q = l
                        then clear_peer_summary (q\<lparr>state := Disconnected\<rparr>) else q))" for b
    by (auto simp: disconnect_if_generation_def split: option.split)
  have agree: "peer_agrees ?z b p" if p: "bt_lookup (sys_peers ?z) b = Some p" for b p
  proof -
    obtain q where q: "bt_lookup (sys_peers y) b = Some q"
      and pq: "p = (if b = a \<and> connection_generation q = l then clear_peer_summary (q\<lparr>state := Disconnected\<rparr>) else q)"
      using p by (auto simp: lk split: option.splits)
    have old: "peer_agrees y b q" using system_okD(6) [OF y q] .
    show ?thesis
    proof (cases "b = a \<and> connection_generation q = l")
      case True
      have "(a, g) \<in> to_connect y" if g: "g \<in> live_generations (sys_sessions y) a" for g
      proof (rule ccontr)
        assume "(a, g) \<notin> to_connect y"
        then have "g \<le> connection_generation q" using old True g by (simp add: peer_agrees_def Let_def)
        then show False using system_okD(4) [OF y t g] True by simp
      qed
      then show ?thesis using True old
        by (auto simp: peer_agrees_def Let_def pq clear_peer_summary_def split: option.splits)
    next
      case False
      then have "p = q" unfolding pq by (rule if_not_P)
      then show ?thesis using False old by (auto simp: peer_agrees_def Let_def split: option.splits)
    qed
  qed
  have dom: "bt_lookup (sys_peers ?z) b \<noteq> None" if "h \<in> live_generations (sys_sessions y) b" for b h
    using system_okD(5) [OF y that] by (auto simp: lk)
  have above: "above_all ?z b h" if "(b, h) \<in> taken y" for b h
    using system_okD(7) [OF y that]
    by (auto simp: above_all_def lk clear_peer_summary_def split: option.splits)
  show ?thesis
  proof (rule system_okI)
    show "registry_bound (sys_sessions ?z)" using system_okD(1) [OF y] by simp
    show "k < next_generation (sys_sessions ?z)" if "(b, k) \<in> to_finish ?z" for b k
      using system_okD(3) [OF y, of b k] that by simp
    show "k < g" if "(b, k) \<in> to_finish ?z" "g \<in> live_generations (sys_sessions ?z) b" for b k g
      using system_okD(4) [OF y, of b k g] that by simp
    show "g \<in> live_generations (sys_sessions ?z) b" if "(b, g) \<in> to_connect ?z" for b g
      using system_okD(2) [OF y, of b g] that by simp
  qed (use agree dom above in simp_all)
qed

lemma system_ok_step:
  assumes "ordered_step y z" "system_ok y"
  shows "system_ok z"
proof -
  have o: "in_order y z" and "session_step y z" using assms(1) by (simp_all add: ordered_step_def)
  from this(2) show ?thesis
  proof (rule session_stepE)
    fix a s' g p
    assume "z = y\<lparr>sys_sessions := s', taken := insert (a, g) (taken y)\<rparr>"
      "bt_lookup (sys_peers y) a = Some p" "next_generation (sys_sessions y) \<noteq> - 1"
      "take_generation (sys_sessions y) = (s', g)"
    then show ?thesis using ok_take [OF assms(2)] by simp
  next
    fix a g
    assume z: "z = y\<lparr>sys_sessions := register_at a g (sys_sessions y), taken := taken y - {(a, g)},
        to_connect := insert (a, g) (to_connect y)\<rparr>" and t: "(a, g) \<in> taken y"
    have "g \<le> h" if "(a, h) \<in> taken y" for h
      using o t that by (auto simp: in_order_def z)
    then show ?thesis using ok_open [OF assms(2) t] z by simp
  qed (use assms(2) in \<open>auto intro: ok_connect ok_close ok_finish\<close>)
qed

lemma system_ok_start: "unconnected r \<Longrightarrow> system_ok (session_start r)"
  by (auto simp: system_ok_def session_start_def sessions_new_def registry_bound_def peer_agrees_def
      live_generations_def unconnected_def Let_def)

lemma system_reachable: "ordered_step\<^sup>*\<^sup>* (session_start r) y \<Longrightarrow> unconnected r \<Longrightarrow> system_ok y"
  by (induction rule: rtranclp_induct) (auto intro: system_ok_start system_ok_step)

end
