(* ===== verification/Session_Props.thy ===== *)
theory Session_Props
  imports Session_Inv
begin

text \<open>The properties of the session registry, alone and composed with the peer registry.\<close>

lemma live_empty_lookup:
  assumes "registry_bound s" "live_generations s a = {}"
  shows "bt_lookup (sessions s) a = None"
proof (cases "bt_lookup (sessions s) a")
  case (Some ps)
  then have "active ps \<noteq> []" using registry_bound_lookup [OF assms(1)] by (simp add: sessions_bound_def)
  then show ?thesis using assms(2) Some by (simp add: live_generations_def)
qed simp

definition one_peer :: peer_registry where
  "one_peer = [(''a'', peer_new ''a'' True)]"

section \<open>Runs of one peer\<close>

text \<open>The steps as functions of the state.\<close>

definition do_take :: "string \<Rightarrow> session_system \<Rightarrow> session_system" where
  "do_take a y = y\<lparr>sys_sessions := fst (take_generation (sys_sessions y)),
     taken := insert (a, next_generation (sys_sessions y)) (taken y)\<rparr>"

definition do_open :: "string \<Rightarrow> u64 \<Rightarrow> session_system \<Rightarrow> session_system" where
  "do_open a g y = y\<lparr>sys_sessions := register_at a g (sys_sessions y), taken := taken y - {(a, g)},
     to_connect := insert (a, g) (to_connect y)\<rparr>"

definition do_connect :: "string \<Rightarrow> u64 \<Rightarrow> session_system \<Rightarrow> session_system" where
  "do_connect a g y = y\<lparr>sys_peers := connect_session a g (sys_peers y), to_connect := to_connect y - {(a, g)}\<rparr>"

definition do_close :: "string \<Rightarrow> u64 \<Rightarrow> session_system \<Rightarrow> session_system" where
  "do_close a g y = y\<lparr>sys_sessions := fst (unregister a g (sys_sessions y)),
     to_finish := (case snd (unregister a g (sys_sessions y)) of None \<Rightarrow> to_finish y | Some l \<Rightarrow> insert (a, l) (to_finish y))\<rparr>"

definition do_finish :: "string \<Rightarrow> u64 \<Rightarrow> session_system \<Rightarrow> session_system" where
  "do_finish a l y = y\<lparr>sys_peers := fst (disconnect_if_generation a l (sys_peers y)),
     to_finish := to_finish y - {(a, l)}\<rparr>"

lemma do_steps:
  "bt_lookup (sys_peers y) a \<noteq> None \<Longrightarrow> next_generation (sys_sessions y) \<noteq> - 1 \<Longrightarrow> session_step y (do_take a y)"
  "(a, g) \<in> taken y \<Longrightarrow> session_step y (do_open a g y)"
  "(a, g) \<in> to_connect y \<Longrightarrow> session_step y (do_connect a g y)"
  "g \<in> live_generations (sys_sessions y) a \<Longrightarrow> (a, g) \<notin> to_connect y \<Longrightarrow> session_step y (do_close a g y)"
  "(a, l) \<in> to_finish y \<Longrightarrow> session_step y (do_finish a l y)"
  unfolding do_take_def do_open_def do_connect_def do_close_def do_finish_def
  by (auto intro: session_step.intros simp: take_generation_def)

lemmas do_defs = do_take_def do_open_def do_connect_def do_close_def do_finish_def take_generation_def
  register_at_def unregister_def connect_session_def modify_peer_def disconnect_if_generation_def
  live_generations_def session_start_def one_peer_def sessions_new_def bt_lookup_def Let_def

definition one_session :: session_system where
  "one_session = do_connect ''a'' 1 (do_open ''a'' 1 (do_take ''a'' (session_start one_peer)))"

lemma one_session_reached: "ordered_step\<^sup>*\<^sup>* (session_start one_peer) one_session"
proof -
  let ?y = "session_start one_peer"
  have "ordered_step ?y (do_take ''a'' ?y)"
    unfolding ordered_step_def by (intro conjI do_steps(1)) (simp_all add: in_order_def do_defs)
  moreover have "ordered_step (do_take ''a'' ?y) (do_open ''a'' 1 (do_take ''a'' ?y))"
    unfolding ordered_step_def by (intro conjI do_steps(2)) (simp_all add: in_order_def do_defs)
  moreover have "ordered_step (do_open ''a'' 1 (do_take ''a'' ?y)) one_session"
    unfolding ordered_step_def one_session_def
    by (intro conjI do_steps(3)) (simp_all add: in_order_def do_defs)
  ultimately show ?thesis by (meson rtranclp.rtrancl_refl rtranclp.rtrancl_into_rtrancl)
qed

text \<open>Without the order the property fails both ways. Two transports of one peer take the
  generations 1 and 2, and the second enters the registry first. When both have ended, the report of
  the last one carries generation 1, the peer's entry has 2: the peer stays connected with no
  transport and nothing pending. And when the first enters the registry only after the second has
  come and gone, the report of the second disconnects the peer whose first transport is live.\<close>

definition overtaken_start :: session_system where
  "overtaken_start = do_open ''a'' 2 (do_take ''a'' (do_take ''a'' (session_start one_peer)))"

definition overtaken_idle :: session_system where
  "overtaken_idle = do_finish ''a'' 1 (do_close ''a'' 1 (do_close ''a'' 2
     (do_connect ''a'' 2 (do_connect ''a'' 1 (do_open ''a'' 1 overtaken_start)))))"

definition overtaken_live :: session_system where
  "overtaken_live = do_finish ''a'' 2 (do_connect ''a'' 1 (do_open ''a'' 1
     (do_close ''a'' 2 (do_connect ''a'' 2 overtaken_start))))"

lemma overtaken_start_reached: "session_step\<^sup>*\<^sup>* (session_start one_peer) overtaken_start"
proof -
  let ?y = "session_start one_peer"
  have "session_step ?y (do_take ''a'' ?y)"
    by (rule do_steps(1)) (simp_all add: do_defs)
  moreover have "session_step (do_take ''a'' ?y) (do_take ''a'' (do_take ''a'' ?y))"
    by (rule do_steps(1)) (simp_all add: do_defs)
  moreover have "session_step (do_take ''a'' (do_take ''a'' ?y)) overtaken_start"
    unfolding overtaken_start_def by (rule do_steps(2)) (simp add: do_defs)
  ultimately show ?thesis by (meson rtranclp.rtrancl_refl rtranclp.rtrancl_into_rtrancl)
qed

lemma reached_steps:
  assumes "session_step\<^sup>*\<^sup>* x y"
  shows "(a, g) \<in> taken y \<Longrightarrow> session_step\<^sup>*\<^sup>* x (do_open a g y)"
    and "(a, g) \<in> to_connect y \<Longrightarrow> session_step\<^sup>*\<^sup>* x (do_connect a g y)"
    and "g \<in> live_generations (sys_sessions y) a \<Longrightarrow> (a, g) \<notin> to_connect y \<Longrightarrow>
      session_step\<^sup>*\<^sup>* x (do_close a g y)"
    and "(a, l) \<in> to_finish y \<Longrightarrow> session_step\<^sup>*\<^sup>* x (do_finish a l y)"
  using assms do_steps(2-5) by (meson rtranclp.rtrancl_into_rtrancl)+

lemma overtaken_idle_reached: "session_step\<^sup>*\<^sup>* (session_start one_peer) overtaken_idle"
  unfolding overtaken_idle_def
  by (intro overtaken_start_reached reached_steps; simp add: overtaken_start_def do_defs bt_remove_def)

lemma overtaken_live_reached: "session_step\<^sup>*\<^sup>* (session_start one_peer) overtaken_live"
  unfolding overtaken_live_def
  by (intro overtaken_start_reached reached_steps; simp add: overtaken_start_def do_defs bt_remove_def)

lemma overtaken_registration:
  "map_option state (bt_lookup (sys_peers overtaken_idle) ''a'') = Some Connected"
  "live_generations (sys_sessions overtaken_idle) ''a'' = {}"
  "taken overtaken_idle = {} \<and> to_connect overtaken_idle = {} \<and> to_finish overtaken_idle = {}"
  "map_option state (bt_lookup (sys_peers overtaken_live) ''a'') = Some Disconnected"
  "live_generations (sys_sessions overtaken_live) ''a'' = {1}"
  "taken overtaken_live = {} \<and> to_connect overtaken_live = {} \<and> to_finish overtaken_live = {}"
  by (simp_all add: overtaken_idle_def overtaken_live_def overtaken_start_def do_defs bt_remove_def
      peer_new_def clear_peer_summary_def)

text \<open>C31: as long as no registration is overtaken by another one of its peer between taking its
  generation and entering the registry, and however the transports of a peer interleave otherwise,
  once none of them has an update pending the peer is marked connected exactly when one of its
  transports is live: a connection that ends never disconnects a newer one, and the last one to end
  always does disconnect the peer. The steps are those of established transports, fewer than 2^64 of
  them; a dial that fails is not among them. The code does not enforce that order, and without it
  both directions fail: a peer can stay connected with no transport and nothing pending, and be
  marked disconnected while a transport is live.\<close>

theorem connected_iff_live_session:
  assumes "unconnected r" "ordered_step\<^sup>*\<^sup>* (session_start r) y"
    and "bt_lookup (sys_peers y) a = Some p"
    and "\<And>g. (a, g) \<notin> to_connect y" "\<And>g. (a, g) \<notin> to_finish y"
  shows "(state p = Connected \<longleftrightarrow> live_generations (sys_sessions y) a \<noteq> {})
    \<and> (\<exists>z z' q q' g. session_step\<^sup>*\<^sup>* (session_start one_peer) z \<and> session_step\<^sup>*\<^sup>* (session_start one_peer) z'
        \<and> taken z = {} \<and> to_connect z = {} \<and> to_finish z = {}
        \<and> taken z' = {} \<and> to_connect z' = {} \<and> to_finish z' = {}
        \<and> bt_lookup (sys_peers z) ''a'' = Some q \<and> state q = Connected
        \<and> live_generations (sys_sessions z) ''a'' = {}
        \<and> bt_lookup (sys_peers z') ''a'' = Some q' \<and> state q' = Disconnected
        \<and> live_generations (sys_sessions z') ''a'' = {g})"
proof -
  have ok: "system_ok y" using assms(2,1) by (rule system_reachable)
  have agree: "peer_agrees y a p" using system_okD(6) [OF ok assms(3)] .
  have "state p = Connected \<longleftrightarrow> live_generations (sys_sessions y) a \<noteq> {}"
  proof
    assume "state p = Connected"
    then show "live_generations (sys_sessions y) a \<noteq> {}"
      using agree assms(5) live_empty_lookup [OF system_okD(1) [OF ok], of a]
      by (auto simp: peer_agrees_def Let_def)
  next
    assume "live_generations (sys_sessions y) a \<noteq> {}"
    then show "state p = Connected" using agree assms(4) by (auto simp: peer_agrees_def Let_def)
  qed
  then show ?thesis
    using overtaken_idle_reached overtaken_live_reached overtaken_registration
    by (simp only: map_option_eq_Some) blast
qed

theorem connected_iff_live_session_witness:
  "\<exists>p. bt_lookup (sys_peers one_session) ''a'' = Some p \<and>
     (state p = Connected \<longleftrightarrow> live_generations (sys_sessions one_session) ''a'' \<noteq> {})"
proof -
  obtain p where p: "bt_lookup (sys_peers one_session) ''a'' = Some p"
    by (simp add: one_session_def do_defs)
  have "unconnected one_peer" by (simp add: unconnected_def one_peer_def bt_lookup_def peer_new_def)
  then show ?thesis
    using connected_iff_live_session [OF _ one_session_reached p] p
    by (simp add: one_session_def do_defs)
qed

section \<open>Announcements\<close>

definition has_room :: "session_sender \<Rightarrow> bool" where
  "has_room x \<longleftrightarrow> ss_open x \<and> length (ss_queue x) < 32"

lemma try_send_alt: "try_send m x = (if has_room x then (x\<lparr>ss_queue := ss_queue x @ [m]\<rparr>, True) else (x, False))"
  by (simp add: try_send_def has_room_def SESSION_OUTBOUND_CAPACITY_def)

definition sent_first :: "p2p_message \<Rightarrow> session_sender list \<Rightarrow> session_sender list \<Rightarrow> bool" where
  "sent_first m xs xs' \<longleftrightarrow> (\<exists>us x vs. xs = us @ x # vs \<and> has_room x \<and> (\<forall>u\<in>set us. \<not> has_room u) \<and>
     xs' = us @ x\<lparr>ss_queue := ss_queue x @ [m]\<rparr> # vs)"

lemma send_any_cases:
  "(case send_any m xs of (xs', ok) \<Rightarrow>
     if \<exists>x\<in>set xs. has_room x then ok \<and> sent_first m xs xs' else \<not> ok \<and> xs' = xs)"
proof (induction xs)
  case Nil
  then show ?case by simp
next
  case (Cons x xs)
  show ?case
  proof (cases "has_room x")
    case True
    then show ?thesis
      by (auto simp: try_send_alt sent_first_def intro!: exI [of _ "[]"])
  next
    case False
    obtain xs' ok where s: "send_any m xs = (xs', ok)" by fastforce
    show ?thesis
    proof (cases "\<exists>y\<in>set xs. has_room y")
      case True
      then obtain us y vs where "xs = us @ y # vs" "has_room y" "\<forall>u\<in>set us. \<not> has_room u"
        "xs' = us @ y\<lparr>ss_queue := ss_queue y @ [m]\<rparr> # vs" and ok: ok
        using Cons s by (auto simp: sent_first_def)
      then have "sent_first m (x # xs) (x # xs')"
        using \<open>\<not> has_room x\<close> unfolding sent_first_def by (intro exI [of _ "x # us"] exI [of _ y] exI [of _ vs]) simp
      then show ?thesis using \<open>\<not> has_room x\<close> True s ok by (simp add: try_send_alt)
    next
      case None: False
      then show ?thesis using \<open>\<not> has_room x\<close> Cons s by (simp add: try_send_alt)
    qed
  qed
qed

definition reachable_peer :: "string option \<Rightarrow> string \<Rightarrow> peer_sessions \<Rightarrow> bool" where
  "reachable_peer exclude a ps \<longleftrightarrow> exclude \<noteq> Some a \<and> (\<exists>x\<in>set (active ps). has_room x)"

definition announced :: "p2p_message \<Rightarrow> string option \<Rightarrow> string \<Rightarrow> peer_sessions \<Rightarrow> peer_sessions \<Rightarrow> bool" where
  "announced m exclude a ps ps' \<longleftrightarrow> latest_generation ps' = latest_generation ps \<and>
     (if reachable_peer exclude a ps then sent_first m (active ps) (active ps') else active ps' = active ps)"

lemma announce_one:
  assumes "send_any m (active ps) = (xs, ok)"
  shows "announced m exclude a ps (if exclude = Some a then ps else ps\<lparr>active := xs\<rparr>)"
    and "exclude \<noteq> Some a \<Longrightarrow> reachable_peer exclude a ps \<longleftrightarrow> ok"
  using send_any_cases [where m = m and xs = "active ps"] assms
  by (auto simp: announced_def reachable_peer_def split: if_splits)

lemma announce_all_spec:
  assumes "announce_all m exclude ss = (ss', n)"
  shows "map fst ss' = map fst ss \<and> n = length (filter (\<lambda>(a, ps). reachable_peer exclude a ps) ss) \<and>
    list_all2 (\<lambda>p q. announced m exclude (fst p) (snd p) (snd q)) ss ss'"
  using assms
proof (induction m exclude ss arbitrary: ss' n rule: announce_all.induct)
  case (1 m exclude)
  then show ?case by simp
next
  case (2 m exclude a ps rest)
  obtain rest' k where r: "announce_all m exclude rest = (rest', k)" by fastforce
  obtain xs ok where x: "send_any m (active ps) = (xs, ok)" by fastforce
  note one = announce_one [OF x, of exclude a]
  show ?case
  proof (cases "exclude = Some a")
    case True
    then have "\<not> reachable_peer exclude a ps" by (simp add: reachable_peer_def)
    then show ?thesis using 2(2) 2(1) [OF r] one(1) r True by auto
  next
    case False
    then show ?thesis using 2(2) 2(1) [OF r] one r x by (auto split: if_splits)
  qed
qed

lemma list_all2_map_of:
  assumes "list_all2 P xs ys" "map fst ys = map fst xs"
  shows "map_of xs a = None \<and> map_of ys a = None \<or>
    (\<exists>u v. map_of xs a = Some u \<and> map_of ys a = Some v \<and> P (a, u) (a, v))"
  using assms by (induction rule: list_all2_induct) auto

lemma count_map_of:
  assumes "distinct (map fst ss)"
  shows "length (filter (\<lambda>(a, v). P a v) ss) = card {a. \<exists>v. map_of ss a = Some v \<and> P a v}"
proof -
  have "{a. \<exists>v. map_of ss a = Some v \<and> P a v} = set (map fst (filter (\<lambda>(a, v). P a v) ss))"
    using map_of_eq_Some_iff [OF assms] by force
  moreover have "distinct (map fst (filter (\<lambda>(a, v). P a v) ss))"
    using assms by (simp add: distinct_map_filter)
  ultimately show ?thesis by (metis distinct_card length_map)
qed

text \<open>C32: an announcement is queued at most once for each peer. Every peer but the excluded one that
  has a session with room in its queue of 32 messages gets it at the end of the queue of the first
  such session, every other queue is left alone, and the result is the number of peers reached.\<close>

theorem announce_once_per_peer:
  assumes "bt_wf (sessions s)" "announce_block b exclude s = (s', n)"
  shows "n = card {a. \<exists>ps. bt_lookup (sessions s) a = Some ps \<and> reachable_peer exclude a ps} \<and>
    (\<forall>a. bt_lookup (sessions s) a = None \<and> bt_lookup (sessions s') a = None \<or>
      (\<exists>ps ps'. bt_lookup (sessions s) a = Some ps \<and> bt_lookup (sessions s') a = Some ps' \<and>
        latest_generation ps' = latest_generation ps \<and>
        (if reachable_peer exclude a ps
         then sent_first (MsgAnnounceBlock (announcement_of b)) (active ps) (active ps')
         else active ps' = active ps)))"
proof -
  let ?m = "MsgAnnounceBlock (announcement_of b)"
  obtain ss' where ss: "announce_all ?m exclude (sessions s) = (ss', n)" and s': "s' = s\<lparr>sessions := ss'\<rparr>"
    using assms(2) by (auto simp: announce_block_def split: prod.splits)
  note spec = announce_all_spec [OF ss]
  have d: "distinct (map fst (sessions s))" using assms(1) by (simp add: bt_wf_def strict_sorted_iff)
  have "n = card {a. \<exists>ps. bt_lookup (sessions s) a = Some ps \<and> reachable_peer exclude a ps}"
    using spec count_map_of [OF d, of "reachable_peer exclude"] by (simp add: bt_lookup_def)
  moreover have "bt_lookup (sessions s) a = None \<and> bt_lookup (sessions s') a = None \<or>
      (\<exists>ps ps'. bt_lookup (sessions s) a = Some ps \<and> bt_lookup (sessions s') a = Some ps' \<and>
        latest_generation ps' = latest_generation ps \<and>
        (if reachable_peer exclude a ps then sent_first ?m (active ps) (active ps')
         else active ps' = active ps))" for a
    using list_all2_map_of [OF conjunct2 [OF conjunct2 [OF spec]] conjunct1 [OF spec], of a]
    by (simp add: bt_lookup_def s' announced_def)
  ultimately show ?thesis by blast
qed

theorem announce_once_per_peer_witness:
  "\<exists>s' n. announce_block genesis_block None (fst (register ''a'' sessions_new)) = (s', n) \<and> n = 1"
proof -
  let ?s = "fst (register ''a'' sessions_new)"
  obtain s' n where a: "announce_block genesis_block None ?s = (s', n)" by fastforce
  have w: "bt_wf (sessions ?s)" by (simp add: register_def take_generation_def register_at_def sessions_new_def Let_def bt_wf_def)
  have "{a. \<exists>ps. bt_lookup (sessions ?s) a = Some ps \<and> reachable_peer None a ps} = {''a''}"
    by (auto simp: register_def take_generation_def register_at_def sessions_new_def Let_def bt_lookup_def reachable_peer_def has_room_def
        split: if_splits)
  then show ?thesis using announce_once_per_peer [OF w a] a by simp
qed

end
