(* ===== verification/Wire.thy ===== *)
theory Wire
  imports Protocol Peer_Manager
begin

text \<open>
  The framing of \<open>p2p/connection.rs\<close> on bytes, and the link over which the handlers exchange
  messages: the results its reads will give (a message, an error, an elapsed timeout), whether its
  writes will succeed, what has been written, and the readings of the monotonic clock. A read when no
  more results are scripted fails like a closed connection. The message codec is bincode, a further
  field of the external record.
\<close>

section \<open>Framing\<close>

record 'db net_ext = "'db ext" +
  bincode_message :: "p2p_message \<Rightarrow> u8 list option"
  unbincode_message :: "u8 list \<Rightarrow> p2p_message option"

definition MAX_MESSAGE_BYTES :: u32 where
  "MAX_MESSAGE_BYTES = 16 * 1024 * 1024"

datatype frame_error = EncodeFailed | ShortRead | Oversized u32 | DecodeFailed

definition u32_from_be_bytes :: "u8 list \<Rightarrow> u32" where
  "u32_from_be_bytes bs = word_of_nat (nat_le (rev bs))"

text \<open>The bytes \<open>send_message\<close> writes.\<close>

definition frame_message :: "('db, 'x) net_ext_scheme \<Rightarrow> p2p_message \<Rightarrow> frame_error + u8 list" where
  "frame_message X m =
     (case bincode_message X m of
        None \<Rightarrow> Inl EncodeFailed
      | Some payload \<Rightarrow> Inr (u32_to_be_bytes (word_of_nat (length payload)) @ payload))"

definition read_exact :: "nat \<Rightarrow> u8 list \<Rightarrow> (u8 list \<times> u8 list) option" where
  "read_exact n bs = (if length bs < n then None else Some (take n bs, drop n bs))"

text \<open>What \<open>recv_message\<close> makes of the bytes that arrive, with the bytes it leaves.\<close>

definition read_frame :: "('db, 'x) net_ext_scheme \<Rightarrow> u8 list \<Rightarrow> frame_error + p2p_message \<times> u8 list" where
  "read_frame X bs =
     (case read_exact 4 bs of
        None \<Rightarrow> Inl ShortRead
      | Some (len_buf, rest) \<Rightarrow>
          (let len = u32_from_be_bytes len_buf
           in if len > MAX_MESSAGE_BYTES then Inl (Oversized len)
              else (case read_exact (unat len) rest of
                  None \<Rightarrow> Inl ShortRead
                | Some (buf, rest') \<Rightarrow>
                    (case unbincode_message X buf of
                       None \<Rightarrow> Inl DecodeFailed
                     | Some m \<Rightarrow> Inr (m, rest')))))"

section \<open>The link\<close>

datatype recv_event = RecvMsg p2p_message | RecvFailed | RecvTimeout

record link =
  inbox :: "recv_event list"
  send_results :: "bool list"
  sent :: "p2p_message list"
  instants :: "nat \<Rightarrow> instant"
  iticks :: nat

definition link_recv :: "link \<Rightarrow> link \<times> recv_event" where
  "link_recv l = (case inbox l of [] \<Rightarrow> (l, RecvFailed) | e # es \<Rightarrow> (l\<lparr>inbox := es\<rparr>, e))"

text \<open>A read without a timeout outlives the timeouts of the script.\<close>

fun skip_timeouts :: "recv_event list \<Rightarrow> recv_event list" where
  "skip_timeouts [] = []"
| "skip_timeouts (e # es) = (if e = RecvTimeout then skip_timeouts es else e # es)"

definition link_recv_wait :: "link \<Rightarrow> link \<times> recv_event" where
  "link_recv_wait l = link_recv (l\<lparr>inbox := skip_timeouts (inbox l)\<rparr>)"

definition link_send :: "p2p_message \<Rightarrow> link \<Rightarrow> link \<times> bool" where
  "link_send m l =
     (case send_results l of
        True # oks \<Rightarrow> (l\<lparr>send_results := oks, sent := sent l @ [m]\<rparr>, True)
      | False # oks \<Rightarrow> (l\<lparr>send_results := oks\<rparr>, False)
      | [] \<Rightarrow> (l, False))"

definition link_now :: "link \<Rightarrow> link \<times> instant" where
  "link_now l = (l\<lparr>iticks := iticks l + 1\<rparr>, instants l (iticks l))"

section \<open>The connection manager\<close>

text \<open>The configuration part of \<open>P2PConnectionManager\<close>.\<close>

record conn_manager =
  listen_addr :: socket_addr
  local_node_nonce :: u64
  cm_advertised_ip :: "string option"
  cm_advertised_port :: "u16 option"
  cm_allow_private :: bool

definition MAX_SHARED_PEERS :: nat where "MAX_SHARED_PEERS = 32"

definition local_handshake ::
  "('db, 'x) ext_scheme \<Rightarrow> conn_manager \<Rightarrow> peer_registry \<Rightarrow> u64 \<Rightarrow> handshake" where
  "local_handshake X cm r chain_height =
     (new_with_advertised X chain_height (local_node_nonce cm) (cm_advertised_ip cm) (cm_advertised_port cm))
       \<lparr>hs_seed_peers := dialable_addresses MAX_SHARED_PEERS (registry_values r)\<rparr>"

definition is_local_dial_address :: "conn_manager \<Rightarrow> socket_addr \<Rightarrow> bool" where
  "is_local_dial_address cm a =
     (if a = listen_addr cm then True
      else if ip_is_unspecified (socket_ip (listen_addr cm)) \<and> socket_port a = socket_port (listen_addr cm)
              \<and> ip_is_loopback (socket_ip a) then True
      else (case (cm_advertised_ip cm, cm_advertised_port cm) of
              (Some host, Some port) \<Rightarrow> port = socket_port a \<and> parse_ip host = Some (socket_ip a)
            | _ \<Rightarrow> False))"

section \<open>Facts\<close>

lemma inbox_link_send [simp]: "inbox (fst (link_send m l)) = inbox l"
  by (auto simp: link_send_def split: list.split bool.split)

lemma inbox_link_now [simp]: "inbox (fst (link_now l)) = inbox l"
  by (simp add: link_now_def)

lemma length_skip_timeouts: "length (skip_timeouts es) \<le> length es"
  by (induction es) auto

lemma link_recv_wait_less:
  assumes "link_recv_wait l = (l', RecvMsg m)"
  shows "length (inbox l') < length (inbox l)"
proof -
  have "length (inbox l') < length (skip_timeouts (inbox l))"
    using assms by (auto simp: link_recv_wait_def link_recv_def split: list.splits)
  also have "\<dots> \<le> length (inbox l)" by (rule length_skip_timeouts)
  finally show ?thesis .
qed

lemma link_recv_less: "link_recv l = (l', RecvMsg m) \<Longrightarrow> length (inbox l') < length (inbox l)"
  by (auto simp: link_recv_def split: list.splits)

end
