(* ===== verification/Recovery.thy ===== *)
theory Recovery
  imports Protocol Peer_Manager
begin

text \<open>
  \<open>node/recovery.rs\<close>: the claim of a peer that pauses mining. The state is the claim itself,
  if any.
\<close>

datatype recovery_mode = Normal | HigherWorkRecovery | RecoveryLimited | HighRiskFork

definition mode_as_str :: "recovery_mode \<Rightarrow> string" where
  "mode_as_str m =
     (case m of
        Normal \<Rightarrow> ''normal''
      | HigherWorkRecovery \<Rightarrow> ''higher_work_recovery''
      | RecoveryLimited \<Rightarrow> ''recovery_limited''
      | HighRiskFork \<Rightarrow> ''high_risk_fork'')"

record recovery_claim =
  rc_mode :: recovery_mode
  rc_peer :: string
  rc_local :: chain_summary
  rc_remote :: chain_summary
  rc_reason :: string
  rc_updated_at :: instant

type_synonym recovery_state = "recovery_claim option"

record recovery_snapshot =
  rs_state :: string
  rs_peer :: "string option"
  rs_local_height :: "u64 option"
  rs_local_work :: "u128 option"
  rs_local_tip :: "string option"
  rs_remote_height :: "u64 option"
  rs_remote_work :: "u128 option"
  rs_remote_tip :: "string option"
  rs_reason :: "string option"

definition recovery_new :: recovery_state where
  "recovery_new = None"

definition begin_higher_work_recovery ::
  "string \<Rightarrow> chain_summary \<Rightarrow> chain_summary \<Rightarrow> instant \<Rightarrow> recovery_state \<Rightarrow> recovery_state" where
  "begin_higher_work_recovery a local_s remote_s now st =
     Some \<lparr>rc_mode = HigherWorkRecovery, rc_peer = a, rc_local = local_s, rc_remote = remote_s,
           rc_reason = ''peer advertised strictly greater cumulative work'', rc_updated_at = now\<rparr>"

definition mark_limited :: "string \<Rightarrow> instant \<Rightarrow> recovery_state \<Rightarrow> recovery_state" where
  "mark_limited reason now st =
     map_option (\<lambda>c. c\<lparr>rc_mode := RecoveryLimited, rc_reason := reason, rc_updated_at := now\<rparr>) st"

definition mark_high_risk :: "string \<Rightarrow> instant \<Rightarrow> recovery_state \<Rightarrow> recovery_state" where
  "mark_high_risk reason now st =
     map_option (\<lambda>c. c\<lparr>rc_mode := HighRiskFork, rc_reason := reason, rc_updated_at := now\<rparr>) st"

definition recovery_clear :: "recovery_state \<Rightarrow> recovery_state" where
  "recovery_clear st = None"

definition clear_if_local_satisfies_claim :: "chain_summary \<Rightarrow> recovery_state \<Rightarrow> recovery_state \<times> bool" where
  "clear_if_local_satisfies_claim local_s st =
     (let claim_satisfied = (case st of None \<Rightarrow> False
                               | Some c \<Rightarrow> sum_work local_s \<ge> sum_work (rc_remote c))
      in (if claim_satisfied then None else st, claim_satisfied))"

definition should_pause_mining :: "recovery_state \<Rightarrow> bool" where
  "should_pause_mining st = (st \<noteq> None)"

definition recovery_mode_of :: "recovery_state \<Rightarrow> recovery_mode" where
  "recovery_mode_of st = (case st of None \<Rightarrow> Normal | Some c \<Rightarrow> rc_mode c)"

definition recovery_snapshot_of :: "recovery_state \<Rightarrow> recovery_snapshot" where
  "recovery_snapshot_of st =
     (case st of
        Some c \<Rightarrow>
          \<lparr>rs_state = mode_as_str (rc_mode c), rs_peer = Some (rc_peer c),
           rs_local_height = Some (sum_height (rc_local c)), rs_local_work = Some (sum_work (rc_local c)),
           rs_local_tip = sum_tip (rc_local c), rs_remote_height = Some (sum_height (rc_remote c)),
           rs_remote_work = Some (sum_work (rc_remote c)), rs_remote_tip = sum_tip (rc_remote c),
           rs_reason = Some (rc_reason c)\<rparr>
      | None \<Rightarrow>
          \<lparr>rs_state = mode_as_str Normal, rs_peer = None, rs_local_height = None, rs_local_work = None,
           rs_local_tip = None, rs_remote_height = None, rs_remote_work = None, rs_remote_tip = None,
           rs_reason = None\<rparr>)"

end
