(* ===== verification/Sync.thy ===== *)
theory Sync
  imports Wire Recovery Accept Mempool
begin

text \<open>
  \<open>p2p/sync.rs\<close>: the decision to synchronise, the guard, fetching a branch from a peer over a
  link, importing it, and one step of the watchdog. The chain lock is taken for single reads and
  single blocks in the code; here nobody else takes it while a branch is fetched and imported.
  The text of an I/O error is not known; of the others the text is the code's, because the recovery
  logic searches it.
\<close>

section \<open>The decision\<close>

datatype sync_decision = Synced | Behind string u64 | HigherWork string u128 u128

definition should_sync :: "(nat \<Rightarrow> instant) \<Rightarrow> peer_registry \<Rightarrow> u64 \<Rightarrow> sync_decision" where
  "should_sync clk r local_height =
     (let ps = registry_values r;
          lag = saturating_sub (best_remote_height (clk 0) ps) local_height
      in if lag < SYNC_LAG_THRESHOLD then Synced
         else (case best_sync_target (clk 1) local_height ps of
                 Some a \<Rightarrow> Behind a lag
               | None \<Rightarrow> Synced))"

definition work_decision :: "instant \<Rightarrow> peer_registry \<Rightarrow> chain_summary \<Rightarrow> sync_decision" where
  "work_decision now r local_s =
     (case sum_tip local_s of
        None \<Rightarrow> Synced
      | Some local_tip \<Rightarrow>
          (case best_work_sync_target now local_tip (sum_work local_s) (registry_values r) of
             None \<Rightarrow> Synced
           | Some a \<Rightarrow>
               (case peer_summary r a of
                  None \<Rightarrow> Synced
                | Some remote \<Rightarrow> HigherWork a (sum_work remote) (sum_work local_s))))"

definition should_sync_for_summary :: "(nat \<Rightarrow> instant) \<Rightarrow> peer_registry \<Rightarrow> chain_summary \<Rightarrow> sync_decision" where
  "should_sync_for_summary clk r local_s =
     (let ps = registry_values r;
          lag = saturating_sub (best_remote_height (clk 0) ps) (sum_height local_s)
      in case (if lag \<ge> SYNC_LAG_THRESHOLD then best_sync_target (clk 1) (sum_height local_s) ps else None) of
           Some a \<Rightarrow> Behind a lag
         | None \<Rightarrow> work_decision (clk 2) r local_s)"

section \<open>The guard\<close>

record sync_guard =
  in_progress :: bool
  cooldown_until :: "instant option"

definition guard_new :: sync_guard where
  "guard_new = \<lparr>in_progress = False, cooldown_until = None\<rparr>"

definition is_throttled :: "instant \<Rightarrow> sync_guard \<Rightarrow> bool" where
  "is_throttled now g = (case cooldown_until g of None \<Rightarrow> False | Some t \<Rightarrow> now < t)"

definition is_blocked :: "instant \<Rightarrow> sync_guard \<Rightarrow> bool" where
  "is_blocked now g = (in_progress g \<or> is_throttled now g)"

definition mark_started :: "sync_guard \<Rightarrow> sync_guard" where
  "mark_started g = g\<lparr>in_progress := True\<rparr>"

definition mark_done :: "instant \<Rightarrow> sync_guard \<Rightarrow> sync_guard" where
  "mark_done now g =
     g\<lparr>in_progress := False, cooldown_until := Some (now + unat STALL_OVERRIDE_SECS * 1000000000)\<rparr>"

section \<open>Errors\<close>

datatype sync_error =
    SyncIo string
  | RejectedHandshake string
  | UnexpectedHandshake string
  | HandshakeRefused handshake_result
  | RejectedHeightQuery string
  | UnexpectedHeight string
  | HeightLimit string
  | NoTip u64
  | SyncLoop string
  | RejectedBlockRequest string
  | UnexpectedBlock string
  | WrongBlock string string
  | ImportOrphan string
  | ImportRejected reject_reason

text \<open>The texts, up to the rendering of numbers and of the two enumerations.\<close>

definition sync_error_text :: "sync_error \<Rightarrow> string" where
  "sync_error_text e =
     (case e of
        SyncIo s \<Rightarrow> s
      | RejectedHandshake r \<Rightarrow> ''peer rejected sync handshake: '' @ r
      | UnexpectedHandshake l \<Rightarrow> ''unexpected handshake reply: '' @ l
      | HandshakeRefused h \<Rightarrow> ''sync handshake rejected: ''
      | RejectedHeightQuery r \<Rightarrow> ''peer rejected height query: '' @ r
      | UnexpectedHeight l \<Rightarrow> ''unexpected height reply: '' @ l
      | HeightLimit a \<Rightarrow> ''height query exceeded message limit for '' @ a
      | NoTip h \<Rightarrow> ''peer reported no tip hash at height '' @ u64_to_string h
      | SyncLoop h \<Rightarrow> ''sync loop detected at '' @ h
      | RejectedBlockRequest r \<Rightarrow> ''peer rejected block request: '' @ r
      | UnexpectedBlock l \<Rightarrow> ''unexpected block reply: '' @ l
      | WrongBlock w g \<Rightarrow> ''requested block '' @ w @ '' but received '' @ g
      | ImportOrphan h \<Rightarrow> ''sync import stored orphan '' @ h
      | ImportRejected r \<Rightarrow> ''sync import rejected: '')"

text \<open>\<open>str::contains\<close>.\<close>

fun contains_str :: "string \<Rightarrow> string \<Rightarrow> bool" where
  "contains_str p [] = (p = [])"
| "contains_str p (c # cs) = (strip_prefix p (c # cs) \<noteq> None \<or> contains_str p cs)"

section \<open>Fetching\<close>

text \<open>At most \<open>n\<close> messages while waiting for the peer's summary; \<open>own\<close> is the summary the
  node answers with.\<close>

fun await_height :: "nat \<Rightarrow> string \<Rightarrow> chain_summary \<Rightarrow> link \<Rightarrow> link \<times> (sync_error + chain_summary)" where
  "await_height 0 a own l = (l, Inl (HeightLimit a))"
| "await_height (Suc n) a own l =
     (case link_recv l of
        (l1, RecvTimeout) \<Rightarrow> (l1, Inl (SyncIo ''deadline has elapsed''))
      | (l1, RecvFailed) \<Rightarrow> (l1, Inl (SyncIo ''io''))
      | (l1, RecvMsg m) \<Rightarrow>
         (case m of
            MsgHeight s \<Rightarrow> (l1, Inr s)
          | MsgGetHeight \<Rightarrow>
              (case link_send (MsgHeight own) l1 of
                 (l2, False) \<Rightarrow> (l2, Inl (SyncIo ''io''))
               | (l2, True) \<Rightarrow> await_height n a own l2)
          | MsgPing t \<Rightarrow>
              (case link_send (MsgPong t) l1 of
                 (l2, False) \<Rightarrow> (l2, Inl (SyncIo ''io''))
               | (l2, True) \<Rightarrow> await_height n a own l2)
          | MsgDisconnect reason \<Rightarrow> (l1, Inl (RejectedHeightQuery reason))
          | other \<Rightarrow> (l1, Inl (UnexpectedHeight (msg_label other)))))"

lemma inbox_send_eq: "link_send m l = (l', ok) \<Longrightarrow> inbox l' = inbox l"
  using inbox_link_send [of m l] by simp

text \<open>The inner loop: reads until the requested block arrives.\<close>

function (sequential) await_block :: "chain_summary \<Rightarrow> link \<Rightarrow> link \<times> (sync_error + block)" where
  "await_block own l =
     (case link_recv_wait l of
        (l1, RecvMsg m) \<Rightarrow>
         (case m of
            MsgBlock b \<Rightarrow> (l1, Inr b)
          | MsgAnnounceBlock an \<Rightarrow> await_block own l1
          | MsgGetHeight \<Rightarrow>
              (case link_send (MsgHeight own) l1 of
                 (l2, False) \<Rightarrow> (l2, Inl (SyncIo ''io''))
               | (l2, True) \<Rightarrow> await_block own l2)
          | MsgPing t \<Rightarrow>
              (case link_send (MsgPong t) l1 of
                 (l2, False) \<Rightarrow> (l2, Inl (SyncIo ''io''))
               | (l2, True) \<Rightarrow> await_block own l2)
          | MsgDisconnect reason \<Rightarrow> (l1, Inl (RejectedBlockRequest reason))
          | other \<Rightarrow> (l1, Inl (UnexpectedBlock (msg_label other))))
      | (l1, _) \<Rightarrow> (l1, Inl (SyncIo ''io'')))"
  by pat_completeness auto

termination
proof (relation "measure (\<lambda>(own, l). length (inbox l))")
  show "wf (measure (\<lambda>(own :: chain_summary, l :: link). length (inbox l)))" by simp
qed (simp_all, (metis inbox_send_eq link_recv_wait_less)+)

declare await_block.simps [simp del]

lemma await_block_less:
  "await_block own l = (l', Inr b) \<Longrightarrow> length (inbox l') < length (inbox l)"
proof (induction own l rule: await_block.induct)
  case (1 own l)
  obtain l1 ev where rv: "link_recv_wait l = (l1, ev)" by fastforce
  show ?case
  proof (cases ev)
    case (RecvMsg m)
    then have less: "length (inbox l1) < length (inbox l)" using rv link_recv_wait_less by simp
    have go: "length (inbox l') < length (inbox l)"
      if "link_send m' l1 = (l2, True)" "length (inbox l') < length (inbox l2)" for m' l2
      using that less inbox_send_eq [OF that(1)] by simp
    show ?thesis
    proof (cases m)
      case (MsgPing t)
      obtain l2 ok where s: "link_send (MsgPong t) l1 = (l2, ok)" by fastforce
      then have "await_block own l2 = (l', Inr b)" "ok"
        using 1(4) by (simp_all add: await_block.simps [of own l] rv RecvMsg MsgPing split: bool.splits)
      then show ?thesis using 1(1) [OF rv [symmetric] RecvMsg MsgPing s [symmetric]] go s by simp
    next
      case MsgGetHeight
      obtain l2 ok where s: "link_send (MsgHeight own) l1 = (l2, ok)" by fastforce
      then have "await_block own l2 = (l', Inr b)" "ok"
        using 1(4) by (simp_all add: await_block.simps [of own l] rv RecvMsg MsgGetHeight split: bool.splits)
      then show ?thesis using 1(2) [OF rv [symmetric] RecvMsg MsgGetHeight s [symmetric]] go s by simp
    next
      case (MsgAnnounceBlock an)
      then have "await_block own l1 = (l', Inr b)"
        using 1(4) by (simp add: await_block.simps [of own l] rv RecvMsg)
      then show ?thesis using 1(3) [OF rv [symmetric] RecvMsg MsgAnnounceBlock] less by simp
    qed (use 1(4) less in \<open>simp_all add: await_block.simps [of own l] rv RecvMsg\<close>)
  qed (use 1(4) in \<open>simp_all add: await_block.simps [of own l] rv\<close>)
qed

text \<open>The outer loop, from the claimed tip towards a block the node knows. The blocks are
  accumulated oldest first.\<close>

function (sequential) fetch_branch ::
  "('db, 'm) chain_state_scheme \<Rightarrow> chain_summary \<Rightarrow> string set \<Rightarrow> string \<Rightarrow> block list \<Rightarrow> link
     \<Rightarrow> link \<times> (sync_error + block list)" where
  "fetch_branch g own seen hash acc l =
     (if block_by_hash g hash \<noteq> None then (l, Inr acc)
      else if hash \<in> seen then (l, Inl (SyncLoop hash))
      else (case link_send (MsgGetBlock hash) l of
          (l1, False) \<Rightarrow> (l1, Inl (SyncIo ''io''))
        | (l1, True) \<Rightarrow>
           (case await_block own l1 of
              (l2, Inl e) \<Rightarrow> (l2, Inl e)
            | (l2, Inr b) \<Rightarrow>
                if block_hash b \<noteq> hash then (l2, Inl (WrongBlock hash (block_hash b)))
                else if number (header b) = 0 then (l2, Inr (b # acc))
                else fetch_branch g own (insert hash seen) (parent_hash (header b)) (b # acc) l2)))"
  by pat_completeness auto
termination
proof (relation "measure (\<lambda>(g, own, seen, hash, acc, l). length (inbox l))")
  show "wf (measure (\<lambda>(g :: ('db, 'm) chain_state_scheme, own :: chain_summary, seen :: string set,
      hash :: string, acc :: block list, l :: link). length (inbox l)))" by simp
qed (simp, metis await_block_less inbox_send_eq)

declare fetch_branch.simps [simp del]

section \<open>Importing\<close>

text \<open>One block: skipped when known; otherwise the state and the pool after it, or the error.\<close>

definition import_one ::
  "('db, 'x) ext_scheme \<Rightarrow> string \<Rightarrow> block \<Rightarrow> 'db machine \<Rightarrow> pool option
     \<Rightarrow> ('db machine \<times> pool option \<times> (sync_error + bool)) outcome" where
  "import_one X a b m p =
     (if block_by_hash m (block_hash b) \<noteq> None then Ret (m, p, Inr False)
      else (case apply_block X b (Some a) m of
          Panic \<Rightarrow> Panic
        | OutOfFuel \<Rightarrow> OutOfFuel
        | Ret (m1, CanonExtension h) \<Rightarrow>
            (let m2 = refresh_cached_state_root_from_tip m1;
                 m3 = m2\<lparr>pending_reorg_recovery := None\<rparr>
             in case (p, pending_reorg_recovery m2) of
                  (Some q, Some recovery) \<Rightarrow>
                    Ret (m3, Some (fst (requeue_after_reorg X m3 recovery q)), Inr True)
                | _ \<Rightarrow> Ret (m3, p, Inr True))
        | Ret (m1, SideChain h) \<Rightarrow> Ret (m1, p, Inr True)
        | Ret (m1, StoredOrphan h) \<Rightarrow> Ret (m1, p, Inl (ImportOrphan h))
        | Ret (m1, Rejected r) \<Rightarrow> Ret (m1, p, Inl (ImportRejected r))))"

fun import_fetched_blocks ::
  "('db, 'x) ext_scheme \<Rightarrow> string \<Rightarrow> block list \<Rightarrow> nat \<Rightarrow> 'db machine \<Rightarrow> pool option
     \<Rightarrow> ('db machine \<times> pool option \<times> (sync_error + nat)) outcome" where
  "import_fetched_blocks X a [] imported m p = Ret (m, p, Inr imported)"
| "import_fetched_blocks X a (b # bs) imported m p =
     (case import_one X a b m p of
        Panic \<Rightarrow> Panic
      | OutOfFuel \<Rightarrow> OutOfFuel
      | Ret (m1, p1, Inl e) \<Rightarrow> Ret (m1, p1, Inl e)
      | Ret (m1, p1, Inr fresh) \<Rightarrow>
          import_fetched_blocks X a bs (if fresh then imported + 1 else imported) m1 p1)"

section \<open>Live synchronisation\<close>

definition sync_handshake ::
  "('db, 'x) ext_scheme \<Rightarrow> conn_manager \<Rightarrow> u64 \<Rightarrow> peer_registry \<Rightarrow> link \<Rightarrow> link \<times> (sync_error + handshake)" where
  "sync_handshake X cm local_height r l =
     (case link_send (MsgHandshake (local_handshake X cm r local_height)) l of
        (l1, False) \<Rightarrow> (l1, Inl (SyncIo ''io''))
      | (l1, True) \<Rightarrow>
         (case link_recv_wait l1 of
            (l2, RecvMsg m) \<Rightarrow>
              (case m of
                 MsgHandshake hs \<Rightarrow>
                   (case validate_handshake X hs (local_node_nonce cm) of
                      Accepted \<Rightarrow> (l2, Inr hs)
                    | other \<Rightarrow> (l2, Inl (HandshakeRefused other)))
               | MsgDisconnect reason \<Rightarrow> (l2, Inl (RejectedHandshake reason))
               | other \<Rightarrow> (l2, Inl (UnexpectedHandshake (msg_label other))))
          | (l2, _) \<Rightarrow> (l2, Inl (SyncIo ''io''))))"

definition query_height :: "string \<Rightarrow> chain_summary \<Rightarrow> link \<Rightarrow> link \<times> (sync_error + chain_summary)" where
  "query_height a own l =
     (case link_send MsgGetHeight l of
        (l1, False) \<Rightarrow> (l1, Inl (SyncIo ''io''))
      | (l1, True) \<Rightarrow> await_height 8 a own l1)"

definition work_ahead :: "chain_summary \<Rightarrow> chain_summary \<Rightarrow> bool" where
  "work_ahead remote local_s \<longleftrightarrow> sum_work remote > sum_work local_s \<and> sum_tip remote \<noteq> sum_tip local_s"

text \<open>The blocks to import once the peer's summary is known.\<close>

definition request_branch ::
  "('db, 'm) chain_state_scheme \<Rightarrow> chain_summary \<Rightarrow> link \<Rightarrow> link \<times> (sync_error + block list option)" where
  "request_branch g remote l =
     (let local_s = summary_from_chain g
      in if \<not> sum_height remote > sum_height local_s \<and> \<not> work_ahead remote local_s then (l, Inr None)
         else (case sum_tip remote of
                 None \<Rightarrow> (l, Inl (NoTip (sum_height remote)))
               | Some h \<Rightarrow>
                   (case fetch_branch g local_s {} h [] l of
                      (l1, Inl e) \<Rightarrow> (l1, Inl e)
                    | (l1, Inr bs) \<Rightarrow> (l1, Inr (Some bs)))))"

record 'db sync_state =
  sy_machine :: "'db machine"
  sy_peers :: peer_registry
  sy_pool :: "pool option"
  sy_link :: link

text \<open>\<open>connected\<close> says whether the TCP connection is established.\<close>

definition live_sync_from_peer ::
  "('db, 'x) ext_scheme \<Rightarrow> conn_manager \<Rightarrow> string \<Rightarrow> bool \<Rightarrow> 'db sync_state
     \<Rightarrow> ('db sync_state \<times> (sync_error + nat)) outcome" where
  "live_sync_from_peer X cm a connected s =
     (if parse_socket_addr a = None then Ret (s, Inl (SyncIo ''invalid socket address syntax''))
      else if \<not> connected then Ret (s, Inl (SyncIo ''io''))
      else (case sync_handshake X cm (current_height (sy_machine s)) (sy_peers s) (sy_link s) of
          (l, Inl e) \<Rightarrow> Ret (s\<lparr>sy_link := l\<rparr>, Inl e)
        | (l, Inr hs) \<Rightarrow>
           (case link_now l of (l, now1) \<Rightarrow>
             (let r1 = note_peer_height a (hs_chain_height hs) now1 (sy_peers s);
                  own = summary_from_chain (sy_machine s)
              in case query_height a own l of
                   (l, Inl e) \<Rightarrow> Ret (s\<lparr>sy_link := l, sy_peers := r1\<rparr>, Inl e)
                 | (l, Inr remote) \<Rightarrow>
                    (case link_now l of (l, now2) \<Rightarrow>
                      (let r2 = note_peer_summary a remote now2 r1
                       in case request_branch (sy_machine s) remote l of
                            (l, Inl e) \<Rightarrow> Ret (s\<lparr>sy_link := l, sy_peers := r2\<rparr>, Inl e)
                          | (l, Inr None) \<Rightarrow> Ret (s\<lparr>sy_link := l, sy_peers := r2\<rparr>, Inr 0)
                          | (l, Inr (Some bs)) \<Rightarrow>
                              (case import_fetched_blocks X a bs 0 (sy_machine s) (sy_pool s) of
                                 Panic \<Rightarrow> Panic
                               | OutOfFuel \<Rightarrow> OutOfFuel
                               | Ret (m, p, res) \<Rightarrow>
                                   Ret (s\<lparr>sy_machine := m, sy_peers := r2, sy_pool := p, sy_link := l\<rparr>, res))))))))"

section \<open>The watchdog\<close>

text \<open>What a finished attempt to adopt a heavier branch does to the recovery claim.\<close>

definition settle_recovery ::
  "string \<Rightarrow> chain_summary \<Rightarrow> u128 \<Rightarrow> sync_error + nat \<Rightarrow> instant \<Rightarrow> recovery_state \<Rightarrow> recovery_state" where
  "settle_recovery limited_reason after remote_work res now rs =
     (case res of
        Inr _ \<Rightarrow>
          if sum_work after \<ge> remote_work then recovery_clear rs else mark_limited limited_reason now rs
      | Inl e \<Rightarrow>
          (let reason = sync_error_text e
           in if contains_str ''sync import rejected'' reason then recovery_clear rs
              else mark_high_risk (''higher-work recovery failed: '' @ reason) now rs))"

definition watchdog_step ::
  "('db, 'x) ext_scheme \<Rightarrow> conn_manager \<Rightarrow> (nat \<Rightarrow> instant) \<Rightarrow> bool \<Rightarrow> 'db sync_state \<Rightarrow> sync_guard
     \<Rightarrow> recovery_state option
     \<Rightarrow> ('db sync_state \<times> sync_guard \<times> recovery_state option \<times> (sync_error + unit)) outcome" where
  "watchdog_step X cm clk connected s guard rec =
     (if is_blocked (clk 0) guard then Ret (s, guard, rec, Inr ())
      else
        let local_s = summary_from_chain (sy_machine s) in
        case should_sync_for_summary (\<lambda>i. clk (i + 1)) (sy_peers s) local_s of
          Synced \<Rightarrow> Ret (s, guard, rec, Inr ())
        | Behind a lag \<Rightarrow>
           (case live_sync_from_peer X cm a connected s of
              Panic \<Rightarrow> Panic
            | OutOfFuel \<Rightarrow> OutOfFuel
            | Ret (s1, res) \<Rightarrow>
                Ret (s1, mark_done (clk 4) (mark_started guard), rec,
                     (case res of Inl e \<Rightarrow> Inl e | Inr _ \<Rightarrow> Inr ())))
        | HigherWork a remote_work local_work \<Rightarrow>
           (let rec1 = (case (rec, peer_summary (sy_peers s) a) of
                          (Some rs, Some remote) \<Rightarrow> Some (begin_higher_work_recovery a local_s remote (clk 4) rs)
                        | _ \<Rightarrow> rec)
            in case live_sync_from_peer X cm a connected s of
                 Panic \<Rightarrow> Panic
               | OutOfFuel \<Rightarrow> OutOfFuel
               | Ret (s1, res) \<Rightarrow>
                   Ret (s1, mark_done (clk 5) (mark_started guard),
                        map_option (settle_recovery ''higher-work recovery incomplete after sync batch''
                          (summary_from_chain (sy_machine s1)) remote_work res (clk 6)) rec1,
                        (case res of Inl e \<Rightarrow> Inl e | Inr _ \<Rightarrow> Inr ()))))"

end
