(* ===== verification/Services.thy ===== *)
theory Services
  imports Sync Sessions Miner_Manager
begin

text \<open>
  \<open>node/services.rs\<close>: the import of announced blocks, the supervisor that schedules outbound
  dials, the session of an outbound peer with its height poll and message handler, and the automatic
  port. A task that runs for ever is its body, as a function of what it reads; the outbound
  connection is composed in \<open>Seed_Loop\<close>.
\<close>

section \<open>Announced blocks\<close>

record 'db node_state =
  nd_machine :: "'db machine"
  nd_pool :: pool
  nd_miner :: "miner_manager option"
  nd_recovery :: recovery_state
  nd_sessions :: session_registry

definition import_announced_block ::
  "('db, 'x) ext_scheme \<Rightarrow> block \<Rightarrow> string \<Rightarrow> 'db node_state \<Rightarrow> ('db node_state \<times> accept_result) outcome" where
  "import_announced_block X b a s =
     (let confirmed_tx_ids = map (canonical_tx_id X) (txs b) in
      case apply_block X b (Some a) (nd_machine s) of
        Panic \<Rightarrow> Panic
      | OutOfFuel \<Rightarrow> OutOfFuel
      | Ret (m1, CanonExtension h) \<Rightarrow>
          (let m2 = refresh_cached_state_root_from_tip m1;
               p1 = remove_confirmed confirmed_tx_ids (nd_pool s);
               m3 = m2\<lparr>pending_reorg_recovery := None\<rparr>;
               p2 = (case pending_reorg_recovery m2 of
                       None \<Rightarrow> p1
                     | Some recovery \<Rightarrow> fst (requeue_after_reorg X m3 recovery p1));
               local_s = summary_from_chain m3
           in Ret (s\<lparr>nd_machine := m3, nd_pool := p2,
                     nd_recovery := fst (clear_if_local_satisfies_claim local_s (nd_recovery s)),
                     nd_miner := map_option clear_job (nd_miner s),
                     nd_sessions := fst (announce_block b (Some a) (nd_sessions s))\<rparr>,
                   CanonExtension h))
      | Ret (m1, r) \<Rightarrow> Ret (s\<lparr>nd_machine := m1\<rparr>, r))"

section \<open>Outbound dials\<close>

definition TARGET_OUTBOUND_PEERS :: nat where "TARGET_OUTBOUND_PEERS = 8"

text \<open>One candidate: the set of scheduled peers, the registry, and the peer to dial if any. The
  printed form of a socket address is the standard library's, a parameter here.\<close>

definition dial_candidate ::
  "(socket_addr \<Rightarrow> string) \<Rightarrow> conn_manager \<Rightarrow> bool \<Rightarrow> string \<Rightarrow> string set \<times> peer_registry
     \<Rightarrow> (string set \<times> peer_registry) \<times> string option" where
  "dial_candidate show_addr cm allow_private candidate st =
     (case st of (scheduled, r) \<Rightarrow>
       (case validate_dial_address candidate allow_private of
          Inl e \<Rightarrow> (st, None)
        | Inr peer_socket \<Rightarrow>
           (let peer_addr = show_addr peer_socket
            in if is_local_dial_address cm peer_socket then (st, None)
               else if peer_addr \<in> scheduled then (st, None)
               else if card (insert peer_addr scheduled) > TARGET_OUTBOUND_PEERS
                 then ((scheduled, r), None)
               else ((insert peer_addr scheduled, upsert peer_addr True r), Some peer_addr))))"

fun supervise ::
  "(socket_addr \<Rightarrow> string) \<Rightarrow> conn_manager \<Rightarrow> bool \<Rightarrow> string list \<Rightarrow> string set \<times> peer_registry
     \<Rightarrow> (string set \<times> peer_registry) \<times> string list" where
  "supervise show_addr cm allow [] st = (st, [])"
| "supervise show_addr cm allow (c # cs) st =
     (case dial_candidate show_addr cm allow c st of
        (st', d) \<Rightarrow>
          (case supervise show_addr cm allow cs st' of
             (st'', ds) \<Rightarrow> (st'', (case d of None \<Rightarrow> ds | Some a \<Rightarrow> a # ds))))"

section \<open>The session of an outbound peer\<close>

datatype session_error =
    SessionIo
  | SessionTimeout string
  | SessionRejectedHeight string
  | SessionHeightLimit string
  | MalformedAnnouncement
  | UnknownBlockRequested string
  | UnrequestedBlock
  | WrongBlockReturned string string
  | ImporterUnavailable
  | SessionDisconnected string
  | UnexpectedSessionMessage string

definition is_canonical_hash :: "string \<Rightarrow> bool" where
  "is_canonical_hash v = (length v = 64 \<and> list_all is_lower_hex_char v)"

text \<open>What a session keeps: the link, the block it has asked for, and what it has handed to the
  importer. The importer's queue takes a block when it is \<open>open\<close>.\<close>

record outbound_session =
  os_link :: link
  os_requested :: "string option"
  os_queued :: "(block \<times> string) list"
  os_importer_open :: bool

definition os_send :: "p2p_message \<Rightarrow> outbound_session \<Rightarrow> outbound_session \<times> (session_error + unit)" where
  "os_send m s =
     (case link_send m (os_link s) of
        (l, ok) \<Rightarrow> (s\<lparr>os_link := l\<rparr>, if ok then Inr () else Inl SessionIo))"

definition handle_seed_session_message ::
  "('db, 'm) chain_state_scheme \<Rightarrow> string \<Rightarrow> p2p_message \<Rightarrow> outbound_session
     \<Rightarrow> outbound_session \<times> (session_error + unit)" where
  "handle_seed_session_message g a m s =
     (case m of
        MsgAnnounceBlock an \<Rightarrow>
          if \<not> is_canonical_hash (an_hash an) \<or> \<not> is_canonical_hash (an_prev an)
          then (s, Inl MalformedAnnouncement)
          else if block_by_hash g (an_hash an) = None \<and> os_requested s = None
          then os_send (MsgGetBlock (an_hash an)) (s\<lparr>os_requested := Some (an_hash an)\<rparr>)
          else (s, Inr ())
      | MsgGetBlock h \<Rightarrow>
          (case block_by_hash g h of
             None \<Rightarrow> (s, Inl (UnknownBlockRequested h))
           | Some b \<Rightarrow> os_send (MsgBlock b) s)
      | MsgBlock b \<Rightarrow>
          (let s' = s\<lparr>os_requested := None\<rparr>
           in case os_requested s of
                None \<Rightarrow> (s', Inl UnrequestedBlock)
              | Some expected \<Rightarrow>
                  if block_hash b \<noteq> expected then (s', Inl (WrongBlockReturned (block_hash b) expected))
                  else if os_importer_open s then (s'\<lparr>os_queued := os_queued s' @ [(b, a)]\<rparr>, Inr ())
                  else (s', Inl ImporterUnavailable))
      | MsgGetHeight \<Rightarrow> os_send (MsgHeight (summary_from_chain g)) s
      | MsgPing t \<Rightarrow> os_send (MsgPong t) s
      | MsgPong t \<Rightarrow> (s, Inr ())
      | MsgHeight h \<Rightarrow> (s, Inr ())
      | MsgDisconnect reason \<Rightarrow> (s, Inl (SessionDisconnected reason))
      | MsgHandshake h \<Rightarrow> (s, Inl (UnexpectedSessionMessage (msg_label m))))"

fun poll_messages ::
  "nat \<Rightarrow> ('db, 'm) chain_state_scheme \<Rightarrow> string \<Rightarrow> outbound_session
     \<Rightarrow> outbound_session \<times> (session_error + chain_summary)" where
  "poll_messages 0 g a s = (s, Inl (SessionHeightLimit a))"
| "poll_messages (Suc n) g a s =
     (case link_recv (os_link s) of
        (l, ev) \<Rightarrow>
         (let s1 = s\<lparr>os_link := l\<rparr> in
          case ev of
            RecvFailed \<Rightarrow> (s1, Inl SessionIo)
          | RecvTimeout \<Rightarrow> (s1, Inl (SessionTimeout a))
          | RecvMsg m \<Rightarrow>
             (case m of
                MsgHeight h \<Rightarrow> (s1, Inr h)
              | MsgDisconnect reason \<Rightarrow> (s1, Inl (SessionRejectedHeight reason))
              | other \<Rightarrow>
                  (case handle_seed_session_message g a other s1 of
                     (s2, Inl e) \<Rightarrow> (s2, Inl e)
                   | (s2, Inr _) \<Rightarrow> poll_messages n g a s2))))"

definition poll_peer_height ::
  "('db, 'm) chain_state_scheme \<Rightarrow> string \<Rightarrow> peer_registry \<Rightarrow> outbound_session
     \<Rightarrow> outbound_session \<times> peer_registry \<times> (session_error + chain_summary)" where
  "poll_peer_height g a r s =
     (case link_now (os_link s) of (l, now1) \<Rightarrow>
       (let r1 = record_height_poll_sent a now1 r; s0 = s\<lparr>os_link := l\<rparr>
        in case os_send MsgGetHeight s0 of
             (s1, Inl e) \<Rightarrow> (s1, r1, Inl e)
           | (s1, Inr _) \<Rightarrow>
              (case poll_messages 8 g a s1 of
                 (s2, Inl e) \<Rightarrow> (s2, r1, Inl e)
               | (s2, Inr h) \<Rightarrow>
                  (case link_now (os_link s2) of
                     (l2, now2) \<Rightarrow> (s2\<lparr>os_link := l2\<rparr>, note_peer_summary a h now2 r1, Inr h)))))"

text \<open>What one round does with the peer's summary, before it may synchronise: a claim of more work
  starts a recovery, and a synchronisation is due for a higher or heavier chain unless the guard
  blocks it.\<close>

definition round_claim ::
  "string \<Rightarrow> chain_summary \<Rightarrow> chain_summary \<Rightarrow> instant \<Rightarrow> recovery_state \<Rightarrow> recovery_state" where
  "round_claim a local_s remote now rs =
     (if work_ahead remote local_s then begin_higher_work_recovery a local_s remote now rs else rs)"

definition round_sync_due :: "chain_summary \<Rightarrow> chain_summary \<Rightarrow> instant \<Rightarrow> sync_guard \<Rightarrow> bool" where
  "round_sync_due local_s remote now guard \<longleftrightarrow>
     (sum_height remote > sum_height local_s \<or> work_ahead remote local_s) \<and> \<not> is_blocked now guard"

text \<open>Of the attempts that follow a poll only those for a heavier chain settle the claim.\<close>

definition round_settle ::
  "chain_summary \<Rightarrow> chain_summary \<Rightarrow> chain_summary \<Rightarrow> sync_error + nat \<Rightarrow> instant \<Rightarrow> recovery_state \<Rightarrow> recovery_state" where
  "round_settle local_s remote after res now rs =
     (if work_ahead remote local_s
      then settle_recovery ''higher-work recovery incomplete after seed-peer sync batch'' after
             (sum_work remote) res now rs
      else rs)"

section \<open>Automatic port\<close>

definition AUTO_P2P_PORT_MIN :: u16 where "AUTO_P2P_PORT_MIN = 20000"
definition AUTO_P2P_PORT_SPAN :: u16 where "AUTO_P2P_PORT_SPAN = 40000"

definition auto_p2p_port_for_ip :: "('db, 'x) ext_scheme \<Rightarrow> (ip_addr \<Rightarrow> string) \<Rightarrow> ip_addr \<Rightarrow> u16" where
  "auto_p2p_port_for_ip X show_ip ip =
     (let digest = blake3 X (as_bytes (show_ip ip));
          offset = (ucast (digest ! 0) * 256 + ucast (digest ! 1)) mod AUTO_P2P_PORT_SPAN
      in AUTO_P2P_PORT_MIN + offset)"

end
