(* ===== verification/Connection.thy ===== *)
theory Connection
  imports Services
begin

text \<open>
  \<open>p2p/connection.rs\<close>: the handler of an inbound connection. One step serves either the next
  read of the link or, once a session is registered, the next message of its queue; the loop is the
  sequence of steps until one of them closes the connection, after which the session is taken out of
  the registries. The chain is only read; \<open>g\<close> is what the reads of one step see.
\<close>

definition INBOUND_SUMMARY_REFRESH_SOURCE :: string where
  "INBOUND_SUMMARY_REFRESH_SOURCE = ''inbound handshake refresh''"

definition INBOUND_SUMMARY_REFRESH_MAX_MESSAGES :: nat where
  "INBOUND_SUMMARY_REFRESH_MAX_MESSAGES = 8"

text \<open>The importer is absent, or its queue is open or closed.\<close>

datatype importer = NoImporter | Importer bool

record inbound_state =
  in_link :: link
  in_handshake_done :: bool
  in_active :: "(string \<times> u64) option"
  in_requested :: "string option"
  in_peers :: peer_registry
  in_sessions :: session_registry
  in_queued :: "(block \<times> string) list"
  in_importer :: importer
  in_discovered :: "string list option"

definition in_send :: "p2p_message \<Rightarrow> inbound_state \<Rightarrow> inbound_state \<times> bool" where
  "in_send m s = (case link_send m (in_link s) of (l, ok) \<Rightarrow> (s\<lparr>in_link := l\<rparr>, ok))"

definition in_now :: "inbound_state \<Rightarrow> inbound_state \<times> instant" where
  "in_now s = (case link_now (in_link s) of (l, now) \<Rightarrow> (s\<lparr>in_link := l\<rparr>, now))"

section \<open>Refreshing the summary\<close>

text \<open>The loop that waits for the peer's height; every error only ends the refresh.\<close>

fun refresh_messages ::
  "nat \<Rightarrow> ('db, 'm) chain_state_scheme \<Rightarrow> string \<Rightarrow> u64 \<Rightarrow> inbound_state \<Rightarrow> inbound_state" where
  "refresh_messages 0 g k generation s = s"
| "refresh_messages (Suc n) g k generation s =
     (case link_recv (in_link s) of
        (l, ev) \<Rightarrow>
         (let s1 = s\<lparr>in_link := l\<rparr> in
          case ev of
            RecvMsg (MsgHeight h) \<Rightarrow>
              (case in_now s1 of
                 (s2, now) \<Rightarrow> s2\<lparr>in_peers := note_peer_summary_from k h (Some generation)
                                   (Some INBOUND_SUMMARY_REFRESH_SOURCE) now (in_peers s2)\<rparr>)
          | RecvMsg MsgGetHeight \<Rightarrow>
              (case in_send (MsgHeight (summary_from_chain g)) s1 of
                 (s2, ok) \<Rightarrow> if ok then refresh_messages n g k generation s2 else s2)
          | RecvMsg (MsgPing t) \<Rightarrow>
              (case in_send (MsgPong t) s1 of
                 (s2, ok) \<Rightarrow> if ok then refresh_messages n g k generation s2 else s2)
          | _ \<Rightarrow> s1))"

definition request_inbound_peer_summary ::
  "('db, 'm) chain_state_scheme \<Rightarrow> string \<Rightarrow> u64 \<Rightarrow> inbound_state \<Rightarrow> inbound_state" where
  "request_inbound_peer_summary g k generation s =
     (case in_now s of (s1, now) \<Rightarrow>
       (case in_send MsgGetHeight (s1\<lparr>in_peers := record_height_poll_sent k now (in_peers s1)\<rparr>) of
          (s2, ok) \<Rightarrow>
            if ok then refresh_messages INBOUND_SUMMARY_REFRESH_MAX_MESSAGES g k generation s2 else s2))"

section \<open>The handshake\<close>

definition handshake_reject_reason :: "handshake_result \<Rightarrow> string" where
  "handshake_reject_reason r =
     (case r of
        VersionMismatch remote ours \<Rightarrow>
          ''unsupported protocol version: remote='' @ dec_of_nat (unat remote) @ '' ours='' @ dec_of_nat (unat ours)
      | WrongChainId \<Rightarrow> ''wrong chain identity''
      | WrongGenesisHash \<Rightarrow> ''wrong genesis hash''
      | WrongEconHash \<Rightarrow> ''wrong economic version''
      | WrongPowParams \<Rightarrow> ''wrong pow/consensus version''
      | SelfConnection \<Rightarrow> ''self-connection rejected''
      | Accepted \<Rightarrow> ''handshake accepted'')"

definition advertised_error_text :: "advertised_error \<Rightarrow> string" where
  "advertised_error_text e =
     (case e of
        MalformedAddress \<Rightarrow> ''malformed advertised address''
      | MalformedHost \<Rightarrow> ''malformed advertised host''
      | PrivateAddress \<Rightarrow> ''private advertised address not allowed'')"

text \<open>After an accepted handshake: resolve the peer, offer its seeds to the supervisor, reply, register the session and
  refresh the summary of a peer known by an advertised address. The flag tells whether the connection
  goes on.\<close>

definition accept_handshake ::
  "('db, 'x) ext_scheme \<Rightarrow> conn_manager \<Rightarrow> ('db, 'm) chain_state_scheme \<Rightarrow> string \<Rightarrow> handshake
     \<Rightarrow> handshake \<Rightarrow> inbound_state \<Rightarrow> inbound_state \<times> bool" where
  "accept_handshake X cm g observed remote_hs local_hs s =
     (case resolve_inbound_peer_key observed remote_hs (cm_allow_private cm) (in_peers s) of
        (r, Inl e) \<Rightarrow> (fst (in_send (MsgDisconnect (advertised_error_text e)) (s\<lparr>in_peers := r\<rparr>)), False)
      | (r, Inr k) \<Rightarrow>
         (let s1 = s\<lparr>in_peers := r,
                     in_discovered := map_option (\<lambda>ds. ds @ take MAX_SHARED_PEERS (hs_seed_peers remote_hs))
                       (in_discovered s)\<rparr>
          in case in_send (MsgHandshake local_hs) s1 of
               (s2, False) \<Rightarrow> (s2, False)
             | (s2, True) \<Rightarrow>
                (case register k (in_sessions s2) of
                   (ss, generation) \<Rightarrow>
                    (case in_now (s2\<lparr>in_handshake_done := True, in_sessions := ss,
                                     in_peers := connect_session k generation (in_peers s2)\<rparr>) of
                       (s3, now) \<Rightarrow>
                        (let s4 = s3\<lparr>in_peers := note_peer_height k (hs_chain_height remote_hs) now (in_peers s3),
                                     in_active := Some (k, generation)\<rparr>
                         in (if k \<noteq> observed then request_inbound_peer_summary g k generation s4 else s4,
                             True))))))"

definition inbound_handshake ::
  "('db, 'x) ext_scheme \<Rightarrow> conn_manager \<Rightarrow> ('db, 'm) chain_state_scheme \<Rightarrow> string \<Rightarrow> handshake
     \<Rightarrow> inbound_state \<Rightarrow> inbound_state \<times> bool" where
  "inbound_handshake X cm g observed remote_hs s =
     (if in_handshake_done s then (s, False)
      else
        let local_hs = local_handshake X cm (in_peers s) (current_height g)
        in case validate_handshake X remote_hs (local_node_nonce cm) of
             Accepted \<Rightarrow> accept_handshake X cm g observed remote_hs local_hs s
           | other \<Rightarrow>
               (fst (in_send (MsgDisconnect (handshake_reject_reason other))
                  (s\<lparr>in_peers := set_state observed Disconnected (upsert observed False (in_peers s))\<rparr>)), False))"

section \<open>Messages\<close>

definition inbound_announcement ::
  "('db, 'm) chain_state_scheme \<Rightarrow> announcement \<Rightarrow> inbound_state \<Rightarrow> inbound_state \<times> bool" where
  "inbound_announcement g an s =
     (if \<not> is_canonical_hash (an_hash an) \<or> \<not> is_canonical_hash (an_prev an) then (s, False)
      else if block_by_hash g (an_hash an) = None \<and> in_requested s = None
      then in_send (MsgGetBlock (an_hash an)) (s\<lparr>in_requested := Some (an_hash an)\<rparr>)
      else (s, True))"

definition inbound_block :: "string \<Rightarrow> block \<Rightarrow> inbound_state \<Rightarrow> inbound_state \<times> bool" where
  "inbound_block observed b s =
     (case in_requested s of
        None \<Rightarrow> (s, False)
      | Some expected \<Rightarrow>
          (let s1 = s\<lparr>in_requested := None\<rparr>
           in if block_hash b \<noteq> expected then (s1, False)
              else (case in_importer s of
                  NoImporter \<Rightarrow> (s1, True)
                | Importer queue_open \<Rightarrow>
                    (let a = (case in_active s of Some (k, _) \<Rightarrow> k | None \<Rightarrow> observed)
                     in if queue_open then (s1\<lparr>in_queued := in_queued s1 @ [(b, a)]\<rparr>, True) else (s1, False)))))"

definition inbound_message ::
  "('db, 'x) ext_scheme \<Rightarrow> conn_manager \<Rightarrow> ('db, 'm) chain_state_scheme \<Rightarrow> string \<Rightarrow> p2p_message
     \<Rightarrow> inbound_state \<Rightarrow> inbound_state \<times> bool" where
  "inbound_message X cm g observed m s =
     (if \<not> in_handshake_done s \<and> \<not> is_pre_handshake m then (s, False)
      else (case m of
          MsgHandshake hs \<Rightarrow> inbound_handshake X cm g observed hs s
        | MsgPing t \<Rightarrow> in_send (MsgPong t) s
        | MsgGetHeight \<Rightarrow> in_send (MsgHeight (summary_from_chain g)) s
        | MsgGetBlock h \<Rightarrow>
            (case block_by_hash g h of
               Some b \<Rightarrow> in_send (MsgBlock b) s
             | None \<Rightarrow> (fst (in_send (MsgDisconnect (''unknown block '' @ h)) s), False))
        | MsgAnnounceBlock an \<Rightarrow> inbound_announcement g an s
        | MsgBlock b \<Rightarrow> inbound_block observed b s
        | MsgHeight h \<Rightarrow>
            (case in_active s of
               None \<Rightarrow> (s, True)
             | Some (k, _) \<Rightarrow>
                 (case in_now s of (s1, now) \<Rightarrow> (s1\<lparr>in_peers := note_peer_summary k h now (in_peers s1)\<rparr>, True)))
        | MsgDisconnect reason \<Rightarrow> (s, False)
        | MsgPong t \<Rightarrow> (s, True)))"

section \<open>The loop\<close>

datatype inbound_event = EvIncoming | EvOutbound

definition inbound_step ::
  "('db, 'x) ext_scheme \<Rightarrow> conn_manager \<Rightarrow> ('db, 'm) chain_state_scheme \<Rightarrow> string \<Rightarrow> inbound_event
     \<Rightarrow> inbound_state \<Rightarrow> inbound_state \<times> bool" where
  "inbound_step X cm g observed ev s =
     (case (ev, in_active s) of
        (EvOutbound, Some (k, generation)) \<Rightarrow>
          (case session_recv k generation (in_sessions s) of
             (ss, Some m) \<Rightarrow> in_send m (s\<lparr>in_sessions := ss\<rparr>)
           | (ss, None) \<Rightarrow> (s, generation \<in> live_generations (in_sessions s) k))
      | _ \<Rightarrow>
          (case link_recv_wait (in_link s) of
             (l, RecvMsg m) \<Rightarrow> inbound_message X cm g observed m (s\<lparr>in_link := l\<rparr>)
           | (l, _) \<Rightarrow> (s\<lparr>in_link := l\<rparr>, False)))"

text \<open>The clean-up after the loop.\<close>

definition inbound_close :: "inbound_state \<Rightarrow> inbound_state" where
  "inbound_close s =
     (case in_active s of
        None \<Rightarrow> s
      | Some (k, generation) \<Rightarrow>
         (case unregister k generation (in_sessions s) of
            (ss, None) \<Rightarrow> s\<lparr>in_sessions := ss\<rparr>
          | (ss, Some latest) \<Rightarrow>
              s\<lparr>in_sessions := ss, in_peers := fst (disconnect_if_generation k latest (in_peers s))\<rparr>))"

text \<open>A run over a schedule of events with the chains they see: the state, and whether the connection
  was closed.\<close>

fun handle_inbound ::
  "('db, 'x) ext_scheme \<Rightarrow> conn_manager \<Rightarrow> string \<Rightarrow> (inbound_event \<times> ('db, 'm) chain_state_scheme) list
     \<Rightarrow> inbound_state \<Rightarrow> inbound_state \<times> bool" where
  "handle_inbound X cm observed [] s = (s, False)"
| "handle_inbound X cm observed ((ev, g) # es) s =
     (case inbound_step X cm g observed ev s of
        (s1, True) \<Rightarrow> handle_inbound X cm observed es s1
      | (s1, False) \<Rightarrow> (inbound_close s1, True))"

definition inbound_start ::
  "link \<Rightarrow> peer_registry \<Rightarrow> session_registry \<Rightarrow> importer \<Rightarrow> bool \<Rightarrow> inbound_state" where
  "inbound_start l r ss imp discovery =
     \<lparr>in_link = l, in_handshake_done = False, in_active = None, in_requested = None, in_peers = r,
      in_sessions = ss, in_queued = [], in_importer = imp,
      in_discovered = (if discovery then Some [] else None)\<rparr>"

end
