(* ===== verification/Connection_Props.thy ===== *)
theory Connection_Props
  imports Connection Examples
begin

text \<open>What an inbound connection can make the node do.\<close>

section \<open>Frames\<close>

definition sent_set :: "inbound_state \<Rightarrow> p2p_message set" where
  "sent_set s = set (sent (in_link s))"

text \<open>The parts of the state the summary refresh leaves alone.\<close>

definition same_session :: "inbound_state \<Rightarrow> inbound_state \<Rightarrow> bool" where
  "same_session s s' \<longleftrightarrow>
     in_handshake_done s' = in_handshake_done s \<and> in_active s' = in_active s
     \<and> in_requested s' = in_requested s \<and> in_sessions s' = in_sessions s \<and> in_queued s' = in_queued s
     \<and> in_importer s' = in_importer s \<and> sent_set s \<subseteq> sent_set s'"

lemma same_session_refl [simp]: "same_session s s"
  by (simp add: same_session_def)

lemma same_session_trans: "same_session a b \<Longrightarrow> same_session b c \<Longrightarrow> same_session a c"
  by (auto simp: same_session_def)

lemma sent_link_send: "link_send m l = (l', ok) \<Longrightarrow> set (sent l') = (if ok then insert m (set (sent l)) else set (sent l))"
  by (auto simp: link_send_def split: list.splits bool.splits)

lemma sent_link_recv: "link_recv l = (l', e) \<Longrightarrow> sent l' = sent l"
  by (auto simp: link_recv_def split: list.splits)

lemma sent_link_recv_wait: "link_recv_wait l = (l', e) \<Longrightarrow> sent l' = sent l"
  by (auto simp: link_recv_wait_def link_recv_def split: list.splits)

lemma in_send_frame:
  assumes "in_send m s = (s', ok)"
  shows "same_session s s'" "sent_set s' = (if ok then insert m (sent_set s) else sent_set s)"
    "in_peers s' = in_peers s"
  using assms sent_link_send [of m "in_link s"]
  by (auto simp: in_send_def same_session_def sent_set_def split: prod.splits)

lemma in_now_frame:
  assumes "in_now s = (s', t)"
  shows "same_session s s'" "sent_set s' = sent_set s" "in_peers s' = in_peers s"
  using assms by (auto simp: in_now_def link_now_def same_session_def sent_set_def)

lemma same_session_peers [simp]: "same_session s (s\<lparr>in_peers := r\<rparr>)"
  by (simp add: same_session_def sent_set_def)

lemma same_session_recv: "link_recv (in_link s) = (l, e) \<Longrightarrow> same_session s (s\<lparr>in_link := l\<rparr>)"
  using sent_link_recv [of "in_link s" l e] by (simp add: same_session_def sent_set_def)

lemma refresh_frame: "same_session s (refresh_messages n g k generation s)"
proof (induction n g k generation s rule: refresh_messages.induct)
  case (1 g k generation s)
  then show ?case by simp
next
  case (2 n g k generation s)
  obtain l ev where rv: "link_recv (in_link s) = (l, ev)" by fastforce
  note a = same_session_recv [OF rv]
  let ?s1 = "s\<lparr>in_link := l\<rparr>"
  show ?case
  proof (cases ev)
    case (RecvMsg m)
    show ?thesis
    proof (cases m)
      case (MsgHeight h)
      obtain s2 now where n: "in_now ?s1 = (s2, now)" by fastforce
      show ?thesis using same_session_trans [OF a in_now_frame(1) [OF n]] rv RecvMsg MsgHeight n
        by (auto intro: same_session_trans)
    next
      case MsgGetHeight
      obtain s2 ok where sd: "in_send (MsgHeight (summary_from_chain g)) ?s1 = (s2, ok)" by fastforce
      have b: "same_session s s2" using same_session_trans [OF a in_send_frame(1) [OF sd]] .
      show ?thesis
      proof (cases ok)
        case True
        then have "same_session s2 (refresh_messages n g k generation s2)"
          using 2(2) [OF rv [symmetric] refl RecvMsg MsgGetHeight sd [symmetric]] by simp
        then show ?thesis using same_session_trans [OF b] rv RecvMsg MsgGetHeight sd True by simp
      qed (use b rv RecvMsg MsgGetHeight sd in simp)
    next
      case (MsgPing t)
      obtain s2 ok where sd: "in_send (MsgPong t) ?s1 = (s2, ok)" by fastforce
      have b: "same_session s s2" using same_session_trans [OF a in_send_frame(1) [OF sd]] .
      show ?thesis
      proof (cases ok)
        case True
        then have "same_session s2 (refresh_messages n g k generation s2)"
          using 2(1) [OF rv [symmetric] refl RecvMsg MsgPing sd [symmetric]] by simp
        then show ?thesis using same_session_trans [OF b] rv RecvMsg MsgPing sd True by simp
      qed (use b rv RecvMsg MsgPing sd in simp)
    qed (use a rv RecvMsg in simp_all)
  qed (use a rv in simp_all)
qed

lemma request_summary_frame: "same_session s (request_inbound_peer_summary g k generation s)"
proof -
  obtain s1 now where n: "in_now s = (s1, now)" by fastforce
  let ?s1 = "s1\<lparr>in_peers := record_height_poll_sent k now (in_peers s1)\<rparr>"
  obtain s2 ok where sd: "in_send MsgGetHeight ?s1 = (s2, ok)" by fastforce
  have "same_session s s2"
    using same_session_trans [OF in_now_frame(1) [OF n] same_session_trans [OF same_session_peers in_send_frame(1) [OF sd]]] .
  moreover from this have "same_session s (refresh_messages j g k generation s2)" for j
    by (rule same_session_trans) (rule refresh_frame)
  ultimately show ?thesis by (simp add: request_inbound_peer_summary_def n sd)
qed

section \<open>The invariant of a run\<close>

text \<open>Every block handed to the importer was asked for; an outstanding request has been sent; before
  the handshake nothing happens but a farewell.\<close>

definition asked :: "inbound_state \<Rightarrow> string \<Rightarrow> bool" where
  "asked s h \<longleftrightarrow> MsgGetBlock h \<in> sent_set s \<and> is_canonical_hash h"

definition queue_asked :: "inbound_state \<Rightarrow> bool" where
  "queue_asked s \<longleftrightarrow> (\<forall>(b, a)\<in>set (in_queued s). asked s (block_hash b))"

definition farewell :: "p2p_message \<Rightarrow> bool" where
  "farewell m = (case m of MsgDisconnect r \<Rightarrow> True | _ \<Rightarrow> False)"

lemma farewell_iff: "farewell m \<longleftrightarrow> (\<exists>r. m = MsgDisconnect r)"
  by (cases m) (simp_all add: farewell_def)

definition silent :: "session_registry \<Rightarrow> inbound_state \<Rightarrow> bool" where
  "silent ss s \<longleftrightarrow> in_queued s = [] \<and> in_active s = None \<and> in_sessions s = ss \<and> (\<forall>m\<in>sent_set s. farewell m)"

definition inbound_inv :: "session_registry \<Rightarrow> inbound_state \<Rightarrow> bool" where
  "inbound_inv ss s \<longleftrightarrow> queue_asked s \<and> (\<forall>h. in_requested s = Some h \<longrightarrow> asked s h)
     \<and> (\<not> in_handshake_done s \<longrightarrow> silent ss s \<and> in_requested s = None)"

text \<open>What is left of it when the connection closes.\<close>

definition inbound_end :: "session_registry \<Rightarrow> inbound_state \<Rightarrow> bool" where
  "inbound_end ss s \<longleftrightarrow> queue_asked s \<and> (\<not> in_handshake_done s \<longrightarrow> in_queued s = [] \<and> in_active s = None \<and>
     in_sessions s = ss \<and> (\<forall>m\<in>sent_set s. farewell m \<or> (\<exists>h. m = MsgHandshake h)))"

lemma inv_end: "inbound_inv ss s \<Longrightarrow> inbound_end ss s"
  by (auto simp: inbound_inv_def inbound_end_def silent_def)

lemma queue_asked_mono:
  "queue_asked s \<Longrightarrow> in_queued s' = in_queued s \<Longrightarrow> sent_set s \<subseteq> sent_set s' \<Longrightarrow> queue_asked s'"
  by (fastforce simp: queue_asked_def asked_def)

lemma inv_same:
  assumes "inbound_inv ss s" "same_session s s'" "in_handshake_done s"
  shows "inbound_inv ss s'"
  using assms queue_asked_mono [of s s'] by (auto simp: inbound_inv_def same_session_def asked_def)

lemma inv_link: "inbound_inv ss s \<Longrightarrow> sent l = sent (in_link s) \<Longrightarrow> inbound_inv ss (s\<lparr>in_link := l\<rparr>)"
  by (auto simp: inbound_inv_def queue_asked_def asked_def silent_def sent_set_def)

lemma announcement_inv:
  assumes "inbound_inv ss s" "in_handshake_done s" "inbound_announcement g an s = (s', go)"
  shows "if go then inbound_inv ss s' else inbound_end ss s'"
proof -
  have q: "queue_asked s" using assms(1) by (simp add: inbound_inv_def)
  show ?thesis
  proof (cases "\<not> is_canonical_hash (an_hash an) \<or> \<not> is_canonical_hash (an_prev an)")
    case True
    then show ?thesis using assms inv_end by (auto simp: inbound_announcement_def)
  next
    case can: False
    show ?thesis
    proof (cases "block_by_hash g (an_hash an) = None \<and> in_requested s = None")
      case False
      then show ?thesis using assms can by (auto simp: inbound_announcement_def)
    next
      case True
      then have sd: "in_send (MsgGetBlock (an_hash an)) (s\<lparr>in_requested := Some (an_hash an)\<rparr>) = (s', go)"
        using assms(3) can by (simp add: inbound_announcement_def)
      note f = in_send_frame [OF sd]
      have sub: "sent_set s \<subseteq> sent_set s'" using f(2) by (auto simp: sent_set_def split: if_splits)
      have "queue_asked s'"
        by (rule queue_asked_mono [OF q _ sub]) (use f(1) in \<open>simp add: same_session_def\<close>)
      then show ?thesis using f assms(2) can
        by (auto simp: inbound_inv_def inbound_end_def same_session_def asked_def)
    qed
  qed
qed

lemma block_inv:
  assumes "inbound_inv ss s" "in_handshake_done s" "inbound_block obs b s = (s', go)"
  shows "if go then inbound_inv ss s' else inbound_end ss s'"
proof (cases "in_requested s")
  case None
  then show ?thesis using assms inv_end by (auto simp: inbound_block_def)
next
  case (Some h)
  have a: "asked s h" and q: "queue_asked s" using assms(1) Some by (auto simp: inbound_inv_def)
  let ?s1 = "s\<lparr>in_requested := None\<rparr>"
  have q1: "queue_asked ?s1" using q by (rule queue_asked_mono) (simp_all add: sent_set_def)
  have i1: "inbound_inv ss ?s1" "inbound_end ss ?s1" using q1 assms(2) by (simp_all add: inbound_inv_def inbound_end_def)
  show ?thesis
  proof (cases "block_hash b = h \<and> in_importer s = Importer True")
    case False
    then show ?thesis using assms(3) Some i1 by (auto simp: inbound_block_def Let_def split: if_splits importer.splits)
  next
    case True
    then obtain k where s': "s' = ?s1\<lparr>in_queued := in_queued ?s1 @ [(b, k)]\<rparr>" and go
      using assms(3) Some by (auto simp: inbound_block_def Let_def)
    have "queue_asked s'" using q a True by (auto simp: queue_asked_def asked_def s' sent_set_def)
    then show ?thesis using \<open>go\<close> assms(2) s' by (simp add: inbound_inv_def)
  qed
qed

lemma accept_handshake_inv:
  assumes inv: "inbound_inv ss s" and nd: "\<not> in_handshake_done s"
    and ac: "accept_handshake X cm g obs remote loc s = (s', go)"
  shows "if go then inbound_inv ss s' else inbound_end ss s'"
proof -
  have q: "queue_asked s" and rq: "in_requested s = None" and si: "silent ss s"
    using inv nd by (auto simp: inbound_inv_def)
  obtain r res where rs: "resolve_inbound_peer_key obs remote (cm_allow_private cm) (in_peers s) = (r, res)"
    by fastforce
  show ?thesis
  proof (cases res)
    case (Inl e)
    obtain s1 ok where sd: "in_send (MsgDisconnect (advertised_error_text e)) (s\<lparr>in_peers := r\<rparr>) = (s1, ok)"
      by fastforce
    then have s1: "s' = s1" "\<not> go" using ac by (simp_all add: accept_handshake_def rs Inl)
    note f = in_send_frame [OF sd]
    have "queue_asked s1" by (rule queue_asked_mono [OF q]) (use f in \<open>auto simp: same_session_def sent_set_def\<close>)
    moreover have "\<forall>m\<in>sent_set s1. farewell m"
      using si f(2) by (auto simp: silent_def farewell_def sent_set_def split: if_splits)
    ultimately show ?thesis using s1 f(1) si nd
      by (auto simp: inbound_end_def same_session_def silent_def)
  next
    case (Inr k)
    let ?s1 = "s\<lparr>in_peers := r, in_discovered := map_option (\<lambda>ds. ds @ take MAX_SHARED_PEERS (hs_seed_peers remote))
       (in_discovered s)\<rparr>"
    obtain s2 ok where sd: "in_send (MsgHandshake loc) ?s1 = (s2, ok)" by fastforce
    note f = in_send_frame [OF sd]
    have q2: "queue_asked s2" by (rule queue_asked_mono [OF q]) (use f in \<open>auto simp: same_session_def sent_set_def\<close>)
    show ?thesis
    proof (cases ok)
      case False
      then have s2: "s' = s2" "\<not> go" using ac by (simp_all add: accept_handshake_def rs Inr sd)
      have "\<forall>m\<in>sent_set s2. farewell m" using si f(2) False by (auto simp: silent_def sent_set_def)
      then show ?thesis using s2 f(1) si nd q2 by (auto simp: inbound_end_def same_session_def silent_def)
    next
      case True
      obtain ss' gen where rg: "register k (in_sessions s2) = (ss', gen)" by fastforce
      let ?s2 = "s2\<lparr>in_handshake_done := True, in_sessions := ss', in_peers := connect_session k gen (in_peers s2)\<rparr>"
      obtain s3 now where n: "in_now ?s2 = (s3, now)" by fastforce
      let ?s4 = "s3\<lparr>in_peers := note_peer_height k (hs_chain_height remote) now (in_peers s3),
          in_active := Some (k, gen)\<rparr>"
      note g3 = in_now_frame [OF n]
      have "in_requested s3 = None" "in_handshake_done s3" "in_queued s3 = in_queued s2"
        using g3(1) f(1) rq by (auto simp: same_session_def)
      moreover have "sent_set s2 = sent_set s3" using g3(2) by (simp add: sent_set_def)
      ultimately have i4: "inbound_inv ss ?s4"
        using q2 by (auto simp: inbound_inv_def queue_asked_def asked_def sent_set_def)
      have s': "s' = (if k \<noteq> obs then request_inbound_peer_summary g k gen ?s4 else ?s4)" "go"
        using ac by (simp_all add: accept_handshake_def rs Inr sd True rg n Let_def)
      have "in_handshake_done ?s4" using \<open>in_handshake_done s3\<close> by simp
      then have "inbound_inv ss (request_inbound_peer_summary g k gen ?s4)"
        using inv_same [OF i4 request_summary_frame] by blast
      then show ?thesis using s' i4 by (cases "k = obs") simp_all
    qed
  qed
qed

lemma handshake_inv:
  assumes inv: "inbound_inv ss s" and hs: "inbound_handshake X cm g obs remote s = (s', go)"
  shows "if go then inbound_inv ss s' else inbound_end ss s'"
proof (cases "in_handshake_done s")
  case True
  then show ?thesis using inv hs inv_end by (auto simp: inbound_handshake_def)
next
  case False
  show ?thesis
  proof (cases "validate_handshake X remote (local_node_nonce cm) = Accepted")
    case True
    then have "accept_handshake X cm g obs remote (local_handshake X cm (in_peers s) (current_height g)) s = (s', go)"
      using hs False by (simp add: inbound_handshake_def Let_def)
    then show ?thesis by (rule accept_handshake_inv [OF inv False])
  next
    case no: False
    let ?r = "set_state obs Disconnected (upsert obs False (in_peers s))"
    let ?m = "MsgDisconnect (handshake_reject_reason (validate_handshake X remote (local_node_nonce cm)))"
    obtain s1 ok where sd: "in_send ?m (s\<lparr>in_peers := ?r\<rparr>) = (s1, ok)" by fastforce
    have s1: "s' = s1" "\<not> go"
      using hs False no sd by (auto simp: inbound_handshake_def Let_def split: handshake_result.splits)
    note f = in_send_frame [OF sd]
    have q: "queue_asked s" and si: "silent ss s" using inv False by (auto simp: inbound_inv_def)
    have "queue_asked s1" by (rule queue_asked_mono [OF q]) (use f in \<open>auto simp: same_session_def sent_set_def\<close>)
    moreover have "\<forall>m\<in>sent_set s1. farewell m"
      using si f(2) by (auto simp: silent_def farewell_def sent_set_def split: if_splits)
    ultimately show ?thesis using s1 f(1) si False
      by (auto simp: inbound_end_def same_session_def silent_def)
  qed
qed

lemma send_inv:
  assumes "inbound_inv ss s" "in_handshake_done s" "in_send m s = (s', go)"
  shows "inbound_inv ss s'" "inbound_end ss s'"
  using inv_same [OF assms(1) in_send_frame(1) [OF assms(3)] assms(2)] inv_end by auto

lemma message_inv:
  assumes inv: "inbound_inv ss s" and ms: "inbound_message X cm g obs m s = (s', go)"
  shows "if go then inbound_inv ss s' else inbound_end ss s'"
proof (cases "\<not> in_handshake_done s \<and> \<not> is_pre_handshake m")
  case True
  then show ?thesis using inv ms inv_end by (auto simp: inbound_message_def)
next
  case open_for: False
  show ?thesis
  proof (cases m)
    case (MsgHandshake hs)
    then have "inbound_handshake X cm g obs hs s = (s', go)"
      using ms open_for by (simp add: inbound_message_def is_pre_handshake_def)
    then show ?thesis by (rule handshake_inv [OF inv])
  next
    case (MsgDisconnect r)
    then show ?thesis using inv ms inv_end by (auto simp: inbound_message_def is_pre_handshake_def)
  next
    case (MsgHeight h)
    then have fin: "in_handshake_done s" using open_for by (simp add: is_pre_handshake_def)
    obtain s1 now where n: "in_now s = (s1, now)" by fastforce
    have "inbound_inv ss (s1\<lparr>in_peers := r\<rparr>)" for r
      using inv_same [OF inv same_session_trans [OF in_now_frame(1) [OF n] same_session_peers] fin] .
    then show ?thesis using ms inv fin n MsgHeight
      by (auto simp: inbound_message_def split: option.splits)
  next
    case (MsgGetBlock h)
    then have fin: "in_handshake_done s" using open_for by (simp add: is_pre_handshake_def)
    then show ?thesis using ms MsgGetBlock send_inv [OF inv fin]
      by (auto simp: inbound_message_def split: option.splits) (metis prod.collapse)+
  next
    case (MsgAnnounceBlock an)
    then have "inbound_announcement g an s = (s', go)" "in_handshake_done s"
      using ms open_for by (simp_all add: inbound_message_def is_pre_handshake_def)
    then show ?thesis by (intro announcement_inv [OF inv])
  next
    case (MsgBlock b)
    then show ?thesis using ms block_inv [OF inv] open_for by (simp add: inbound_message_def is_pre_handshake_def)
  next
    case (MsgPong t)
    then show ?thesis using ms inv open_for by (auto simp: inbound_message_def is_pre_handshake_def)
  qed (use ms send_inv [OF inv] open_for in \<open>auto simp: inbound_message_def is_pre_handshake_def\<close>)
qed

lemma step_inv:
  assumes inv: "inbound_inv ss s" and st: "inbound_step X cm g obs ev s = (s', go)"
  shows "if go then inbound_inv ss s' else inbound_end ss s'"
proof (cases "ev = EvOutbound \<and> in_active s \<noteq> None")
  case True
  then obtain k gen where a: "in_active s = Some (k, gen)" by auto
  then have fin: "in_handshake_done s" using inv by (auto simp: inbound_inv_def silent_def)
  obtain ss' r where rc: "session_recv k gen (in_sessions s) = (ss', r)" by fastforce
  have i: "inbound_inv ss (s\<lparr>in_sessions := ss'\<rparr>)"
    using inv fin by (auto simp: inbound_inv_def queue_asked_def asked_def sent_set_def)
  show ?thesis
  proof (cases r)
    case None
    then show ?thesis using st True a rc inv inv_end by (auto simp: inbound_step_def)
  next
    case (Some m)
    then show ?thesis using st True a rc send_inv [OF i] fin by (auto simp: inbound_step_def)
  qed
next
  case False
  obtain l e where rv: "link_recv_wait (in_link s) = (l, e)" by fastforce
  have i: "inbound_inv ss (s\<lparr>in_link := l\<rparr>)" using inv_link [OF inv] sent_link_recv_wait [OF rv] by simp
  have eq: "(s', go) = (case e of RecvMsg m \<Rightarrow> inbound_message X cm g obs m (s\<lparr>in_link := l\<rparr>)
      | _ \<Rightarrow> (s\<lparr>in_link := l\<rparr>, False))"
    using st False rv by (auto simp: inbound_step_def split: inbound_event.splits option.splits recv_event.splits)
  show ?thesis
  proof (cases e)
    case (RecvMsg m)
    then have "inbound_message X cm g obs m (s\<lparr>in_link := l\<rparr>) = (s', go)" using eq by simp
    then show ?thesis by (rule message_inv [OF i])
  qed (use eq inv_end [OF i] in simp_all)
qed

lemma close_end:
  assumes "inbound_end ss s"
  shows "queue_asked (inbound_close s) \<and> (in_handshake_done (inbound_close s) \<or> in_queued (inbound_close s) = [])
    \<and> (\<not> in_handshake_done s \<longrightarrow> inbound_close s = s)"
  using assms
  by (auto simp: inbound_close_def inbound_end_def queue_asked_def asked_def sent_set_def split: option.splits prod.splits)

lemma run_inv:
  assumes "inbound_inv ss s" "handle_inbound X cm obs es s = (s', closed)"
  shows "queue_asked s' \<and> (\<not> in_handshake_done s' \<longrightarrow> in_queued s' = [] \<and> in_sessions s' = ss \<and>
    (\<forall>m\<in>sent_set s'. farewell m \<or> (\<exists>h. m = MsgHandshake h)))"
  using assms
proof (induction X cm obs es s rule: handle_inbound.induct)
  case (1 X cm obs s)
  then show ?case using inv_end [of ss s] by (auto simp: inbound_end_def)
next
  case (2 X cm obs ev g es s)
  obtain s1 go where st: "inbound_step X cm g obs ev s = (s1, go)" by fastforce
  have i: "if go then inbound_inv ss s1 else inbound_end ss s1" by (rule step_inv [OF 2(2) st])
  show ?case
  proof (cases go)
    case True
    then show ?thesis using 2(1) [OF st [symmetric]] i 2(3) st by simp
  next
    case False
    then have e: "inbound_end ss s1" and s': "s' = inbound_close s1" using i 2(3) st by simp_all
    have h: "in_handshake_done (inbound_close s1) = in_handshake_done s1"
      by (auto simp: inbound_close_def split: option.split prod.split)
    show ?thesis using close_end [OF e] e unfolding s' h by (auto simp: inbound_end_def)
  qed
qed

text \<open>C33: a peer that connects can make the node import only blocks the node asked it for. In every
  run of the handler, under every schedule, each block handed to the importer has a well-formed hash
  that the node requested on this connection; and until the handshake has been accepted no block is
  handed over, no session is registered, and nothing but handshakes and farewells is sent.\<close>

theorem inbound_imports_only_requested:
  assumes "sent l = []"
    and "handle_inbound X cm obs es (inbound_start l r ss imp disc) = (s, closed)"
  shows "(\<forall>(b, a)\<in>set (in_queued s). MsgGetBlock (block_hash b) \<in> set (sent (in_link s))
      \<and> is_canonical_hash (block_hash b))
    \<and> (\<not> in_handshake_done s \<longrightarrow> in_queued s = [] \<and> in_sessions s = ss \<and>
         (\<forall>m\<in>set (sent (in_link s)). (\<exists>h. m = MsgHandshake h) \<or> (\<exists>reason. m = MsgDisconnect reason)))"
proof -
  have "inbound_inv ss (inbound_start l r ss imp disc)"
    using assms(1) by (simp add: inbound_inv_def inbound_start_def queue_asked_def silent_def sent_set_def)
  from run_inv [OF this assms(2)] show ?thesis
    unfolding queue_asked_def asked_def sent_set_def farewell_iff by blast
qed

definition early_link :: link where
  "early_link = \<lparr>inbox = [RecvMsg MsgGetHeight], send_results = [True], sent = [], instants = (\<lambda>_. 0), iticks = 0\<rparr>"

definition demo_manager_conn :: conn_manager where
  "demo_manager_conn = \<lparr>listen_addr = SocketV4 (IpV4 0 0 0 0) 7072, local_node_nonce = 7,
     cm_advertised_ip = None, cm_advertised_port = None, cm_allow_private = False\<rparr>"

theorem inbound_imports_only_requested_witness:
  "\<exists>s. handle_inbound light_ext demo_manager_conn ''p'' [(EvIncoming, empty_chain ([] :: ref_db))]
        (inbound_start early_link [] sessions_new NoImporter False) = (s, True)
    \<and> in_queued s = [] \<and> in_sessions s = sessions_new"
proof -
  obtain s closed where r: "handle_inbound light_ext demo_manager_conn ''p'' [(EvIncoming, empty_chain ([] :: ref_db))]
      (inbound_start early_link [] sessions_new NoImporter False) = (s, closed)" by fastforce
  then have "closed \<and> \<not> in_handshake_done s"
    by (auto simp: inbound_step_def inbound_start_def link_recv_wait_def link_recv_def early_link_def
        inbound_message_def is_pre_handshake_def inbound_close_def)
  then show ?thesis
    using inbound_imports_only_requested [OF _ r] r by (auto simp: early_link_def)
qed

end
