(* ===== verification/Sync_Inv.thy ===== *)
theory Sync_Inv
  imports Sync Chain_Safety Fork_Choice Chain_Props
begin

text \<open>
  What fetching and importing guarantee: the fetched blocks are a branch that ends at the claimed
  tip, and importing honest blocks returns, keeps the invariants of the chain and knows every block it
  reported as imported.
\<close>

section \<open>The fetched branch\<close>

definition branch_links :: "block list \<Rightarrow> bool" where
  "branch_links bs \<longleftrightarrow> (\<forall>i. Suc i < length bs \<longrightarrow> parent_hash (header (bs ! Suc i)) = block_hash (bs ! i))"


lemma branch_links_Nil [simp]: "branch_links []" "branch_links [b]"
  by (simp_all add: branch_links_def)

lemma branch_links_Cons:
  assumes "branch_links bs" "bs \<noteq> [] \<Longrightarrow> parent_hash (header (hd bs)) = block_hash b"
  shows "branch_links (b # bs)"
  unfolding branch_links_def
proof (intro allI impI)
  fix i assume i: "Suc i < length (b # bs)"
  show "parent_hash (header ((b # bs) ! Suc i)) = block_hash ((b # bs) ! i)"
  proof (cases i)
    case 0
    then have "bs \<noteq> []" using i by auto
    then show ?thesis using assms(2) 0 by (simp add: hd_conv_nth)
  next
    case (Suc j)
    then show ?thesis using assms(1) i by (simp add: branch_links_def)
  qed
qed

text \<open>What holds of the blocks fetched so far, when \<open>hash\<close> is asked for next.\<close>

definition fetching :: "('db, 'm) chain_state_scheme \<Rightarrow> string \<Rightarrow> string set \<Rightarrow> string \<Rightarrow> block list \<Rightarrow> bool" where
  "fetching g tip0 seen hash acc \<longleftrightarrow>
     seen = block_hash ` set acc \<and> distinct (map block_hash acc) \<and> branch_links acc
     \<and> (\<forall>b\<in>set acc. block_by_hash g (block_hash b) = None \<and> (b \<noteq> hd acc \<longrightarrow> number (header b) \<noteq> 0))
     \<and> (if acc = [] then hash = tip0
        else parent_hash (header (hd acc)) = hash \<and> block_hash (last acc) = tip0 \<and> number (header (hd acc)) \<noteq> 0)"

definition fetched :: "('db, 'm) chain_state_scheme \<Rightarrow> string \<Rightarrow> block list \<Rightarrow> bool" where
  "fetched g tip0 bs \<longleftrightarrow>
     distinct (map block_hash bs) \<and> branch_links bs
     \<and> (\<forall>b\<in>set bs. block_by_hash g (block_hash b) = None \<and> (b \<noteq> hd bs \<longrightarrow> number (header b) \<noteq> 0))
     \<and> (if bs = [] then block_by_hash g tip0 \<noteq> None
        else block_hash (last bs) = tip0
          \<and> (number (header (hd bs)) = 0 \<or> block_by_hash g (parent_hash (header (hd bs))) \<noteq> None))"

lemma fetch_branch_fetched:
  "fetch_branch g own seen hash acc l = (l', Inr bs) \<Longrightarrow> fetching g tip0 seen hash acc \<Longrightarrow> fetched g tip0 bs"
proof (induction g own seen hash acc l rule: fetch_branch.induct)
  case (1 g own seen hash acc l)
  show ?case
  proof (cases "block_by_hash g hash \<noteq> None")
    case True
    then have "bs = acc" using 1(2) by (simp add: fetch_branch.simps [of g own seen hash acc l])
    then show ?thesis using 1(3) True by (auto simp: fetched_def fetching_def)
  next
    case unknown: False
    have fresh: "hash \<notin> seen"
      using 1(2) unknown by (auto simp: fetch_branch.simps [of g own seen hash acc l] split: if_splits)
    obtain l1 ok where sd: "link_send (MsgGetBlock hash) l = (l1, ok)" by fastforce
    have ok: "ok" using 1(2) unknown fresh sd
      by (cases ok) (simp_all add: fetch_branch.simps [of g own seen hash acc l])
    obtain l2 res where aw: "await_block own l1 = (l2, res)" by fastforce
    have eq: "fetch_branch g own seen hash acc l = (case res of Inl e \<Rightarrow> (l2, Inl e)
        | Inr b \<Rightarrow> if block_hash b \<noteq> hash then (l2, Inl (WrongBlock hash (block_hash b)))
                  else if number (header b) = 0 then (l2, Inr (b # acc))
                  else fetch_branch g own (insert hash seen) (parent_hash (header b)) (b # acc) l2)"
      using unknown fresh sd ok aw by (simp add: fetch_branch.simps [of g own seen hash acc l])
    obtain b where b: "res = Inr b" and h: "block_hash b = hash"
      using 1(2) eq by (cases res) (auto split: if_splits)
    have a: "branch_links (b # acc)" "distinct (map block_hash (b # acc))"
      "block_hash (last (b # acc)) = tip0"
      "\<forall>c\<in>set (b # acc). block_by_hash g (block_hash c) = None \<and> (c \<noteq> hd (b # acc) \<longrightarrow> number (header c) \<noteq> 0)"
    proof -
      show "branch_links (b # acc)"
        using 1(3) h by (intro branch_links_Cons) (auto simp: fetching_def split: if_splits)
      show "distinct (map block_hash (b # acc))" using 1(3) h fresh by (auto simp: fetching_def)
      show "block_hash (last (b # acc)) = tip0" using 1(3) h by (auto simp: fetching_def split: if_splits)
      show "\<forall>c\<in>set (b # acc). block_by_hash g (block_hash c) = None \<and> (c \<noteq> hd (b # acc) \<longrightarrow> number (header c) \<noteq> 0)"
        using 1(3) h unknown by (auto simp: fetching_def split: if_splits)
    qed
    show ?thesis
    proof (cases "number (header b) = 0")
      case True
      then have "bs = b # acc" using 1(2) eq b h by simp
      then show ?thesis using a True by (simp add: fetched_def)
    next
      case False
      have f: "fetching g tip0 (insert hash seen) (parent_hash (header b)) (b # acc)"
        using a False 1(3) h by (auto simp: fetching_def)
      have r: "fetch_branch g own (insert hash seen) (parent_hash (header b)) (b # acc) l2 = (l', Inr bs)"
        using 1(2) eq b h False by simp
      have "\<not> block_hash b \<noteq> hash" using h by simp
      then show ?thesis
        using 1(1) [OF unknown fresh sd [symmetric] _ aw [symmetric] b _ False r f] ok by simp
    qed
  qed
qed

section \<open>Importing\<close>

lemma block_by_hash_known: "chain_inv X ht m \<Longrightarrow> block_by_hash m h = known m h"
  using resolve_known by (simp add: resolve_block_by_hash)

lemma accepted_known:
  assumes inv: "chain_inv X ht m" and h: "honest ht b"
    and ap: "apply_block X b src m = Ret (m', r)" and acc: "r = CanonExtension n \<or> r = SideChain n"
  shows "known m' (block_hash b) = Some b"
proof -
  have ok: "base_ok m" using inv by (simp add: chain_inv_def)
  have dc: "dc_ok (ds_cache m)" using ok by (simp add: base_ok_def)
  obtain m1 st where core: "apply_core X b src m = Ret (m1, st)"
    using ap by (auto simp: apply_block_unfold [OF ok] split: outcome.splits)
  have inv1: "chain_inv X ht m1" by (rule apply_core_inv [OF inv h core])
  have "\<exists>q. st = Promote q"
  proof (cases st)
    case (Final q)
    then have "q = r" using ap core by (simp add: apply_block_unfold [OF ok])
    from core dc show ?thesis
    proof (cases rule: apply_core_cases)
      case (Gen m2)
      then show ?thesis using inv by (simp add: chain_inv_def linked_def)
    qed (use Final \<open>q = r\<close> acc in auto)
  qed blast
  then obtain q where q: "st = Promote q" by blast
  then have k: "known m1 (block_hash b) = Some b" using apply_core_known [OF inv h core] by auto
  obtain c where po: "process_orphans X (block_hash b) m1 = Ret (m', c)"
    using ap core q by (auto simp: apply_block_unfold [OF ok] split: outcome.splits)
  have "advances X ht m1 m'" by (rule progress.process_orphans_inv [OF po advances_refl [OF inv1]])
  then show ?thesis using k by (simp add: advances_def)
qed

text \<open>The states an import step runs through differ from the acceptance of blocks only in fields the
  invariants do not look at.\<close>

definition settled :: "'db machine \<Rightarrow> 'db machine" where
  "settled m = (refresh_cached_state_root_from_tip m)\<lparr>pending_reorg_recovery := None\<rparr>"

lemma settled_fields [simp]:
  "blocks (settled m) = blocks m" "canon_index (settled m) = canon_index m" "side_blocks (settled m) = side_blocks m"
  "cumulative_work (settled m) = cumulative_work m" "seen_blocks (settled m) = seen_blocks m"
  "balances (settled m) = balances m" "nonces (settled m) = nonces m" "orphan_pool (settled m) = orphan_pool m"
  "account_state (settled m) = account_state m"
  by (simp_all add: settled_def refresh_cached_state_root_from_tip_def account_state_def)

lemma settled_inv: "chain_inv X ht m \<Longrightarrow> chain_inv X ht (settled m)"
  by (rule chain_inv_frame [of X ht m])
    (simp_all add: chain_inv_def base_ok_def settled_def refresh_cached_state_root_from_tip_def)

lemma settled_best: "best_inv X ht m \<Longrightarrow> best_inv X ht (settled m)"
  by (rule best_frame [of X ht m]) (simp_all add: settled_inv best_inv_def)

lemma settled_advances: "advances X ht m0 m \<Longrightarrow> advances X ht m0 (settled m)"
  by (rule advances_frame [of X ht m0 m]) (simp_all add: settled_inv advances_def)

lemma import_one_result:
  assumes inv: "chain_inv X ht m" and h: "honest ht b"
  obtains m' p' res where "import_one X a b m p = Ret (m', p', res)" "advances X ht m m'"
    "store_accepts X \<Longrightarrow> best_inv X ht m \<Longrightarrow> best_inv X ht m'"
    "\<And>f. res = Inr f \<Longrightarrow> known m' (block_hash b) \<noteq> None"
proof (cases "block_by_hash m (block_hash b) = None")
  case False
  then show thesis
    by (intro that [of m p "Inr False"])
      (use advances_refl [OF inv] block_by_hash_known [OF inv] in \<open>simp_all add: import_one_def\<close>)
next
  case True
  obtain m1 r where ap: "apply_block X b (Some a) m = Ret (m1, r)"
    using chain.apply_block_returns [OF inv h] by blast
  have adv: "advances X ht m m1" by (rule progress.apply_block_inv [OF ap advances_refl [OF inv] h])
  have best: "best_inv X ht m1" if "store_accepts X" "best_inv X ht m"
    using best.apply_block_inv [OF ap _ h] that by blast
  have kn: "r = CanonExtension n \<or> r = SideChain n \<Longrightarrow> known m1 (block_hash b) \<noteq> None" for n
    using accepted_known [OF inv h ap] by simp
  show thesis
  proof (cases r)
    case (CanonExtension k)
    have k1: "known (settled m1) (block_hash b) \<noteq> None"
      using kn CanonExtension known_cong [of "settled m1" m1] by simp
    have "\<exists>p'. import_one X a b m p = Ret (settled m1, p', Inr True)"
      using True ap CanonExtension
      by (simp add: import_one_def Let_def settled_def split: option.split)
    then obtain p' where im: "import_one X a b m p = Ret (settled m1, p', Inr True)" by blast
    show thesis by (rule that [OF im settled_advances [OF adv]]) (use settled_best best k1 in auto)
  next
    case (SideChain k)
    then have im: "import_one X a b m p = Ret (m1, p, Inr True)" using True ap by (simp add: import_one_def)
    show thesis by (rule that [OF im adv]) (use best kn SideChain in auto)
  next
    case (StoredOrphan k)
    then have im: "import_one X a b m p = Ret (m1, p, Inl (ImportOrphan k))" using True ap by (simp add: import_one_def)
    show thesis by (rule that [OF im adv]) (use best in auto)
  next
    case (Rejected e)
    then have im: "import_one X a b m p = Ret (m1, p, Inl (ImportRejected e))" using True ap by (simp add: import_one_def)
    show thesis by (rule that [OF im adv]) (use best in auto)
  qed
qed

lemma advances_trans: "advances X ht a b \<Longrightarrow> advances X ht b c \<Longrightarrow> advances X ht a c"
  unfolding advances_def by (auto intro: less_trans)

lemma import_all_result:
  assumes "chain_inv X ht m" "\<forall>b\<in>set bs. honest ht b"
  shows "\<exists>m' p' res. import_fetched_blocks X a bs n m p = Ret (m', p', res) \<and> advances X ht m m'
    \<and> (store_accepts X \<longrightarrow> best_inv X ht m \<longrightarrow> best_inv X ht m')
    \<and> (\<forall>k. res = Inr k \<longrightarrow> (\<forall>b\<in>set bs. known m' (block_hash b) \<noteq> None))"
  using assms
proof (induction bs arbitrary: n m p)
  case Nil
  then show ?case by (simp add: advances_refl)
next
  case (Cons b bs)
  have hb: "honest ht b" using Cons.prems(2) by simp
  obtain m1 p1 r1 where one: "import_one X a b m p = Ret (m1, p1, r1)" "advances X ht m m1"
    "store_accepts X \<Longrightarrow> best_inv X ht m \<Longrightarrow> best_inv X ht m1"
    "\<And>f. r1 = Inr f \<Longrightarrow> known m1 (block_hash b) \<noteq> None"
    by (rule import_one_result [OF Cons.prems(1) hb, of a p]) blast
  show ?case
  proof (cases r1)
    case (Inl e)
    then show ?thesis using one by simp
  next
    case (Inr f)
    have inv1: "chain_inv X ht m1" using one(2) by (simp add: advances_def)
    obtain m' p' res where rest: "import_fetched_blocks X a bs (if f then n + 1 else n) m1 p1 = Ret (m', p', res)"
      "advances X ht m1 m'" "store_accepts X \<longrightarrow> best_inv X ht m1 \<longrightarrow> best_inv X ht m'"
      "\<forall>k. res = Inr k \<longrightarrow> (\<forall>b\<in>set bs. known m' (block_hash b) \<noteq> None)"
      using Cons.IH [OF inv1] Cons.prems(2) by (metis list.set_intros(2))
    have "known m' (block_hash b) \<noteq> None"
      using one(4) [OF Inr] rest(2) unfolding advances_def by fastforce
    then show ?thesis using one rest Inr advances_trans [OF one(2) rest(2)] by auto
  qed
qed

end
