(* ===== verification/Sync_Heard.thy ===== *)
theory Sync_Heard
  imports Sync_Inv
begin

text \<open>
  What a synchronisation may use of the peer: only messages that were on the link. Each reader of
  the link returns something it heard and leaves a link that still has only what was there.
\<close>

definition heard :: "link \<Rightarrow> p2p_message set" where
  "heard l = {m. RecvMsg m \<in> set (inbox l)}"

lemma heard_send: "link_send m l = (l', ok) \<Longrightarrow> heard l' = heard l"
  by (simp add: heard_def inbox_send_eq)

lemma heard_now: "link_now l = (l', t) \<Longrightarrow> heard l' = heard l"
  by (auto simp: heard_def link_now_def)

lemma heard_recv:
  assumes "link_recv l = (l', e)"
  shows "heard l' \<subseteq> heard l" "e = RecvMsg m \<Longrightarrow> m \<in> heard l"
  using assms by (auto simp: heard_def link_recv_def split: list.splits)

lemma set_skip_timeouts: "set (skip_timeouts es) \<subseteq> set es"
  by (induction es) auto

lemma heard_recv_wait:
  assumes "link_recv_wait l = (l', e)"
  shows "heard l' \<subseteq> heard l" "e = RecvMsg m \<Longrightarrow> m \<in> heard l"
proof -
  have "heard (l\<lparr>inbox := skip_timeouts (inbox l)\<rparr>) \<subseteq> heard l"
    using set_skip_timeouts by (auto simp: heard_def)
  then show "heard l' \<subseteq> heard l" "e = RecvMsg m \<Longrightarrow> m \<in> heard l"
    using heard_recv [OF assms [unfolded link_recv_wait_def]] by auto
qed

section \<open>The readers\<close>

lemma heard_await_height:
  "await_height n a own l = (l', res) \<Longrightarrow>
     heard l' \<subseteq> heard l \<and> (\<forall>s. res = Inr s \<longrightarrow> MsgHeight s \<in> heard l)"
proof (induction n a own l rule: await_height.induct)
  case (1 a own l)
  then show ?case by auto
next
  case (2 n a own l)
  obtain l1 ev where rv: "link_recv l = (l1, ev)" by fastforce
  note h = heard_recv [OF rv]
  show ?case
  proof (cases ev)
    case (RecvMsg m)
    have go: "heard l' \<subseteq> heard l \<and> (\<forall>s. res = Inr s \<longrightarrow> MsgHeight s \<in> heard l)"
      if "link_send m' l1 = (l2, ok)" "ok \<Longrightarrow> await_height n a own l2 = (l', res)"
        "\<not> ok \<Longrightarrow> (l', res) = (l2, Inl (SyncIo ''io''))"
        "\<And>l2. link_send m' l1 = (l2, True) \<Longrightarrow> await_height n a own l2 = (l', res) \<Longrightarrow>
           heard l' \<subseteq> heard l2 \<and> (\<forall>s. res = Inr s \<longrightarrow> MsgHeight s \<in> heard l2)" for m' l2 ok
      using that(1-3) that(4) [of l2] heard_send [OF that(1)] h(1) by (cases ok) auto
    show ?thesis
    proof (cases m)
      case (MsgPing t)
      obtain l2 ok where s: "link_send (MsgPong t) l1 = (l2, ok)" by fastforce
      show ?thesis
        by (rule go [OF s]) (use 2 rv RecvMsg MsgPing s in \<open>auto split: bool.splits\<close>)
    next
      case MsgGetHeight
      obtain l2 ok where s: "link_send (MsgHeight own) l1 = (l2, ok)" by fastforce
      show ?thesis
        by (rule go [OF s]) (use 2 rv RecvMsg MsgGetHeight s in \<open>auto split: bool.splits\<close>)
    qed (use 2(3) rv RecvMsg h in auto)
  qed (use 2(3) rv h in auto)
qed

lemma heard_await_block:
  "await_block own l = (l', res) \<Longrightarrow>
     heard l' \<subseteq> heard l \<and> (\<forall>b. res = Inr b \<longrightarrow> MsgBlock b \<in> heard l)"
proof (induction own l rule: await_block.induct)
  case (1 own l)
  obtain l1 ev where rv: "link_recv_wait l = (l1, ev)" by fastforce
  note h = heard_recv_wait [OF rv]
  note eq = await_block.simps [of own l]
  show ?case
  proof (cases ev)
    case (RecvMsg m)
    have go: "heard l' \<subseteq> heard l \<and> (\<forall>b. res = Inr b \<longrightarrow> MsgBlock b \<in> heard l)"
      if "link_send m' l1 = (l2, ok)" "ok \<Longrightarrow> await_block own l2 = (l', res)"
        "\<not> ok \<Longrightarrow> (l', res) = (l2, Inl (SyncIo ''io''))"
        "ok \<Longrightarrow> heard l' \<subseteq> heard l2 \<and> (\<forall>b. res = Inr b \<longrightarrow> MsgBlock b \<in> heard l2)" for m' l2 ok
      using that(1-4) heard_send [OF that(1)] h(1) by (cases ok) auto
    show ?thesis
    proof (cases m)
      case (MsgPing t)
      obtain l2 ok where s: "link_send (MsgPong t) l1 = (l2, ok)" by fastforce
      have c: "ok \<Longrightarrow> await_block own l2 = (l', res)" "\<not> ok \<Longrightarrow> (l', res) = (l2, Inl (SyncIo ''io''))"
        using 1(4) rv RecvMsg MsgPing s by (auto simp: eq)
      show ?thesis by (rule go [OF s c]) (use 1(1) [OF rv [symmetric] RecvMsg MsgPing s [symmetric]] c in auto)
    next
      case MsgGetHeight
      obtain l2 ok where s: "link_send (MsgHeight own) l1 = (l2, ok)" by fastforce
      have c: "ok \<Longrightarrow> await_block own l2 = (l', res)" "\<not> ok \<Longrightarrow> (l', res) = (l2, Inl (SyncIo ''io''))"
        using 1(4) rv RecvMsg MsgGetHeight s by (auto simp: eq)
      show ?thesis by (rule go [OF s c]) (use 1(2) [OF rv [symmetric] RecvMsg MsgGetHeight s [symmetric]] c in auto)
    next
      case (MsgAnnounceBlock an)
      then have "await_block own l1 = (l', res)" using 1(4) rv RecvMsg by (simp add: eq)
      then show ?thesis using 1(3) [OF rv [symmetric] RecvMsg MsgAnnounceBlock] h by auto
    qed (use 1(4) rv RecvMsg h in \<open>auto simp: eq\<close>)
  qed (use 1(4) rv h in \<open>auto simp: eq\<close>)
qed

lemma heard_fetch_branch:
  "fetch_branch g own seen hash acc l = (l', Inr bs) \<Longrightarrow> MsgBlock ` set bs \<subseteq> MsgBlock ` set acc \<union> heard l"
proof (induction g own seen hash acc l rule: fetch_branch.induct)
  case (1 g own seen hash acc l)
  note eq = fetch_branch.simps [of g own seen hash acc l]
  show ?case
  proof (cases "block_by_hash g hash \<noteq> None")
    case True
    then show ?thesis using 1(2) by (simp add: eq)
  next
    case unknown: False
    have fresh: "hash \<notin> seen" using 1(2) unknown by (auto simp: eq split: if_splits)
    obtain l1 ok where sd: "link_send (MsgGetBlock hash) l = (l1, ok)" by fastforce
    have ok: ok using 1(2) unknown fresh sd by (cases ok) (simp_all add: eq)
    obtain l2 res where aw: "await_block own l1 = (l2, res)" by fastforce
    have r: "(l', Inr bs) = (case res of Inl e \<Rightarrow> (l2, Inl e)
        | Inr b \<Rightarrow> if block_hash b \<noteq> hash then (l2, Inl (WrongBlock hash (block_hash b)))
                  else if number (header b) = 0 then (l2, Inr (b # acc))
                  else fetch_branch g own (insert hash seen) (parent_hash (header b)) (b # acc) l2)"
      using 1(2) unknown fresh sd ok aw by (simp add: eq)
    obtain b where b: "res = Inr b" and h: "\<not> block_hash b \<noteq> hash"
      using r by (cases res) (auto split: if_splits)
    have mem: "MsgBlock b \<in> heard l" "heard l2 \<subseteq> heard l"
      using heard_await_block [OF aw] b heard_send [OF sd] by auto
    show ?thesis
    proof (cases "number (header b) = 0")
      case True
      then show ?thesis using r b h mem by auto
    next
      case False
      then have "fetch_branch g own (insert hash seen) (parent_hash (header b)) (b # acc) l2 = (l', Inr bs)"
        using r b h by simp
      then show ?thesis
        using 1(1) [OF unknown fresh sd [symmetric] _ aw [symmetric] b h False] ok mem by auto
    qed
  qed
qed

end
