(* ===== verification/Sync_Props.thy ===== *)
theory Sync_Props
  imports Sync_Heard Services
begin

text \<open>The properties of synchronisation: what a peer can make the node adopt, and what its claims do.\<close>

section \<open>Adopting a branch\<close>

lemma heard_handshake:
  assumes "sync_handshake X cm h r l = (l', res)"
  shows "heard l' \<subseteq> heard l"
proof -
  obtain l1 ok where s: "link_send (MsgHandshake (local_handshake X cm r h)) l = (l1, ok)" by fastforce
  obtain l2 ev where rv: "link_recv_wait l1 = (l2, ev)" by fastforce
  have "l' = l1 \<or> l' = l2"
    using assms s rv
    by (auto simp: sync_handshake_def split: bool.splits recv_event.splits p2p_message.splits handshake_result.splits)
  then show ?thesis using heard_send [OF s] heard_recv_wait(1) [OF rv] by auto
qed

lemma heard_query:
  assumes "query_height a own l = (l', res)"
  shows "heard l' \<subseteq> heard l" "res = Inr s \<Longrightarrow> MsgHeight s \<in> heard l"
proof -
  obtain l1 ok where sd: "link_send MsgGetHeight l = (l1, ok)" by fastforce
  show "heard l' \<subseteq> heard l" "res = Inr s \<Longrightarrow> MsgHeight s \<in> heard l"
    using assms sd heard_send [OF sd] heard_await_height [of 8 a own l1 l' res]
    by (auto simp: query_height_def split: bool.splits)
qed

text \<open>What one attempt does to the chain: nothing, or it imports a fetched branch of blocks that were
  received, which ends at the tip the peer claimed.\<close>

lemma live_sync_imports:
  fixes s :: "'db sync_state"
  obtains s' e where "live_sync_from_peer X cm a connected s = Ret (s', Inl e)"
      "sy_machine s' = sy_machine s" "sy_pool s' = sy_pool s"
  | s' remote where "live_sync_from_peer X cm a connected s = Ret (s', Inr 0)"
      "sy_machine s' = sy_machine s" "sy_pool s' = sy_pool s" "MsgHeight remote \<in> heard (sy_link s)"
      "\<not> sum_height remote > current_height (sy_machine s)"
      "\<not> work_ahead remote (summary_from_chain (sy_machine s))"
  | s1 remote h bs where "MsgHeight remote \<in> heard (sy_link s)" "sum_tip remote = Some h"
      "sum_height remote > current_height (sy_machine s)
         \<or> work_ahead remote (summary_from_chain (sy_machine s))"
      "fetched (sy_machine s) h bs" "MsgBlock ` set bs \<subseteq> heard (sy_link s)"
      "live_sync_from_peer X cm a connected s =
         (case import_fetched_blocks X a bs 0 (sy_machine s) (sy_pool s) of
            Panic \<Rightarrow> Panic
          | OutOfFuel \<Rightarrow> OutOfFuel
          | Ret (m, p, res) \<Rightarrow> Ret (s1\<lparr>sy_machine := m, sy_pool := p\<rparr>, res))"
proof (cases "parse_socket_addr a = None \<or> \<not> connected")
  case True
  then have "\<exists>e. live_sync_from_peer X cm a connected s = Ret (s, Inl e)" by (auto simp: live_sync_from_peer_def)
  then show thesis using that(1) [of s] by blast
next
  case False
  let ?m = "sy_machine s"
  obtain l1 hs where hs: "sync_handshake X cm (current_height ?m) (sy_peers s) (sy_link s) = (l1, hs)" by fastforce
  note eq = live_sync_from_peer_def
  obtain sa where ok: "parse_socket_addr a = Some sa" connected using False by auto
  show thesis
  proof (cases hs)
    case (Inl e)
    then show thesis using ok hs by (intro that(1) [of "s\<lparr>sy_link := l1\<rparr>" e]) (simp_all add: eq)
  next
    case hs': (Inr remote_hs)
    obtain l2 now1 where n1: "link_now l1 = (l2, now1)" by fastforce
    obtain l3 q where q: "query_height a (summary_from_chain ?m) l2 = (l3, q)" by fastforce
    let ?r1 = "note_peer_height a (hs_chain_height remote_hs) now1 (sy_peers s)"
    show thesis
    proof (cases q)
      case (Inl e)
      then show thesis using ok hs hs' n1 q
        by (intro that(1) [of "s\<lparr>sy_link := l3, sy_peers := ?r1\<rparr>" e]) (simp_all add: eq Let_def)
    next
      case (Inr remote)
      obtain l4 now2 where n2: "link_now l3 = (l4, now2)" by fastforce
      obtain l5 rb where rb: "request_branch ?m remote l4 = (l5, rb)" by fastforce
      let ?r2 = "note_peer_summary a remote now2 ?r1"
      have sub: "heard l4 \<subseteq> heard (sy_link s)" and hr: "MsgHeight remote \<in> heard (sy_link s)"
        using heard_handshake [OF hs] heard_now [OF n1] heard_query [OF q] Inr heard_now [OF n2] by auto
      note step = eq hs hs' n1 q Inr n2 rb
      show thesis
      proof (cases rb)
        case (Inl e)
        then show thesis using ok
          by (intro that(1) [of "s\<lparr>sy_link := l5, sy_peers := ?r2\<rparr>" e]) (simp_all add: step Let_def)
      next
        case rb': (Inr wanted)
        show thesis
        proof (cases wanted)
          case None
          have "\<not> sum_height remote > current_height ?m \<and> \<not> work_ahead remote (summary_from_chain ?m)"
            using rb rb' None
            by (auto simp: request_branch_def Let_def summary_from_chain_def
                split: if_splits option.splits prod.splits sum.splits)
          then show thesis using ok None rb' hr
            by (intro that(2) [of "s\<lparr>sy_link := l5, sy_peers := ?r2\<rparr>" remote]) (simp_all add: step Let_def)
        next
          case (Some bs)
          then obtain h where h: "sum_tip remote = Some h"
            "fetch_branch ?m (summary_from_chain ?m) {} h [] l4 = (l5, Inr bs)"
            and need: "sum_height remote > current_height ?m \<or> work_ahead remote (summary_from_chain ?m)"
            using rb rb' by (auto simp: request_branch_def Let_def summary_from_chain_def
                split: if_splits option.splits prod.splits sum.splits)
          have "fetched ?m h bs" by (rule fetch_branch_fetched [OF h(2)]) (simp add: fetching_def)
          moreover have "MsgBlock ` set bs \<subseteq> heard (sy_link s)" using heard_fetch_branch [OF h(2)] sub by auto
          ultimately show thesis using ok Some rb'
            by (intro that(3) [OF hr h(1) need, of bs "s\<lparr>sy_link := l5, sy_peers := ?r2\<rparr>"])
              (simp_all add: step Let_def split: outcome.split prod.split)
        qed
      qed
    qed
  qed
qed


section \<open>A peer that serves its branch\<close>

text \<open>The peer accepts the connection and the handshake, reports a summary that is ahead of the local
  chain, and answers every request with the block asked for, from the tip of the branch down to the
  child of a block the node knows.\<close>

definition serves_branch ::
  "('db, 'x) ext_scheme \<Rightarrow> conn_manager \<Rightarrow> string \<Rightarrow> bool \<Rightarrow> 'db sync_state \<Rightarrow> string \<Rightarrow> block list \<Rightarrow> bool" where
  "serves_branch X cm a connected s h bs \<longleftrightarrow>
     parse_socket_addr a \<noteq> None \<and> connected \<and> fetched (sy_machine s) h bs
     \<and> (\<exists>hs remote rest oks. validate_handshake X hs (local_node_nonce cm) = Accepted
          \<and> sum_tip remote = Some h
          \<and> (sum_height remote > current_height (sy_machine s)
               \<or> work_ahead remote (summary_from_chain (sy_machine s)))
          \<and> inbox (sy_link s) = RecvMsg (MsgHandshake hs) # RecvMsg (MsgHeight remote)
               # map (\<lambda>b. RecvMsg (MsgBlock b)) (rev bs) @ rest
          \<and> send_results (sy_link s) = True # True # replicate (length bs) True @ oks)"

text \<open>The local rules accept the blocks of a branch one after the other, each on the state the one
  before it left.\<close>

fun accepts_all :: "('db, 'x) ext_scheme \<Rightarrow> string \<Rightarrow> block list \<Rightarrow> 'db machine \<Rightarrow> bool" where
  "accepts_all X a [] m \<longleftrightarrow> True"
| "accepts_all X a (b # bs) m \<longleftrightarrow>
     (if block_by_hash m (block_hash b) \<noteq> None then accepts_all X a bs m
      else (case apply_block X b (Some a) m of
              Ret (m1, CanonExtension h) \<Rightarrow> accepts_all X a bs (settled m1)
            | Ret (m1, SideChain h) \<Rightarrow> accepts_all X a bs m1
            | _ \<Rightarrow> False))"

lemma accepts_all_imports:
  "accepts_all X a bs m \<Longrightarrow> \<exists>m' p' k. import_fetched_blocks X a bs n m p = Ret (m', p', Inr k) \<and> k \<le> n + length bs"
proof (induction bs arbitrary: n m p)
  case Nil
  then show ?case by simp
next
  case (Cons b bs)
  have go: ?case if one: "import_one X a b m p = Ret (m1, p1, Inr f)" and acc: "accepts_all X a bs m1" for m1 p1 f
  proof -
    obtain m' p' k where "import_fetched_blocks X a bs (if f then n + 1 else n) m1 p1 = Ret (m', p', Inr k)"
      "k \<le> (if f then n + 1 else n) + length bs" using Cons.IH [OF acc] by blast
    then show ?thesis using one by (auto split: if_splits)
  qed
  show ?case
  proof (cases "block_by_hash m (block_hash b) = None")
    case False
    then show ?thesis using Cons.prems by (intro go [of m p False]) (simp_all add: import_one_def)
  next
    case True
    then obtain m1 r where ap: "apply_block X b (Some a) m = Ret (m1, r)"
      using Cons.prems by (auto split: outcome.splits)
    show ?thesis
    proof (cases r)
      case (CanonExtension k)
      then have "\<exists>p1. import_one X a b m p = Ret (settled m1, p1, Inr True)"
        using True ap by (simp add: import_one_def Let_def settled_def split: option.split)
      then show ?thesis using go Cons.prems True ap CanonExtension by auto
    next
      case (SideChain k)
      then show ?thesis using Cons.prems True ap by (intro go [of m1 p True]) (simp_all add: import_one_def)
    qed (use Cons.prems True ap in simp_all)
  qed
qed

lemma fetched_known:
  assumes "chain_inv X ht m" "fetched m h bs" "advances X ht m m'" "\<forall>b\<in>set bs. known m' (block_hash b) \<noteq> None"
  shows "known m' h \<noteq> None"
proof (cases "bs = []")
  case True
  then have "known m h \<noteq> None" using assms(1,2) block_by_hash_known [OF assms(1)] by (simp add: fetched_def)
  then show ?thesis using assms(3) by (auto simp: advances_def)
next
  case False
  then show ?thesis using assms(2,4) by (auto simp: fetched_def)
qed

text \<open>Such a peer's branch is fetched completely.\<close>

lemma serve_one:
  assumes "inbox l = RecvMsg (MsgBlock b) # es" "send_results l = True # oks"
  shows "\<exists>l1 l2. link_send (MsgGetBlock h) l = (l1, True) \<and> await_block own l1 = (l2, Inr b)
    \<and> inbox l2 = es \<and> send_results l2 = oks"
proof -
  let ?l1 = "l\<lparr>send_results := oks, sent := sent l @ [MsgGetBlock h]\<rparr>"
  have "link_send (MsgGetBlock h) l = (?l1, True)" using assms(2) by (simp add: link_send_def)
  moreover have "await_block own ?l1 = (?l1\<lparr>inbox := es\<rparr>, Inr b)"
    using assms(1) by (simp add: await_block.simps [of own ?l1] link_recv_wait_def link_recv_def)
  moreover have "inbox (?l1\<lparr>inbox := es\<rparr>) = es" "send_results (?l1\<lparr>inbox := es\<rparr>) = oks" by simp_all
  ultimately show ?thesis by blast
qed

lemma fetch_served:
  "fetched g h (ps @ acc) \<Longrightarrow> fetching g h seen hash acc \<Longrightarrow>
     inbox l = map (\<lambda>b. RecvMsg (MsgBlock b)) (rev ps) @ rest \<Longrightarrow>
     send_results l = replicate (length ps) True @ oks \<Longrightarrow>
     \<exists>l'. fetch_branch g own seen hash acc l = (l', Inr (ps @ acc))"
proof (induction ps arbitrary: acc seen hash l rule: rev_induct)
  case Nil
  then have "block_by_hash g hash \<noteq> None" by (auto simp: fetched_def fetching_def split: if_splits)
  then show ?case by (simp add: fetch_branch.simps)
next
  case (snoc b ps)
  have f: "fetched g h (ps @ b # acc)" using snoc.prems(1) by simp
  have hash: "hash = block_hash b"
  proof (cases acc)
    case Nil
    then show ?thesis using snoc.prems(1,2) by (simp add: fetched_def fetching_def)
  next
    case (Cons c cs)
    have "parent_hash (header ((ps @ b # acc) ! Suc (length ps))) = block_hash ((ps @ b # acc) ! length ps)"
      using f Cons unfolding fetched_def branch_links_def by simp
    then show ?thesis using snoc.prems(2) Cons by (simp add: fetching_def nth_append)
  qed
  have unknown: "block_by_hash g hash = None" using f by (simp add: fetched_def hash)
  have fresh: "hash \<notin> seen" using f snoc.prems(2) by (auto simp: fetched_def fetching_def hash)
  obtain l1 l2 where sv: "link_send (MsgGetBlock hash) l = (l1, True)" "await_block own l1 = (l2, Inr b)"
    and l2: "inbox l2 = map (\<lambda>b. RecvMsg (MsgBlock b)) (rev ps) @ rest"
      "send_results l2 = replicate (length ps) True @ oks"
    using serve_one [of l b _ _ hash own] snoc.prems(3,4) by fastforce
  have eq: "fetch_branch g own seen hash acc l = (if number (header b) = 0 then (l2, Inr (b # acc))
      else fetch_branch g own (insert hash seen) (parent_hash (header b)) (b # acc) l2)"
    using unknown fresh sv hash [symmetric] by (simp add: fetch_branch.simps [of g own seen hash acc l])
  show ?case
  proof (cases "number (header b) = 0")
    case True
    have "b = hd (ps @ b # acc)" using f True by (auto simp: fetched_def)
    then have "ps = []"
      using f by (cases ps) (auto simp: fetched_def)
    then show ?thesis using eq True by simp
  next
    case False
    have links: "branch_links (b # acc)"
      using f unfolding fetched_def branch_links_def
      by (metis add_Suc_right append_eq_append_conv2 length_append nth_append_length_plus nat_add_left_cancel_less add_Suc)
    have nz: "number (header c) \<noteq> 0" if "c \<in> set acc" for c
    proof -
      have "hd (ps @ b # acc) \<in> set (ps @ [b])" by (cases ps) auto
      moreover have "block_hash ` set (ps @ [b]) \<inter> block_hash ` set acc = {}" using f by (auto simp: fetched_def)
      ultimately have "c \<noteq> hd (ps @ b # acc)" using that by blast
      then show ?thesis using f that by (auto simp: fetched_def)
    qed
    have "fetching g h (insert hash seen) (parent_hash (header b)) (b # acc)"
      using f snoc.prems(2) links False nz
      by (auto simp: fetched_def fetching_def hash)
    then show ?thesis using snoc.IH [OF f _ l2] eq False by simp
  qed
qed

lemma serves_imports:
  fixes s :: "'db sync_state"
  assumes "serves_branch X cm a connected s h bs"
  obtains s1 where "live_sync_from_peer X cm a connected s =
     (case import_fetched_blocks X a bs 0 (sy_machine s) (sy_pool s) of
        Panic \<Rightarrow> Panic
      | OutOfFuel \<Rightarrow> OutOfFuel
      | Ret (m, p, res) \<Rightarrow> Ret (s1\<lparr>sy_machine := m, sy_pool := p\<rparr>, res))"
proof -
  let ?m = "sy_machine s"
  obtain hs remote rest oks where ad: "parse_socket_addr a \<noteq> None" connected
    and f: "fetched ?m h bs" and hs: "validate_handshake X hs (local_node_nonce cm) = Accepted"
    and tip: "sum_tip remote = Some h"
    and need: "sum_height remote > current_height ?m \<or> work_ahead remote (summary_from_chain ?m)"
    and box: "inbox (sy_link s) = RecvMsg (MsgHandshake hs) # RecvMsg (MsgHeight remote)
               # map (\<lambda>b. RecvMsg (MsgBlock b)) (rev bs) @ rest"
    and oks: "send_results (sy_link s) = True # True # replicate (length bs) True @ oks"
    using assms by (auto simp: serves_branch_def)
  obtain l1 where h1: "sync_handshake X cm (current_height ?m) (sy_peers s) (sy_link s) = (l1, Inr hs)"
    and b1: "inbox l1 = RecvMsg (MsgHeight remote) # map (\<lambda>b. RecvMsg (MsgBlock b)) (rev bs) @ rest"
      "send_results l1 = True # replicate (length bs) True @ oks"
    using box oks hs by (simp add: sync_handshake_def link_send_def link_recv_wait_def link_recv_def)
  obtain l2 now1 where n1: "link_now l1 = (l2, now1)" by fastforce
  have b2: "inbox l2 = inbox l1" "send_results l2 = send_results l1" using n1 by (auto simp: link_now_def)
  obtain l3 where q: "query_height a (summary_from_chain ?m) l2 = (l3, Inr remote)"
    and b3: "inbox l3 = map (\<lambda>b. RecvMsg (MsgBlock b)) (rev bs) @ rest" "send_results l3 = replicate (length bs) True @ oks"
    using b1 b2 by (simp add: query_height_def link_send_def link_recv_def numeral_eq_Suc)
  obtain l4 now2 where n2: "link_now l3 = (l4, now2)" by fastforce
  have b4: "inbox l4 = inbox l3" "send_results l4 = send_results l3" using n2 by (auto simp: link_now_def)
  obtain l5 where fb: "fetch_branch ?m (summary_from_chain ?m) {} h [] l4 = (l5, Inr bs)"
    using fetch_served [of ?m h bs "[]" "{}" h l4 rest oks "summary_from_chain ?m"] f b3 b4
    by (auto simp: fetching_def)
  have rb: "request_branch ?m remote l4 = (l5, Inr (Some bs))"
    using need tip fb by (auto simp: request_branch_def Let_def summary_from_chain_def)
  show thesis
    by (rule that [of "s\<lparr>sy_link := l5, sy_peers := note_peer_summary a remote now2
          (note_peer_height a (hs_chain_height hs) now1 (sy_peers s))\<rparr>"])
      (use ad h1 n1 q n2 rb in \<open>auto simp: live_sync_from_peer_def Let_def
         split: outcome.split\<close>)
qed

lemma live_sync_real:
  fixes s :: "'db sync_state"
  assumes inv: "chain_inv X ht (sy_machine s)" and best: "best_inv X ht (sy_machine s)"
    and store: "store_accepts X" and honest: "\<forall>b. MsgBlock b \<in> heard (sy_link s) \<longrightarrow> honest ht b"
  shows "\<exists>s' res. live_sync_from_peer X cm a connected s = Ret (s', res)
    \<and> advances X ht (sy_machine s) (sy_machine s') \<and> best_inv X ht (sy_machine s')
    \<and> (\<forall>n. res = Inr n \<longrightarrow> (\<exists>remote. MsgHeight remote \<in> heard (sy_link s) \<and>
         (if sum_height remote > current_height (sy_machine s)
             \<or> work_ahead remote (summary_from_chain (sy_machine s))
          then \<exists>h. sum_tip remote = Some h \<and> known (sy_machine s') h \<noteq> None
             \<and> work_at (sy_machine s') h \<le> tip_work (sy_machine s')
          else sy_machine s' = sy_machine s)))"
proof (cases rule: live_sync_imports [of X cm a connected s])
  case (1 s' e)
  then show ?thesis using advances_refl [OF inv] best by auto
next
  case (2 s' remote)
  then show ?thesis using advances_refl [OF inv] best by auto
next
  case (3 s1 remote h bs)
  have hon: "\<forall>b\<in>set bs. honest ht b" using 3(5) honest by auto
  obtain m' p' res where im: "import_fetched_blocks X a bs 0 (sy_machine s) (sy_pool s) = Ret (m', p', res)"
    "advances X ht (sy_machine s) m'" "best_inv X ht m'"
    "\<forall>k. res = Inr k \<longrightarrow> (\<forall>b\<in>set bs. known m' (block_hash b) \<noteq> None)"
    using import_all_result [OF inv hon, of a 0 "sy_pool s"] store best by blast
  have tip: "known m' h \<noteq> None" if "res = Inr k" for k
    using fetched_known [OF inv 3(4) im(2)] im(4) that by blast
  have "work_at m' h \<le> tip_work m'" if "known m' h \<noteq> None" using im(3) that by (simp add: best_inv_def)
  then show ?thesis using im(1-3) tip 3(1-3,6) by (intro exI conjI) auto
qed

lemma served_adopted:
  assumes inv: "chain_inv X ht (sy_machine s)" and honest: "\<forall>b. MsgBlock b \<in> heard (sy_link s) \<longrightarrow> honest ht b"
    and sv: "serves_branch X cm a connected s h bs" "accepts_all X a bs (sy_machine s)"
    and r: "live_sync_from_peer X cm a connected s = Ret (s', res)"
  shows "(\<exists>n\<le>length bs. res = Inr n) \<and> known (sy_machine s') h \<noteq> None"
proof -
  obtain m' p' k where im: "import_fetched_blocks X a bs 0 (sy_machine s) (sy_pool s) = Ret (m', p', Inr k)" "k \<le> length bs"
    using accepts_all_imports [OF sv(2), of 0 "sy_pool s"] by auto
  obtain s1 where "live_sync_from_peer X cm a connected s = Ret (s1\<lparr>sy_machine := m', sy_pool := p'\<rparr>, Inr k)"
    using serves_imports [OF sv(1)] im(1) by (metis case_prod_conv outcome.simps(8))
  then have res: "res = Inr k" "sy_machine s' = m'" using r by auto
  have "MsgBlock b \<in> heard (sy_link s)" if "b \<in> set bs" for b
    using sv(1) that by (auto simp: serves_branch_def heard_def)
  then have hon: "\<forall>b\<in>set bs. honest ht b" using honest by blast
  have "advances X ht (sy_machine s) m' \<and> (\<forall>b\<in>set bs. known m' (block_hash b) \<noteq> None)"
    using import_all_result [OF inv hon, of a 0 "sy_pool s"] im(1) by auto
  then have "known m' h \<noteq> None"
    using fetched_known [OF inv, of h bs m'] sv(1) by (auto simp: serves_branch_def)
  then show ?thesis using res im(2) by auto
qed

lemma heaviest_is_tip:
  assumes "best_inv X ht m" "known m h \<noteq> None"
    and "\<forall>k. k \<noteq> h \<and> known m k \<noteq> None \<longrightarrow> work_at m k < work_at m h"
  shows "tip_hash m = h"
proof (rule ccontr)
  assume "tip_hash m \<noteq> h"
  moreover have "known m (tip_hash m) \<noteq> None"
  proof -
    have inv: "chain_inv X ht m" using assms(1) by (simp add: best_inv_def)
    then have "blocks m \<noteq> []" by (auto simp: chain_inv_def linked_def)
    then show ?thesis using known_canonical [of "last (blocks m)" m] inv
      by (simp add: tip_hash_last chain_inv_def)
  qed
  ultimately have "work_at m (tip_hash m) < work_at m h" using assms(3) by blast
  moreover have "work_at m h \<le> tip_work m" using assms(1,2) by (simp add: best_inv_def)
  ultimately show False by (simp add: tip_work_def)
qed


definition claiming_link :: link where
  "claiming_link =
     \<lparr>inbox = [RecvMsg (MsgHandshake (handshake_new ref_ext 9 8)),
                RecvMsg (MsgHeight \<lparr>sum_height = 9, sum_tip = Some ''orphan'', sum_work = - 1\<rparr>),
                RecvMsg (MsgBlock orphan_block)],
      send_results = [True, True, True, True], sent = [], instants = (\<lambda>_. 0), iticks = 0\<rparr>"

definition sync_demo :: "ref_db sync_state" where
  "sync_demo = \<lparr>sy_machine = demo_state, sy_peers = [], sy_pool = None, sy_link = claiming_link\<rparr>"

definition demo_conn :: conn_manager where
  "demo_conn = \<lparr>listen_addr = SocketV4 (IpV4 0 0 0 0) 7072, local_node_nonce = 7,
     cm_advertised_ip = None, cm_advertised_port = None, cm_allow_private = False\<rparr>"

text \<open>A peer that claims more height under a tip the node has.\<close>

definition serving_link :: link where
  "serving_link =
     \<lparr>inbox = [RecvMsg (MsgHandshake (handshake_new ref_ext 9 8)),
                RecvMsg (MsgHeight \<lparr>sum_height = 9, sum_tip = Some GENESIS_HASH, sum_work = - 1\<rparr>)],
      send_results = [True, True], sent = [], instants = (\<lambda>_. 0), iticks = 0\<rparr>"


end
