(* ===== verification/Claim_Props.thy ===== *)
theory Claim_Props
  imports Sync_Props Connection_Props Peer_Props
begin

text \<open>
  What an unverified claim of a peer does: the composition of the inbound handler, the peer registry,
  the watchdog, the recovery state and the mining round.
\<close>

section \<open>The highest height\<close>

lemma best_remote_height_bound:
  assumes "\<forall>p\<in>set ps. height p \<le> h"
  shows "best_remote_height now ps \<le> h"
proof (cases "max_by cmp_of (map height (filter (live now) ps))")
  case None
  then show ?thesis by (simp add: best_remote_height_def)
next
  case (Some k)
  then have "k \<in> height ` set (filter (live now) ps)" using heights.max_by_SomeD(1) [OF Some] by simp
  then show ?thesis using assms Some by (auto simp: best_remote_height_def)
qed

lemma no_lag:
  assumes "\<forall>p\<in>set (registry_values r). height p \<le> sum_height local_s"
  shows "should_sync_for_summary clk r local_s = work_decision (clk 2) r local_s"
proof -
  have "saturating_sub (best_remote_height (clk 0) (registry_values r)) (sum_height local_s) = 0"
    using best_remote_height_bound [OF assms, of "clk 0"] by (simp add: saturating_sub_def)
  then show ?thesis by (simp add: should_sync_for_summary_def Let_def SYNC_LAG_THRESHOLD_def)
qed

section \<open>A claim that cannot be checked\<close>

text \<open>Who is chosen when one peer claims more than all others.\<close>

lemma claimant_chosen:
  assumes ok: "registry_ok r" and k: "bt_lookup r k = Some p" "ahead now t w p"
    and top: "\<And>b q. bt_lookup r b = Some q \<Longrightarrow> b \<noteq> k \<Longrightarrow> peer_work q < peer_work p"
  shows "best_work_sync_target now t w (registry_values r) = Some k"
proof -
  have tie: "addr a = addr b" if "by_work a b \<noteq> GreaterThan" "by_work b a \<noteq> GreaterThan" for a b
    using that by (auto simp: by_work_iff)
  have "by_work q p \<noteq> GreaterThan" if "bt_lookup r b = Some q" for b q
  proof (cases "b = k")
    case True
    then show ?thesis using that k(1) by_work.cmp_refl by simp
  next
    case False
    then show ?thesis using top [OF that] by (simp add: by_work_iff)
  qed
  moreover have "best_work_sync_target now t w (registry_values r) = Some k \<longleftrightarrow>
      (\<exists>p. bt_lookup r k = Some p \<and> ahead now t w p
         \<and> (\<forall>b q. bt_lookup r b = Some q \<longrightarrow> ahead now t w q \<longrightarrow> by_work q p \<noteq> GreaterThan))"
    unfolding best_work_sync_target_def
    by (rule select_greatest [OF ok refl by_work.total_compare_axioms tie])
  ultimately show ?thesis using k by blast
qed

text \<open>The attempt on a peer that cannot be reached changes nothing and fails with an error the recovery
  logic takes for a high risk.\<close>

lemma unreachable_sync:
  assumes "parse_socket_addr a = None \<or> \<not> connected"
  shows "\<exists>e. live_sync_from_peer X cm a connected s = Ret (s, Inl e)
    \<and> \<not> contains_str ''sync import rejected'' (sync_error_text e)"
  using assms by (auto simp: live_sync_from_peer_def sync_error_text_def)

text \<open>What the watchdog does with a claim of more work that it cannot follow up.\<close>

lemma watchdog_unreachable:
  assumes free: "\<not> is_blocked (clk 0) guard"
    and dec: "should_sync_for_summary (\<lambda>i. clk (i + 1)) (sy_peers s) (summary_from_chain (sy_machine s)) = HigherWork a w lw"
    and sm: "peer_summary (sy_peers s) a = Some remote"
    and un: "parse_socket_addr a = None \<or> \<not> connected"
  shows "\<exists>rec' e. watchdog_step X cm clk connected s guard (Some rec)
      = Ret (s, mark_done (clk 5) (mark_started guard), Some (Some rec'), Inl e)
    \<and> rc_mode rec' = HighRiskFork \<and> rc_peer rec' = a \<and> rc_remote rec' = remote"
proof -
  obtain e where e: "live_sync_from_peer X cm a connected s = Ret (s, Inl e)"
    "\<not> contains_str ''sync import rejected'' (sync_error_text e)"
    using unreachable_sync [OF un] by blast
  show ?thesis
    using free dec sm e
    by (simp add: watchdog_step_def Let_def settle_recovery_def begin_higher_work_recovery_def mark_high_risk_def)
qed

section \<open>Rounds of the watchdog\<close>

text \<open>Further steps of the watchdog, each with its clock, whether a dial would connect, and the chain
  state it finds.\<close>

fun watchdog_rounds ::
  "('db, 'x) ext_scheme \<Rightarrow> conn_manager \<Rightarrow> ((nat \<Rightarrow> instant) \<times> bool \<times> 'db machine) list \<Rightarrow> 'db sync_state
     \<Rightarrow> sync_guard \<Rightarrow> recovery_state option \<Rightarrow> ('db sync_state \<times> sync_guard \<times> recovery_state option) outcome" where
  "watchdog_rounds X cm [] s guard rec = Ret (s, guard, rec)"
| "watchdog_rounds X cm ((clk, connected, g) # is) s guard rec =
     (case watchdog_step X cm clk connected (s\<lparr>sy_machine := g\<rparr>) guard rec of
        Panic \<Rightarrow> Panic
      | OutOfFuel \<Rightarrow> OutOfFuel
      | Ret (s1, guard1, rec1, _) \<Rightarrow> watchdog_rounds X cm is s1 guard1 rec1)"

text \<open>A round in which no peer but \<open>k\<close> is ahead of the chain, and \<open>k\<close> cannot be dialled.\<close>

definition alone_ahead :: "string \<Rightarrow> peer_registry \<Rightarrow> (nat \<Rightarrow> instant) \<times> bool \<times> 'db machine \<Rightarrow> bool" where
  "alone_ahead k r i \<longleftrightarrow> (case i of (clk, connected, g) \<Rightarrow>
     (parse_socket_addr k = None \<or> \<not> connected)
     \<and> (\<forall>b q. bt_lookup r b = Some q \<and> b \<noteq> k \<longrightarrow>
          peer_work q \<le> sum_work (summary_from_chain g) \<and> height q \<le> current_height g))"

lemma alone_decision:
  assumes ok: "registry_ok r" and k: "bt_lookup r k = Some p" "height p = 0"
    and al: "alone_ahead k r (clk0, connected, g)"
  shows "should_sync_for_summary clk r (summary_from_chain g) = Synced
    \<or> (\<exists>w lw. should_sync_for_summary clk r (summary_from_chain g) = HigherWork k w lw)"
proof -
  let ?l = "summary_from_chain g"
  have hts: "\<forall>q\<in>set (registry_values r). height q \<le> sum_height ?l"
  proof
    fix q assume "q \<in> set (registry_values r)"
    then have q: "bt_lookup r (addr q) = Some q" using value_lookup [OF ok refl] by simp
    then show "height q \<le> sum_height ?l"
      using k al by (cases "addr q = k") (auto simp: alone_ahead_def summary_from_chain_def)
  qed
  have only: "b = k" if best: "best_work_sync_target now t (sum_work ?l) (registry_values r) = Some b" for now t b
  proof (rule ccontr)
    assume "b \<noteq> k"
    have tie: "addr u = addr v" if "by_work u v \<noteq> GreaterThan" "by_work v u \<noteq> GreaterThan" for u v
      using that by (auto simp: by_work_iff)
    have "best_work_sync_target now t (sum_work ?l) (registry_values r) = Some b \<longleftrightarrow>
        (\<exists>p. bt_lookup r b = Some p \<and> ahead now t (sum_work ?l) p
           \<and> (\<forall>c q. bt_lookup r c = Some q \<longrightarrow> ahead now t (sum_work ?l) q \<longrightarrow> by_work q p \<noteq> GreaterThan))"
      unfolding best_work_sync_target_def
      by (rule select_greatest [OF ok refl by_work.total_compare_axioms tie])
    then obtain q where q: "bt_lookup r b = Some q" "ahead now t (sum_work ?l) q" using best by blast
    then show False using al \<open>b \<noteq> k\<close> by (auto simp: alone_ahead_def ahead_def not_less [symmetric])
  qed
  show ?thesis
    using only unfolding no_lag [OF hts] work_decision_def
    by (auto split: option.split)
qed

lemma watchdog_alone:
  assumes ok: "registry_ok (sy_peers s)" and k: "bt_lookup (sy_peers s) k = Some p" "height p = 0" "peer_work p = w"
    and al: "alone_ahead k (sy_peers s) (clk, connected, sy_machine s)" and c: "sum_work (rc_remote c) = w"
  shows "\<exists>guard' c' res. watchdog_step X cm clk connected s guard (Some (Some c)) = Ret (s, guard', Some (Some c'), res)
    \<and> sum_work (rc_remote c') = w"
proof (cases "is_blocked (clk 0) guard")
  case True
  then show ?thesis using c by (simp add: watchdog_step_def)
next
  case free: False
  from alone_decision [OF ok k(1,2) al, of "\<lambda>i. clk (i + 1)"] show ?thesis
  proof
    assume "should_sync_for_summary (\<lambda>i. clk (i + 1)) (sy_peers s) (summary_from_chain (sy_machine s)) = Synced"
    then show ?thesis using free c by (simp add: watchdog_step_def Let_def)
  next
    assume "\<exists>v lw. should_sync_for_summary (\<lambda>i. clk (i + 1)) (sy_peers s) (summary_from_chain (sy_machine s)) = HigherWork k v lw"
    then obtain v lw where dec: "should_sync_for_summary (\<lambda>i. clk (i + 1)) (sy_peers s) (summary_from_chain (sy_machine s))
        = HigherWork k v lw" by blast
    have sm: "peer_summary (sy_peers s) k = Some (peer_summary_of p)" using k(1) by (simp add: peer_summary_def)
    have un: "parse_socket_addr k = None \<or> \<not> connected" using al by (simp add: alone_ahead_def)
    obtain c' e where "watchdog_step X cm clk connected s guard (Some (Some c))
        = Ret (s, mark_done (clk 5) (mark_started guard), Some (Some c'), Inl e)" "rc_remote c' = peer_summary_of p"
      using watchdog_unreachable [OF free dec sm un, of X cm "Some c"] by blast
    then show ?thesis using k(3) by (auto simp: peer_summary_of_def)
  qed
qed

lemma watchdog_rounds_alone:
  assumes ok: "registry_ok r" and k: "bt_lookup r k = Some p" "height p = 0" "peer_work p = w"
  shows "\<forall>i\<in>set is. alone_ahead k r i \<Longrightarrow> sy_peers s = r \<Longrightarrow> sum_work (rc_remote c) = w \<Longrightarrow>
    \<exists>s2 guard2 c2. watchdog_rounds X cm is s guard (Some (Some c)) = Ret (s2, guard2, Some (Some c2))
      \<and> sum_work (rc_remote c2) = w"
proof (induction "is" arbitrary: s guard c)
  case Nil
  then show ?case by simp
next
  case (Cons i "is")
  obtain clk connected g where i: "i = (clk, connected, g)" by (cases i)
  let ?s = "s\<lparr>sy_machine := g\<rparr>"
  have r: "sy_peers ?s = r" using Cons.prems(2) by simp
  obtain guard' c' res where step: "watchdog_step X cm clk connected ?s guard (Some (Some c)) = Ret (?s, guard', Some (Some c'), res)"
    "sum_work (rc_remote c') = w"
    using watchdog_alone [where s = ?s and k = k and p = p and w = w and clk = clk and connected = connected
        and c = c and X = X and cm = cm and guard = guard] ok k Cons.prems r i
    by auto
  show ?case using Cons.IH [of ?s c' guard'] Cons.prems(1) r step by (simp add: i)
qed

lemma claim_recorded:
  assumes "in_handshake_done s" "in_active s = Some (k, gen)"
  obtains now s' where "in_now s = (s', now)"
    "inbound_message X cm g obs (MsgHeight claim) s =
       (s'\<lparr>in_peers := note_peer_summary k claim now (in_peers s)\<rparr>, True)"
proof -
  obtain s' now where n: "in_now s = (s', now)" by fastforce
  then have "in_peers s' = in_peers s" by (rule in_now_frame(3))
  then show thesis using assms n
    by (intro that [OF n]) (simp add: inbound_message_def is_pre_handshake_def)
qed

text \<open>C35: one message can stop a node from mining without limit of time. A peer that has passed the
  handshake sends a summary that claims the greatest representable work under an unknown tip; nothing
  of it is checked. If its address is a host name, or it does not accept the node's connection, the
  next step of the watchdog leaves a recovery claim behind, every mining round is paused by it, and it
  is not lifted by any local chain of less work, which is every chain but one. However many further
  rounds the watchdog makes, at whatever times and on whatever chain, also long after the summary has
  gone stale, the claim is still there and mining is still paused, as long as the peer stays
  undiallable and no other peer is known to be ahead of the chain. (The watchdog does replace the claim
  when it follows another peer that is ahead, and then may clear it.)\<close>

theorem unverified_claim_pauses_mining:
  assumes act: "in_handshake_done s" "in_active s = Some (k, gen)"
    and reg: "registry_reached (in_peers s)" "bt_lookup (in_peers s) k = Some p" "state p = Connected"
    and poll: "last_height_poll_sent_at p = None"
    and others: "\<forall>q\<in>set (registry_values (in_peers s)). peer_work q < - 1 \<and> height q \<le> current_height g"
    and loc: "blocks g \<noteq> []" "tip_hash g \<noteq> t" "sum_work (summary_from_chain g) < - 1"
    and now: "elapsed_secs (clk 3) (instants (in_link s) (iticks (in_link s))) < PEER_HEIGHT_STALE_SECS"
    and free: "\<not> is_blocked (clk 0) guard"
    and un: "parse_socket_addr k = None \<or> \<not> connected"
  shows "\<exists>s' guard' rec' e.
    inbound_message X cm g obs (MsgHeight \<lparr>sum_height = 0, sum_tip = Some t, sum_work = - 1\<rparr>) s = (s', True)
    \<and> watchdog_step X cm clk connected \<lparr>sy_machine = g, sy_peers = in_peers s', sy_pool = Some pool, sy_link = l\<rparr>
         guard (Some rec) = Ret (\<lparr>sy_machine = g, sy_peers = in_peers s', sy_pool = Some pool, sy_link = l\<rparr>,
           guard', Some rec', Inl e)
    \<and> mining_round_start X a n (should_pause_mining rec') pool g mm = Ret (g, clear_job mm, RoundPaused)
    \<and> (\<forall>s2. sum_work s2 < - 1 \<longrightarrow> clear_if_local_satisfies_claim s2 rec' = (rec', False))
    \<and> (\<forall>is. (\<forall>i\<in>set is. alone_ahead k (in_peers s) i) \<longrightarrow>
         (\<exists>s2 guard2 rec2. watchdog_rounds X cm is
             \<lparr>sy_machine = g, sy_peers = in_peers s', sy_pool = Some pool, sy_link = l\<rparr> guard' (Some rec')
             = Ret (s2, guard2, Some rec2)
           \<and> mining_round_start X a n (should_pause_mining rec2) pool (sy_machine s2) mm
               = Ret (sy_machine s2, clear_job mm, RoundPaused)
           \<and> (\<forall>s3. sum_work s3 < - 1 \<longrightarrow> clear_if_local_satisfies_claim s3 rec2 = (rec2, False))))"
proof -
  let ?c = "\<lparr>sum_height = 0, sum_tip = Some t, sum_work = - 1\<rparr> :: chain_summary"
  obtain now0 s0 where n: "in_now s = (s0, now0)"
    and m: "inbound_message X cm g obs (MsgHeight ?c) s = (s0\<lparr>in_peers := note_peer_summary k ?c now0 (in_peers s)\<rparr>, True)"
    by (rule claim_recorded [OF act])
  let ?r = "note_peer_summary k ?c now0 (in_peers s)"
  let ?loc = "summary_from_chain g"
  have n0: "now0 = instants (in_link s) (iticks (in_link s))"
    using n by (auto simp: in_now_def link_now_def)
  have ok0: "registry_ok (in_peers s)" using reg(1) by (rule registry_reached_ok)
  have ok: "registry_ok ?r" using ok0 unfolding note_peer_summary_def by (rule registry_ok_note_summary)
  have val: "q \<in> set (registry_values (in_peers s))" if "bt_lookup (in_peers s) b = Some q" for b q
    using lookup_value(1) [OF ok0 refl that] .
  have w: "peer_work p < - 1" using others val [OF reg(2)] by blast
  obtain p' where p': "bt_lookup ?r k = Some p'" "state p' = Connected" "peer_work p' = - 1" "height p' = 0"
    "peer_tip p' = Some t" "last_height_poll_sent_at p' = None" "last_height_updated_at p' = Some now0"
    using reg(2,3) poll w
    by (simp add: note_peer_summary_def note_peer_summary_from_def lookup_modify should_update_def Let_def)
  have other: "bt_lookup ?r b = bt_lookup (in_peers s) b" if "b \<noteq> k" for b
    using that by (simp add: note_peer_summary_def note_peer_summary_from_def lookup_modify)
  have hts: "\<forall>q\<in>set (registry_values ?r). height q \<le> sum_height ?loc"
  proof
    fix q assume "q \<in> set (registry_values ?r)"
    then have q: "bt_lookup ?r (addr q) = Some q" using value_lookup [OF ok refl] by simp
    show "height q \<le> sum_height ?loc"
    proof (cases "addr q = k")
      case True
      then show ?thesis using q p' by simp
    next
      case False
      then show ?thesis using q other others val by (auto simp: summary_from_chain_def)
    qed
  qed
  have ah: "ahead (clk 3) (tip_hash g) (sum_work ?loc) p'"
    using p' loc now by (simp add: ahead_def live_def is_height_fresh_def is_height_poll_stalled_def n0)
  have ch: "best_work_sync_target (clk 3) (tip_hash g) (sum_work ?loc) (registry_values ?r) = Some k"
    by (rule claimant_chosen [OF ok p'(1) ah]) (use p'(3) other others val in auto)
  have ps: "peer_summary ?r k = Some (peer_summary_of p')" using p'(1) by (simp add: peer_summary_def)
  have tl: "sum_tip ?loc = Some (tip_hash g)" using loc(1) by (simp add: summary_from_chain_def)
  have dec: "should_sync_for_summary (\<lambda>i. clk (i + 1)) ?r ?loc = HigherWork k (- 1) (sum_work ?loc)"
    using no_lag [OF hts, of "\<lambda>i. clk (i + 1)"] ch ps tl p'(3)
    by (simp add: work_decision_def peer_summary_of_def)
  let ?s = "\<lparr>sy_machine = g, sy_peers = ?r, sy_pool = Some pool, sy_link = l\<rparr>"
  have "\<exists>rec' e. watchdog_step X cm clk connected ?s guard (Some rec)
      = Ret (?s, mark_done (clk 5) (mark_started guard), Some (Some rec'), Inl e)
    \<and> rc_mode rec' = HighRiskFork \<and> rc_peer rec' = k \<and> rc_remote rec' = peer_summary_of p'"
    by (rule watchdog_unreachable [where w = "- 1" and lw = "sum_work ?loc"]) (use free dec ps un in simp_all)
  then obtain rec' e where wd: "watchdog_step X cm clk connected ?s guard (Some rec)
      = Ret (?s, mark_done (clk 5) (mark_started guard), Some (Some rec'), Inl e)" "rc_remote rec' = peer_summary_of p'"
    by blast
  have paused: "mining_round_start X a n (should_pause_mining (Some c)) pool g2 mm = Ret (g2, clear_job mm, RoundPaused)"
    for c and g2 :: "'a machine"
    by (simp add: mining_round_start_def should_pause_mining_def)
  have kept: "clear_if_local_satisfies_claim s2 (Some c) = (Some c, False)"
    if "sum_work s2 < - 1" "sum_work (rc_remote c) = - 1" for s2 c
    using that by (simp add: clear_if_local_satisfies_claim_def Let_def not_le)
  have rem: "sum_work (rc_remote rec') = - 1" using wd(2) p'(3) by (simp add: peer_summary_of_def)
  have rounds: "\<exists>s2 guard2 rec2. watchdog_rounds X cm is ?s (mark_done (clk 5) (mark_started guard)) (Some (Some rec'))
        = Ret (s2, guard2, Some rec2)
      \<and> mining_round_start X a n (should_pause_mining rec2) pool (sy_machine s2) mm
          = Ret (sy_machine s2, clear_job mm, RoundPaused)
      \<and> (\<forall>s3. sum_work s3 < - 1 \<longrightarrow> clear_if_local_satisfies_claim s3 rec2 = (rec2, False))"
    if al: "\<forall>i\<in>set is. alone_ahead k (in_peers s) i" for "is"
  proof -
    have "\<forall>i\<in>set is. alone_ahead k ?r i" using al other by (auto simp: alone_ahead_def)
    then obtain s2 guard2 c2 where "watchdog_rounds X cm is ?s (mark_done (clk 5) (mark_started guard)) (Some (Some rec'))
        = Ret (s2, guard2, Some (Some c2))" "sum_work (rc_remote c2) = - 1"
      using watchdog_rounds_alone [OF ok p'(1,4,3), of "is" ?s rec' X cm "mark_done (clk 5) (mark_started guard)"] rem
      by auto
    then show ?thesis using paused kept by blast
  qed
  show ?thesis using m wd(1) paused kept [OF _ rem] rounds
    by (intro exI [of _ "s0\<lparr>in_peers := ?r\<rparr>"] exI [of _ "mark_done (clk 5) (mark_started guard)"]
        exI [of _ "Some rec'"] exI [of _ e]) simp
qed

definition claimant :: inbound_state where
  "claimant = (inbound_start early_link (connect_session ''peer.example:7072'' 1
       (upsert ''peer.example:7072'' False [])) sessions_new NoImporter False)
     \<lparr>in_handshake_done := True, in_active := Some (''peer.example:7072'', 1)\<rparr>"

theorem unverified_claim_pauses_mining_witness:
  "\<exists>s' guard' rec' e.
    inbound_message light_ext demo_conn demo_state ''p''
      (MsgHeight \<lparr>sum_height = 0, sum_tip = Some ''x'', sum_work = - 1\<rparr>) claimant = (s', True)
    \<and> watchdog_step light_ext demo_conn (\<lambda>_. 0) True
        \<lparr>sy_machine = demo_state, sy_peers = in_peers s', sy_pool = Some pool_new, sy_link = early_link\<rparr>
        guard_new (Some recovery_new)
      = Ret (\<lparr>sy_machine = demo_state, sy_peers = in_peers s', sy_pool = Some pool_new, sy_link = early_link\<rparr>,
          guard', Some rec', Inl e)
    \<and> clear_if_local_satisfies_claim (summary_from_chain demo_state) rec' = (rec', False)
    \<and> (\<exists>s2 guard2 rec2. watchdog_rounds light_ext demo_conn
          [(\<lambda>_. 0, True, demo_state), (\<lambda>_. 900000000000000, True, demo_state)]
          \<lparr>sy_machine = demo_state, sy_peers = in_peers s', sy_pool = Some pool_new, sy_link = early_link\<rparr>
          guard' (Some rec') = Ret (s2, guard2, Some rec2)
        \<and> clear_if_local_satisfies_claim (summary_from_chain demo_state) rec2 = (rec2, False))"
proof -
  let ?is = "[(\<lambda>_. 0, True, demo_state), (\<lambda>_. 900000000000000, True, demo_state)]
     :: ((nat \<Rightarrow> instant) \<times> bool \<times> ref_db machine) list"
  let ?r = "connect_session ''peer.example:7072'' 1 (upsert ''peer.example:7072'' False [])"
  let ?p = "(peer_new ''peer.example:7072'' False)\<lparr>connection_generation := 1, state := Connected\<rparr>"
  have r: "?r = [(''peer.example:7072'', ?p)]"
    by (simp add: connect_session_def upsert_def modify_peer_def bt_lookup_def peer_new_def)
  have reached: "registry_reached ?r"
    by (intro reg_step [OF _ registry_step.intros(4)] reg_step [OF _ registry_step.intros(1)] reg_start)
  have host: "parse_socket_addr ''peer.example:7072'' = None" by code_simp
  have one: "(1 :: u128) < - 1" "(0 :: u128) < - 1" by code_simp+
  have w: "sum_work (summary_from_chain demo_state) < - 1"
    by (simp add: summary_from_chain_def demo_state_def genesis_machine_def push_canonical_def tip_hash_def one)
  have tip: "tip_hash demo_state \<noteq> ''x''" by (simp add: tip_hash_def GENESIS_HASH_def)
  have fresh: "elapsed_secs 0 0 < PEER_HEIGHT_STALE_SECS" by (simp add: elapsed_secs_def PEER_HEIGHT_STALE_SECS_def)
  have peers: "in_peers claimant = ?r" "in_link claimant = early_link" "in_handshake_done claimant"
    "in_active claimant = Some (''peer.example:7072'', 1)"
    by (simp_all add: claimant_def inbound_start_def)
  have "\<exists>s' guard' rec' e.
    inbound_message light_ext demo_conn demo_state ''p''
      (MsgHeight \<lparr>sum_height = 0, sum_tip = Some ''x'', sum_work = - 1\<rparr>) claimant = (s', True)
    \<and> watchdog_step light_ext demo_conn (\<lambda>_. 0) True
        \<lparr>sy_machine = demo_state, sy_peers = in_peers s', sy_pool = Some pool_new, sy_link = early_link\<rparr>
        guard_new (Some recovery_new)
      = Ret (\<lparr>sy_machine = demo_state, sy_peers = in_peers s', sy_pool = Some pool_new, sy_link = early_link\<rparr>,
          guard', Some rec', Inl e)
    \<and> mining_round_start light_ext [] 0 (should_pause_mining rec') pool_new demo_state (miner_manager_new VISIONX_PARAMS 0 0)
       = Ret (demo_state, clear_job (miner_manager_new VISIONX_PARAMS 0 0), RoundPaused)
    \<and> (\<forall>s2. sum_work s2 < - 1 \<longrightarrow> clear_if_local_satisfies_claim s2 rec' = (rec', False))
    \<and> (\<forall>is. (\<forall>i\<in>set is. alone_ahead ''peer.example:7072'' (in_peers claimant) i) \<longrightarrow>
         (\<exists>s2 guard2 rec2. watchdog_rounds light_ext demo_conn is
             \<lparr>sy_machine = demo_state, sy_peers = in_peers s', sy_pool = Some pool_new, sy_link = early_link\<rparr> guard' (Some rec')
             = Ret (s2, guard2, Some rec2)
           \<and> mining_round_start light_ext [] 0 (should_pause_mining rec2) pool_new (sy_machine s2) (miner_manager_new VISIONX_PARAMS 0 0)
               = Ret (sy_machine s2, clear_job (miner_manager_new VISIONX_PARAMS 0 0), RoundPaused)
           \<and> (\<forall>s3. sum_work s3 < - 1 \<longrightarrow> clear_if_local_satisfies_claim s3 rec2 = (rec2, False))))"
    by (rule unverified_claim_pauses_mining [where p = ?p])
      (use reached host w tip fresh one in \<open>simp_all add: peers r registry_values_def peer_new_def bt_lookup_def
        early_link_def is_blocked_def guard_new_def is_throttled_def\<close>)
  then obtain s' guard' rec' e where
    "inbound_message light_ext demo_conn demo_state ''p''
      (MsgHeight \<lparr>sum_height = 0, sum_tip = Some ''x'', sum_work = - 1\<rparr>) claimant = (s', True)"
    "watchdog_step light_ext demo_conn (\<lambda>_. 0) True
        \<lparr>sy_machine = demo_state, sy_peers = in_peers s', sy_pool = Some pool_new, sy_link = early_link\<rparr>
        guard_new (Some recovery_new)
      = Ret (\<lparr>sy_machine = demo_state, sy_peers = in_peers s', sy_pool = Some pool_new, sy_link = early_link\<rparr>,
          guard', Some rec', Inl e)"
    and nc: "\<forall>s2. sum_work s2 < - 1 \<longrightarrow> clear_if_local_satisfies_claim s2 rec' = (rec', False)"
    and rounds: "\<And>is. \<forall>i\<in>set is. alone_ahead ''peer.example:7072'' (in_peers claimant) i \<Longrightarrow>
         \<exists>s2 guard2 rec2. watchdog_rounds light_ext demo_conn is
             \<lparr>sy_machine = demo_state, sy_peers = in_peers s', sy_pool = Some pool_new, sy_link = early_link\<rparr> guard' (Some rec')
             = Ret (s2, guard2, Some rec2)
           \<and> (\<forall>s3. sum_work s3 < - 1 \<longrightarrow> clear_if_local_satisfies_claim s3 rec2 = (rec2, False))"
    by (elim exE conjE) (rule that, assumption, assumption, assumption, blast)
  moreover have "\<forall>i\<in>set ?is. alone_ahead ''peer.example:7072'' (in_peers claimant) i"
    using host by (simp add: alone_ahead_def peers r bt_lookup_def)
  ultimately show ?thesis using w by blast
qed

end
