(* ===== verification/Bootstrap.thy ===== *)
theory Bootstrap
  imports Accept
begin

text \<open>
  \<open>node/bootstrap.rs\<close>: what happens to the chain between opening the database and starting the
  services. The genesis block is written or verified, the newest valid snapshot is restored and the
  stored tail replayed over it, or the whole chain rebuilt from genesis when no snapshot is valid.
  Replay goes through the acceptance pipeline, which writes to the same store. The checks of the data
  directory are file-system calls and are not modelled; the handle \<open>sled::open\<close> returns is an
  argument.
\<close>

datatype startup_error =
    StartupOpen storage_error
  | StartupGenesisHash
  | StartupStoredGenesis string
  | StartupStorage storage_error
  | StartupWriteFailed
  | StartupMissingTip
  | StartupBadTip
  | StartupMissingIndex u64
  | StartupMissingBlock string u64
  | StartupHeightMismatch u64 u64
  | StartupRejected u64 string accept_result

section \<open>Genesis\<close>

definition bootstrap_chain ::
  "('db, 'x) ext_scheme \<Rightarrow> ('db, 'm) chain_state_scheme
     \<Rightarrow> ('db, 'm) chain_state_scheme \<times> (startup_error + unit)" where
  "bootstrap_chain X g =
     (if \<not> validate_genesis_hash X then (g, Inl StartupGenesisHash)
      else (case load_meta X g ''genesis_hash'' of
          Inl e \<Rightarrow> (g, Inl (StartupStorage e))
        | Inr (Some stored_hash) \<Rightarrow>
            (g, if verify_stored_genesis stored_hash then Inr () else Inl (StartupStoredGenesis stored_hash))
        | Inr None \<Rightarrow>
           (case store_block X genesis_block g of
              (g1, False) \<Rightarrow> (g1, Inl StartupWriteFailed)
            | (g1, True) \<Rightarrow>
               (case store_height_index X 0 (block_hash genesis_block) g1 of
                  (g2, False) \<Rightarrow> (g2, Inl StartupWriteFailed)
                | (g2, True) \<Rightarrow>
                   (case store_meta X ''genesis_hash'' (block_hash genesis_block) g2 of
                      (g3, False) \<Rightarrow> (g3, Inl StartupWriteFailed)
                    | (g3, True) \<Rightarrow>
                        (g3\<lparr>blocks := blocks g3 @ [genesis_block],
                            canon_index := (canon_index g3)(block_hash genesis_block \<mapsto> 0)\<rparr>, Inr ()))))))"

section \<open>Replay\<close>

definition load_tip_height ::
  "('db, 'x) ext_scheme \<Rightarrow> ('db, 'm) chain_state_scheme \<Rightarrow> startup_error + u64" where
  "load_tip_height X g =
     (case load_meta X g ''tip_height'' of
        Inl e \<Rightarrow> Inl (StartupStorage e)
      | Inr None \<Rightarrow> Inl StartupMissingTip
      | Inr (Some s) \<Rightarrow> (case parse_u64 s of None \<Rightarrow> Inl StartupBadTip | Some h \<Rightarrow> Inr h))"

definition load_indexed ::
  "('db, 'x) ext_scheme \<Rightarrow> u64 \<Rightarrow> ('db, 'm) chain_state_scheme \<Rightarrow> startup_error + string \<times> block" where
  "load_indexed X h g =
     (case load_height_index X g h of
        Inl e \<Rightarrow> Inl (StartupStorage e)
      | Inr None \<Rightarrow> Inl (StartupMissingIndex h)
      | Inr (Some hash) \<Rightarrow>
          (case load_block X g hash of
             Inl e \<Rightarrow> Inl (StartupStorage e)
           | Inr None \<Rightarrow> Inl (StartupMissingBlock hash h)
           | Inr (Some b) \<Rightarrow>
               if number (header b) \<noteq> h then Inl (StartupHeightMismatch h (number (header b)))
               else Inr (hash, b)))"

text \<open>One block of a replay: accepted on the tip at its own height, or the start-up fails.\<close>

definition replay_stored ::
  "('db, 'x) ext_scheme \<Rightarrow> u64 \<Rightarrow> string \<Rightarrow> block \<Rightarrow> 'db machine \<Rightarrow> ('db machine \<times> (startup_error + unit)) outcome" where
  "replay_stored X h hash b m =
     (case apply_block X b None m of
        Panic \<Rightarrow> Panic
      | OutOfFuel \<Rightarrow> OutOfFuel
      | Ret (m1, CanonExtension applied) \<Rightarrow>
          if applied = h then Ret (refresh_cached_state_root_from_tip m1, Inr ())
          else Ret (m1, Inl (StartupRejected h hash (CanonExtension applied)))
      | Ret (m1, r) \<Rightarrow> Ret (m1, Inl (StartupRejected h hash r)))"

fun replay_tail ::
  "('db, 'x) ext_scheme \<Rightarrow> u64 list \<Rightarrow> 'db machine \<Rightarrow> ('db machine \<times> (startup_error + unit)) outcome" where
  "replay_tail X [] m = Ret (m, Inr ())"
| "replay_tail X (h # hs) m =
     (case load_indexed X h m of
        Inl e \<Rightarrow> Ret (m, Inl e)
      | Inr (hash, b) \<Rightarrow>
          (case replay_stored X h hash b m of
             Panic \<Rightarrow> Panic
           | OutOfFuel \<Rightarrow> OutOfFuel
           | Ret (m1, Inl e) \<Rightarrow> Ret (m1, Inl e)
           | Ret (m1, Inr _) \<Rightarrow> replay_tail X hs m1))"

definition heights_between :: "u64 \<Rightarrow> u64 \<Rightarrow> u64 list" where
  "heights_between lo hi = map word_of_nat [unat lo..<Suc (unat hi)]"

definition replay_stored_canonical_tail ::
  "('db, 'x) ext_scheme \<Rightarrow> u64 \<Rightarrow> 'db machine \<Rightarrow> ('db machine \<times> (startup_error + u64)) outcome" where
  "replay_stored_canonical_tail X restored_height m =
     (case load_tip_height X m of
        Inl e \<Rightarrow> Ret (m, Inl e)
      | Inr tip_height \<Rightarrow>
          if tip_height \<le> restored_height then Ret (refresh_cached_state_root_from_tip m, Inr tip_height)
          else (case replay_tail X (heights_between (restored_height + 1) tip_height) m of
              Panic \<Rightarrow> Panic
            | OutOfFuel \<Rightarrow> OutOfFuel
            | Ret (m1, Inl e) \<Rightarrow> Ret (m1, Inl e)
            | Ret (m1, Inr _) \<Rightarrow> Ret (m1, Inr tip_height)))"

section \<open>Rebuilding\<close>

fun load_all_indexed ::
  "('db, 'x) ext_scheme \<Rightarrow> u64 list \<Rightarrow> ('db, 'm) chain_state_scheme \<Rightarrow> startup_error + block list" where
  "load_all_indexed X [] g = Inr []"
| "load_all_indexed X (h # hs) g =
     (case load_indexed X h g of
        Inl e \<Rightarrow> Inl e
      | Inr (_, b) \<Rightarrow> (case load_all_indexed X hs g of Inl e \<Rightarrow> Inl e | Inr bs \<Rightarrow> Inr (b # bs)))"

definition clear_canonical :: "('db, 'm) chain_state_scheme \<Rightarrow> ('db, 'm) chain_state_scheme" where
  "clear_canonical g =
     g\<lparr>blocks := [], canon_index := Map.empty, cumulative_work := Map.empty, seen_blocks := {},
       balances := [], nonces := [], cached_state_root := None\<rparr>"

fun rebuild_blocks ::
  "('db, 'x) ext_scheme \<Rightarrow> block list \<Rightarrow> 'db machine \<Rightarrow> ('db machine \<times> (startup_error + unit)) outcome" where
  "rebuild_blocks X [] m = Ret (m, Inr ())"
| "rebuild_blocks X (b # bs) m =
     (case replay_stored X (number (header b)) (block_hash b) b m of
        Panic \<Rightarrow> Panic
      | OutOfFuel \<Rightarrow> OutOfFuel
      | Ret (m1, Inl e) \<Rightarrow> Ret (m1, Inl e)
      | Ret (m1, Inr _) \<Rightarrow> rebuild_blocks X bs m1)"

definition rebuild_canonical_state_from_genesis ::
  "('db, 'x) ext_scheme \<Rightarrow> 'db machine \<Rightarrow> ('db machine \<times> (startup_error + u64)) outcome" where
  "rebuild_canonical_state_from_genesis X m =
     (case load_tip_height X m of
        Inl e \<Rightarrow> Ret (m, Inl e)
      | Inr tip_height \<Rightarrow>
         (case load_all_indexed X (heights_upto tip_height) m of
            Inl e \<Rightarrow> Ret (m, Inl e)
          | Inr bs \<Rightarrow>
             (case rebuild_blocks X bs (clear_canonical m) of
                Panic \<Rightarrow> Panic
              | OutOfFuel \<Rightarrow> OutOfFuel
              | Ret (m1, Inl e) \<Rightarrow> Ret (m1, Inl e)
              | Ret (m1, Inr _) \<Rightarrow> Ret (m1, Inr tip_height))))"

section \<open>The whole start-up\<close>

text \<open>The state outside the chain is fresh: \<open>ck\<close> is the wall clock. A start-up that fails
  returns no chain.\<close>

definition initialize_chain_state ::
  "('db, 'x) ext_scheme \<Rightarrow> 'db \<Rightarrow> (nat \<Rightarrow> u64) \<Rightarrow> (startup_error + 'db machine) outcome" where
  "initialize_chain_state X d ck =
     (case open_with_genesis X d of
        Inl e \<Rightarrow> Ret (Inl (StartupOpen e))
      | Inr g0 \<Rightarrow>
         (case bootstrap_chain X (chain_state.extend g0 (machine.fields [] {} dc_empty ck 0)) of
            (_, Inl e) \<Rightarrow> Ret (Inl e)
          | (m1, Inr _) \<Rightarrow>
             (let m2 = refresh_cached_state_root_from_tip m1; height = current_height m2
              in case restore_latest_snapshot X height m2 of
                   (m3, Inr restored_height) \<Rightarrow>
                     (case replay_stored_canonical_tail X restored_height m3 of
                        Panic \<Rightarrow> Panic
                      | OutOfFuel \<Rightarrow> OutOfFuel
                      | Ret (m4, Inl e) \<Rightarrow> Ret (Inl e)
                      | Ret (m4, Inr _) \<Rightarrow> Ret (Inr m4))
                 | (m3, Inl e) \<Rightarrow>
                     if height > 0
                     then (case rebuild_canonical_state_from_genesis X m3 of
                             Panic \<Rightarrow> Panic
                           | OutOfFuel \<Rightarrow> OutOfFuel
                           | Ret (m4, Inl e') \<Rightarrow> Ret (Inl e')
                           | Ret (m4, Inr _) \<Rightarrow> Ret (Inr m4))
                     else Ret (Inr m3))))"

end
