(* ===== verification/Persist_Inv.thy ===== *)
theory Persist_Inv
  imports Bootstrap Chain_Props
begin

text \<open>
  The canonical chain is in the database. \<open>stored_chain v bs\<close> says of a key/value view of the
  store that it holds the blocks \<open>bs\<close> under their heights and hashes and names their last as the
  tip; every write of the acceptance pipeline keeps it for the canonical blocks of the state, whether
  the store accepts the write or not, and the reload reads back exactly those blocks.
\<close>

section \<open>Keys\<close>

lemma key_simps [simp]:
  "block_key a = block_key b \<longleftrightarrow> a = b" "height_key h = height_key k \<longleftrightarrow> h = k"
  "block_key a \<noteq> height_key h" "height_key h \<noteq> block_key a"
  "block_key a \<noteq> meta_key s" "meta_key s \<noteq> block_key a" "height_key h \<noteq> meta_key s" "meta_key s \<noteq> height_key h"
  "meta_key s = meta_key t \<longleftrightarrow> s = t"
  using parse_u64_to_string [of h] parse_u64_to_string [of k]
  by (auto simp: block_key_def height_key_def meta_key_def simp del: as_bytes_append)

section \<open>The view of the store\<close>

definition stored_chain :: "('db, 'x) ext_scheme \<Rightarrow> (u8 list \<Rightarrow> u8 list option) \<Rightarrow> block list \<Rightarrow> bool" where
  "stored_chain X v bs \<longleftrightarrow> bs \<noteq> []
     \<and> v (meta_key ''tip_height'') = Some (as_bytes (u64_to_string (number (header (last bs)))))
     \<and> (\<forall>b\<in>set bs. valid_str (block_hash b)
          \<and> v (height_key (number (header b))) = Some (as_bytes (block_hash b))
          \<and> v (block_key (block_hash b)) = Some (bincode_block X b))"

definition persisted :: "('db, 'x) ext_scheme \<Rightarrow> ('db, 'm) chain_state_scheme \<Rightarrow> bool" where
  "persisted X g \<longleftrightarrow> (\<exists>v. db_view X (db g) v \<and> stored_chain X v (blocks g))"

lemma persisted_cong: "db g' = db g \<Longrightarrow> blocks g' = blocks g \<Longrightarrow> persisted X g' = persisted X g"
  by (simp add: persisted_def)

text \<open>Keys a chain of blocks does not use.\<close>

definition chain_keys :: "block list \<Rightarrow> u8 list set" where
  "chain_keys bs = {meta_key ''tip_height''} \<union> (\<lambda>b. height_key (number (header b))) ` set bs
     \<union> (\<lambda>b. block_key (block_hash b)) ` set bs"

lemma stored_chain_cong:
  "stored_chain X v bs \<Longrightarrow> (\<And>k. k \<in> chain_keys bs \<Longrightarrow> v' k = v k) \<Longrightarrow> stored_chain X v' bs"
  by (auto simp: stored_chain_def chain_keys_def)

section \<open>Batches\<close>

lemma foldl_batch_append: "foldl batch_effect v (xs @ ys) = foldl batch_effect (foldl batch_effect v xs) ys"
  by simp

fun op_key :: "batch_op \<Rightarrow> u8 list" where
  "op_key (BatchInsert k v) = k"
| "op_key (BatchRemove k) = k"

definition batch_keys :: "batch_op list \<Rightarrow> u8 list set" where
  "batch_keys ops = op_key ` set ops"

lemma batch_keys_simps [simp]:
  "batch_keys [] = {}" "batch_keys (b # ops) = insert (op_key b) (batch_keys ops)"
  "batch_keys (xs @ ys) = batch_keys xs \<union> batch_keys ys"
  by (auto simp: batch_keys_def)

lemma foldl_batch_other: "k \<notin> batch_keys ops \<Longrightarrow> foldl batch_effect v ops k = v k"
proof (induction ops arbitrary: v)
  case (Cons b ops)
  then show ?case by (cases b) (auto simp: batch_effect_def)
qed simp

definition block_ops :: "('db, 'x) ext_scheme \<Rightarrow> block \<Rightarrow> batch_op list" where
  "block_ops X b = [BatchInsert (block_key (block_hash b)) (bincode_block X b),
     BatchInsert (height_key (number (header b))) (as_bytes (block_hash b))]"

lemma batch_keys_blocks:
  "batch_keys (concat (map (block_ops X) bs)) =
     (\<lambda>b. height_key (number (header b))) ` set bs \<union> (\<lambda>b. block_key (block_hash b)) ` set bs"
  by (induction bs) (auto simp: block_ops_def)

lemma foldl_other_blocks:
  "k \<notin> (\<lambda>b. height_key (number (header b))) ` set bs \<Longrightarrow> k \<notin> (\<lambda>b. block_key (block_hash b)) ` set bs \<Longrightarrow>
     foldl batch_effect v (concat (map (block_ops X) bs)) k = v k"
  by (rule foldl_batch_other) (simp add: batch_keys_blocks)

text \<open>Writing blocks with different heights and hashes stores them all.\<close>

lemma foldl_block_ops:
  assumes "distinct (map block_hash bs)" "distinct (map (\<lambda>b. number (header b)) bs)" "b \<in> set bs"
  shows "foldl batch_effect v (concat (map (block_ops X) bs)) (block_key (block_hash b)) = Some (bincode_block X b)"
    and "foldl batch_effect v (concat (map (block_ops X) bs)) (height_key (number (header b))) = Some (as_bytes (block_hash b))"
  using assms
proof (induction bs arbitrary: v)
  case (Cons c bs)
  case 1
  show ?case
  proof (cases "b \<in> set bs")
    case True
    then show ?thesis using Cons.IH(1) 1 by simp
  next
    case False
    then have "b = c" "block_key (block_hash c) \<notin> (\<lambda>b. block_key (block_hash b)) ` set bs" using 1 by auto
    moreover have "block_key h \<notin> (\<lambda>b. height_key (number (header b))) ` set bs" for h by auto
    ultimately show ?thesis by (simp add: foldl_other_blocks) (simp add: block_ops_def batch_effect_def)
  qed
next
  case (Cons c bs)
  case 2
  show ?case
  proof (cases "b \<in> set bs")
    case True
    then show ?thesis using Cons.IH(2) 2 by simp
  next
    case False
    then have "b = c" "height_key (number (header c)) \<notin> (\<lambda>b. height_key (number (header b))) ` set bs" using 2 by auto
    moreover have "height_key h \<notin> (\<lambda>b. block_key (block_hash b)) ` set bs" for h by auto
    ultimately show ?thesis by (simp add: foldl_other_blocks) (simp add: block_ops_def batch_effect_def)
  qed
qed simp_all

section \<open>Writes keep the chain stored\<close>

lemma sled_batch:
  assumes "sled_laws X" "db_view X d v" "sled_apply_batch X d ops = (d', ok)"
  shows "db_view X d' (if ok then foldl batch_effect v ops else v)"
  using assms(1) [unfolded sled_laws_def, THEN conjunct2, rule_format, OF assms(2), of ops] assms(3) by simp

lemma sled_put:
  assumes "sled_laws X" "db_view X d v" "sled_insert X d k x = (d', ok)"
  shows "db_view X d' (if ok then v(k \<mapsto> x) else v)"
  using assms(1) [unfolded sled_laws_def, THEN conjunct1, rule_format, OF assms(2), of k x] assms(3) by simp

lemma stored_extension:
  assumes "bs = [] \<or> stored_chain X v bs" "valid_str (block_hash b)"
    and "\<forall>c\<in>set bs. block_hash c \<noteq> block_hash b \<and> number (header c) \<noteq> number (header b)"
  shows "stored_chain X (foldl batch_effect v (extension_batch X b)) (bs @ [b])"
  using assms by (auto simp: stored_chain_def extension_batch_def Let_def batch_effect_def)

lemma batch_heights_removed:
  "batch_keys (map (\<lambda>h. BatchRemove (height_key (word_of_nat h))) hs) = (\<lambda>h. height_key (word_of_nat h)) ` set hs"
  by (induction hs) auto

lemma stored_reorg:
  assumes ne: "bs \<noteq> []" and names: "\<forall>b\<in>set bs. valid_str (block_hash b)"
    and dist: "distinct (map block_hash bs)" "distinct (map (\<lambda>b. number (header b)) bs)"
    and top: "\<forall>b\<in>set bs. number (header b) \<le> number (header (last bs))"
    and small: "unat (number (header (last bs))) < 2 ^ 64 - 1"
  shows "stored_chain X (foldl batch_effect v (reorg_batch X bs (last bs) prev)) bs"
proof -
  let ?tip = "number (header (last bs))"
  let ?rm = "map (\<lambda>h. BatchRemove (height_key (word_of_nat h))) [unat (?tip + 1)..<Suc (unat prev)]"
  let ?fin = "[BatchInsert (meta_key ''tip_height'') (as_bytes (u64_to_string ?tip)),
            BatchInsert (meta_key ''tip_hash'') (as_bytes (block_hash (last bs)))]"
  have eq: "reorg_batch X bs (last bs) prev = concat (map (block_ops X) bs) @ ?rm @ ?fin"
    by (simp add: reorg_batch_def Let_def block_ops_def [abs_def])
  have suc: "unat (?tip + 1) = Suc (unat ?tip)" using small by (simp add: unat_word_ariths)
  have keep: "number (header b) \<notin> (\<lambda>h. word_of_nat h) ` set [unat (?tip + 1)..<Suc (unat prev)]" if b: "b \<in> set bs" for b
  proof
    assume "number (header b) \<in> (\<lambda>h. word_of_nat h) ` set [unat (?tip + 1)..<Suc (unat prev)]"
    then obtain h where h: "number (header b) = word_of_nat h" "Suc (unat ?tip) \<le> h" "h < Suc (unat prev)"
      by (auto simp: suc)
    have "unat prev < 2 ^ 64" by simp
    then have "h < 2 ^ 64" using h(3) by linarith
    then have "unat (number (header b)) = h" by (simp add: h(1) unat_of_nat)
    then show False using top b h(2) by (auto simp: word_le_nat_alt)
  qed
  have other: "foldl batch_effect w (?rm @ ?fin) k = w k"
    if "k \<notin> batch_keys ?rm" "k \<noteq> meta_key ''tip_height''" "k \<noteq> meta_key ''tip_hash''" for w k
    by (rule foldl_batch_other) (use that in auto)
  have tip: "foldl batch_effect w (?rm @ ?fin) (meta_key ''tip_height'') = Some (as_bytes (u64_to_string ?tip))" for w
    by (simp add: batch_effect_def)
  show ?thesis
    unfolding stored_chain_def eq foldl_batch_append [of _ "concat (map (block_ops X) bs)"] tip
  proof (intro conjI ballI ne refl)
    fix b assume b: "b \<in> set bs"
    have hk: "height_key (number (header b)) \<notin> batch_keys ?rm"
      using keep [OF b] unfolding batch_heights_removed by (auto simp del: upt_Suc set_upt)
    have bk: "block_key (block_hash b) \<notin> batch_keys ?rm"
      unfolding batch_heights_removed by auto
    show "valid_str (block_hash b)" using names b by blast
    show "foldl batch_effect (foldl batch_effect v (concat (map (block_ops X) bs))) (?rm @ ?fin)
        (height_key (number (header b))) = Some (as_bytes (block_hash b))"
      by (simp only: other [OF hk key_simps(7) key_simps(7)] foldl_block_ops(2) [OF dist b])
    show "foldl batch_effect (foldl batch_effect v (concat (map (block_ops X) bs))) (?rm @ ?fin)
        (block_key (block_hash b)) = Some (bincode_block X b)"
      by (simp only: other [OF bk key_simps(5) key_simps(5)] foldl_block_ops(1) [OF dist b])
  qed
qed

end
