(* ===== verification/Persist_Steps.thy ===== *)
theory Persist_Steps
  imports Persist_Inv
begin

text \<open>Every pass of the acceptance pipeline keeps the canonical chain stored.\<close>

section \<open>Steps that do not touch the store\<close>

lemma db_clear [simp]: "db (clear_pow_prevalidation h m) = db m"
  by (simp add: clear_pow_prevalidation_def)

lemma db_header: "accept_header X blk m = Ret (m', r) \<Longrightarrow> db m' = db m"
  by (auto simp: accept_header_def check_timestamp_def wall_clock_secs_def verify_visionx_pow_def Let_def
      split: option.splits prod.splits sum.splits if_splits)

lemma add_orphan_keeps_store: "db (add_orphan b src m) = db m" "blocks (add_orphan b src m) = blocks m"
  by (auto simp: add_orphan_def prune_old_orphans_def wall_clock_secs_def Let_def split: option.split)

section \<open>Snapshots\<close>

lemma snapshot_keys [simp]:
  "snap_key ''snap:balances:'' h \<noteq> block_key a" "snap_key ''snap:nonces:'' h \<noteq> block_key a"
  "snap_key SNAPSHOT_META_PREFIX h \<noteq> block_key a" "snap_key ''meta:snapshot_state_root:'' h \<noteq> block_key a"
  "snap_key ''snap:balances:'' h \<noteq> height_key k" "snap_key ''snap:nonces:'' h \<noteq> height_key k"
  "snap_key SNAPSHOT_META_PREFIX h \<noteq> height_key k" "snap_key ''meta:snapshot_state_root:'' h \<noteq> height_key k"
  "snap_key ''snap:balances:'' h \<noteq> meta_key ''tip_height''" "snap_key ''snap:nonces:'' h \<noteq> meta_key ''tip_height''"
  "snap_key SNAPSHOT_META_PREFIX h \<noteq> meta_key ''tip_height''"
  "snap_key ''meta:snapshot_state_root:'' h \<noteq> meta_key ''tip_height''"
  by (simp_all add: snap_key_def block_key_def height_key_def meta_key_def SNAPSHOT_META_PREFIX_def del: as_bytes_append)

lemma insert_all_view:
  assumes "sled_laws X" "db_view X d v" "insert_all X d kvs = (d', ok)"
  shows "\<exists>v'. db_view X d' v' \<and> (\<forall>k. k \<notin> fst ` set kvs \<longrightarrow> v' k = v k)"
  using assms(2,3)
proof (induction kvs arbitrary: d v)
  case (Cons kv kvs)
  obtain k x where kv: "kv = (k, x)" by fastforce
  obtain d1 o1 where i: "sled_insert X d k x = (d1, o1)" by fastforce
  note w = sled_put [OF assms(1) Cons.prems(1) i]
  show ?case
  proof (cases o1)
    case True
    have "insert_all X d1 kvs = (d', ok)" using Cons.prems(2) kv i True by simp
    then have "\<exists>v'. db_view X d' v' \<and> (\<forall>j. j \<notin> fst ` set kvs \<longrightarrow> v' j = (v(k \<mapsto> x)) j)"
      by (rule Cons.IH [rotated]) (use w True in \<open>simp del: fun_upd_apply\<close>)
    then obtain v' where "db_view X d' v'" "\<forall>j. j \<notin> fst ` set kvs \<longrightarrow> v' j = (v(k \<mapsto> x)) j" by blast
    then show ?thesis using kv by (intro exI [of _ v']) auto
  next
    case False
    then show ?thesis using Cons.prems(2) kv i w by auto
  qed
qed auto

lemma save_snapshot_stored:
  assumes "sled_laws X" "db_view X (db g) v" "stored_chain X v bs" "maybe_save_snapshot X g = (g', r)"
  shows "\<exists>v'. db_view X (db g') v' \<and> stored_chain X v' bs"
proof (cases "g' = g")
  case True
  then show ?thesis using assms by auto
next
  case False
  then obtain root d ok where i: "insert_all X (db g) (snapshot_entries X g (current_height g) root) = (d, ok)"
    and g': "db g' = d"
    using assms(4)
    by (auto simp: maybe_save_snapshot_def save_snapshot_def Let_def split: if_splits sum.splits prod.splits)
  obtain v' where v': "db_view X d v'"
    "\<forall>k. k \<notin> fst ` set (snapshot_entries X g (current_height g) root) \<longrightarrow> v' k = v k"
    using insert_all_view [OF assms(1,2) i] by blast
  have "v' k = v k" if "k \<in> chain_keys bs" for k
  proof -
    have "k \<notin> fst ` set (snapshot_entries X g (current_height g) root)"
      using that by (auto simp: chain_keys_def snapshot_entries_def snapshot_keys [symmetric])
    then show ?thesis using v'(2) by blast
  qed
  then show ?thesis using v'(1) g' stored_chain_cong [OF assms(3)] by blast
qed

section \<open>What the invariant of the chain gives\<close>

lemma chain_inv_stored_facts:
  assumes inv: "chain_inv X ht m"
  shows "blocks m \<noteq> []" "distinct (map block_hash (blocks m))"
    "distinct (map (\<lambda>b. number (header b)) (blocks m))"
    "\<forall>b\<in>set (blocks m). number (header b) \<le> number (header (last (blocks m)))"
    "unat (number (header (last (blocks m)))) < 2 ^ 64 - 1"
proof -
  note hs = chain_heights [OF inv]
  show ne: "blocks m \<noteq> []" "distinct (map block_hash (blocks m))"
    using inv by (simp_all add: chain_inv_def linked_def index_ok_def)
  show "distinct (map (\<lambda>b. number (header b)) (blocks m))"
    unfolding distinct_conv_nth by simp (metis hs)
  have last: "unat (number (header (last (blocks m)))) = length (blocks m) - 1"
    using hs [of "length (blocks m) - 1"] ne(1) by (simp add: last_conv_nth)
  show "\<forall>b\<in>set (blocks m). number (header b) \<le> number (header (last (blocks m)))"
    using hs last by (auto simp: in_set_conv_nth word_le_nat_alt)
  have "honest ht (last (blocks m))" using chain_inv_honest [OF inv] ne(1) by simp
  then show "unat (number (header (last (blocks m)))) < 2 ^ 64 - 1" by (simp add: honest_def)
qed

text \<open>The hashes of known blocks are hexadecimal text.\<close>

definition names_ok :: "('db, 'm) chain_state_scheme \<Rightarrow> bool" where
  "names_ok g \<longleftrightarrow> (\<forall>h. known g h \<noteq> None \<longrightarrow> valid_str h)"

lemma verdict_name:
  assumes "hex_laws X" "pow_verdict X blk = Inr ()"
  shows "valid_str (block_hash blk)"
proof -
  obtain d where "block_hash blk = hex_encode X d"
    using assms(2) by (auto simp: pow_verdict_def split: sum.splits if_splits)
  then show ?thesis
    using assms(1) by (auto simp: hex_laws_def intro: valid_str_ascii is_ascii_lowercase_hex)
qed

lemma names_core:
  assumes inv: "chain_inv X ht m" and h: "honest ht blk" and core: "apply_core X blk src m = Ret (m', st)"
    and hex: "hex_laws X" and nm: "names_ok m"
  shows "names_ok m'"
proof -
  have dc: "dc_ok (ds_cache m)" using inv by (simp add: chain_inv_def base_ok_def)
  have v: "pow_verdict X blk = Inr () \<or> known m' = known m"
    using core dc
  proof (cases rule: apply_core_cases)
    case (Gen m1)
    then show ?thesis using inv by (simp add: chain_inv_def linked_def)
  next
    case (Orphaned m1 peer)
    then have "blocks m' = blocks m" "side_blocks m' = side_blocks m"
      by (auto simp: add_orphan_def prune_old_orphans_def wall_clock_secs_def Let_def same_chainD split: option.split)
    then show ?thesis using known_cong by blast
  qed (auto simp: known_same_chain)
  from apply_core_known [OF inv h core] show ?thesis
  proof
    assume "known m' = known m \<and> cumulative_work m' = cumulative_work m \<and> (\<forall>r. st \<noteq> Promote r)"
    then show ?thesis using nm by (simp add: names_ok_def)
  next
    assume u: "known m (block_hash blk) = None \<and> known m' = (known m)(block_hash blk \<mapsto> blk)
        \<and> cumulative_work m' = (cumulative_work m)(block_hash blk \<mapsto> candidate_work m blk)"
    then have "known m' \<noteq> known m" by (metis fun_upd_same option.distinct(1))
    then have "valid_str (block_hash blk)" using v verdict_name [OF hex] by blast
    then show ?thesis using u nm by (simp add: names_ok_def)
  qed
qed

text \<open>What makes a list of blocks fit for the reorg batch.\<close>

definition storable :: "block list \<Rightarrow> bool" where
  "storable bs \<longleftrightarrow> bs \<noteq> [] \<and> (\<forall>b\<in>set bs. valid_str (block_hash b))
     \<and> distinct (map block_hash bs) \<and> distinct (map (\<lambda>b. number (header b)) bs)
     \<and> (\<forall>b\<in>set bs. number (header b) \<le> number (header (last bs)))
     \<and> unat (number (header (last bs))) < 2 ^ 64 - 1"

lemma chain_inv_storable: "chain_inv X ht m \<Longrightarrow> names_ok m \<Longrightarrow> storable (blocks m)"
proof -
  assume inv: "chain_inv X ht m" and nm: "names_ok m"
  have "known m (block_hash b) \<noteq> None" if "b \<in> set (blocks m)" for b
    using that by (auto simp: known_def block_index_None split: option.split)
  then show ?thesis using chain_inv_stored_facts [OF inv] nm by (simp add: storable_def names_ok_def)
qed

section \<open>One pass\<close>

lemma integrate_tip_stored:
  assumes laws: "sled_laws X" and v: "db_view X (db m) v" "stored_chain X v (blocks m)"
    and r: "integrate_tip X blk s cw m = (m', st)" and ok: "storable (blocks m')"
  shows "persisted X m'"
proof -
  obtain d ok where b: "sled_apply_batch X (db m) (extension_batch X blk) = (d, ok)" by fastforce
  note view = sled_batch [OF laws v(1) b]
  show ?thesis
  proof (cases ok)
    case False
    then show ?thesis
      using r b view v(2) by (auto simp: integrate_tip_def persist_canonical_extension_def persisted_def)
  next
    case True
    let ?m3 = "push_canonical blk cw ((m\<lparr>db := d\<rparr>)\<lparr>balances := es_balances s, nonces := es_nonces s\<rparr>)"
    obtain m4 r4 where sn: "maybe_save_snapshot X ?m3 = (m4, r4)" by fastforce
    have m': "m' = m4" using r b True sn by (simp add: integrate_tip_def persist_canonical_extension_def Let_def)
    have bs: "blocks m4 = blocks m @ [blk]"
      using sn maybe_save_snapshot_frame [of X ?m3] by (auto simp: push_canonical_def)
    have fresh: "valid_str (block_hash blk)"
      "\<forall>c\<in>set (blocks m). block_hash c \<noteq> block_hash blk \<and> number (header c) \<noteq> number (header blk)"
      using ok unfolding storable_def m' bs by (simp_all add: image_iff) metis+
    have "\<exists>v'. db_view X (db m4) v' \<and> stored_chain X v' (blocks m @ [blk])"
    proof (rule save_snapshot_stored [OF laws _ _ sn])
      show "db_view X (db ?m3) (foldl batch_effect v (extension_batch X blk))"
        using view True by (simp add: push_canonical_def)
      show "stored_chain X (foldl batch_effect v (extension_batch X blk)) (blocks m @ [blk])"
        by (rule stored_extension) (use v fresh in auto)
    qed
    then show ?thesis by (simp add: m' bs persisted_def)
  qed
qed

lemma failed_persist_view:
  assumes "sled_laws X" "db_view X (db g) v" "persist_canonical_reorg X bs h g = (g', False)"
  shows "db_view X (db g') v \<and> blocks g' = blocks g"
proof (cases "bs = []")
  case True
  then show ?thesis using assms by (simp add: persist_canonical_reorg_def)
next
  case False
  then obtain d where b: "sled_apply_batch X (db g) (reorg_batch X bs (last bs) h) = (d, False)"
    and g': "g' = g\<lparr>db := d\<rparr>"
    using assms(3) by (auto simp: persist_canonical_reorg_def split: prod.splits)
  show ?thesis using sled_batch [OF assms(1,2) b] by (simp add: g')
qed

lemma try_reorg_None_view:
  assumes "sled_laws X" "db_view X (db g) v" "try_reorg X blk g = Ret (g', None)"
  shows "db_view X (db g') v \<and> blocks g' = blocks g"
proof -
  have "g' = g \<or> (\<exists>bs h. persist_canonical_reorg X bs h g = (g', False))"
    using assms(3) by (auto simp: try_reorg_def Let_def split: outcome.splits list.splits option.splits sum.splits
        if_splits prod.splits bool.splits)
  then show ?thesis using failed_persist_view [OF assms(1,2)] assms(2) by blast
qed

lemma try_reorg_Some_stored:
  assumes laws: "sled_laws X" "db_view X (db g) v" and t: "try_reorg X blk g = Ret (g', Some rc)"
    and ok: "storable (blocks g')"
  shows "persisted X g'"
proof -
  obtain segment ch k d and sx :: tx_execution_state where
    p: "persist_canonical_reorg X (pr_blocks (reorg_promotion g ch (unat (k :: u64)) segment)) (current_height g) g
        = (g\<lparr>db := d\<rparr>, True)"
    and g': "g' = g\<lparr>db := d,
            blocks := pr_blocks (reorg_promotion g ch (unat k) segment),
            balances := es_balances sx, nonces := es_nonces sx,
            seen_blocks := pr_seen (reorg_promotion g ch (unat k) segment),
            side_blocks := pr_side (reorg_promotion g ch (unat k) segment),
            cumulative_work := pr_work (reorg_promotion g ch (unat k) segment),
            canon_index := pr_canon (reorg_promotion g ch (unat k) segment),
            cached_state_root := Some (number (header blk), state_root (header blk))\<rparr>"
    by (rule try_reorg_SomeE [OF t], rule that) (assumption+)
  let ?bs = "pr_blocks (reorg_promotion g ch (unat k) segment)"
  have f: "blocks g' = ?bs" "db g' = d" by (simp_all add: g')
  have ne: "?bs \<noteq> []" using ok f(1) by (simp add: storable_def)
  obtain d2 where b: "sled_apply_batch X (db g) (reorg_batch X ?bs (last ?bs) (current_height g)) = (d2, True)"
    and e: "g\<lparr>db := d\<rparr> = g\<lparr>db := d2\<rparr>"
    using p ne by (auto simp: persist_canonical_reorg_def split: prod.splits)
  have "d = d2" using arg_cong [OF e, where f = db] by simp
  then have "db_view X (db g') (foldl batch_effect v (reorg_batch X ?bs (last ?bs) (current_height g)))"
    using sled_batch [OF laws b] f by simp
  moreover have "stored_chain X (foldl batch_effect v (reorg_batch X ?bs (last ?bs) (current_height g))) ?bs"
    by (rule stored_reorg) (use ok f(1) in \<open>simp_all add: storable_def\<close>)
  ultimately show ?thesis unfolding persisted_def f(1) by blast
qed

lemma integrate_side_stored:
  assumes laws: "sled_laws X" and v: "db_view X (db m) v" "stored_chain X v (blocks m)"
    and fresh: "\<forall>c\<in>set (blocks m). block_hash c \<noteq> block_hash blk"
    and r: "integrate_side X blk cw tip_cw m = Ret (m', st)" and ok: "storable (blocks m')"
  shows "persisted X m'"
proof -
  obtain d dk where b: "sled_insert X (db m) (block_key (block_hash blk)) (bincode_block X blk) = (d, dk)" by fastforce
  note view = sled_put [OF laws v(1) b]
  show ?thesis
  proof (cases dk)
    case False
    then have "m' = m\<lparr>db := d\<rparr>" using r b by (simp add: integrate_side_def store_block_def)
    then show ?thesis using view v(2) False by (auto simp: persisted_def)
  next
    case True
    let ?v = "v(block_key (block_hash blk) \<mapsto> bincode_block X blk)"
    let ?m2 = "record_side_block blk cw (m\<lparr>db := d\<rparr>)"
    have still: "stored_chain X ?v (blocks m)"
      by (rule stored_chain_cong [OF v(2)]) (use fresh in \<open>auto simp: chain_keys_def\<close>)
    have v2: "db_view X (db ?m2) ?v" "blocks ?m2 = blocks m" using view True by (simp_all add: record_side_block_def)
    have s: "integrate_side X blk cw tip_cw m = (if tip_cw < cw
           then (case try_reorg X blk ?m2 of
                   Panic \<Rightarrow> Panic
                 | OutOfFuel \<Rightarrow> OutOfFuel
                 | Ret (m3, Some recovery) \<Rightarrow>
                     Ret (m3\<lparr>pending_reorg_recovery := Some recovery\<rparr>, Promote (CanonExtension (number (header blk))))
                 | Ret (m3, None) \<Rightarrow> Ret (m3, Promote (SideChain (number (header blk)))))
           else Ret (?m2, Promote (SideChain (number (header blk)))))"
      using b True by (simp add: integrate_side_def store_block_def Let_def)
    show ?thesis
    proof (cases "tip_cw < cw")
      case False
      then have "m' = ?m2" using r s by simp
      then show ?thesis using v2 still by (auto simp: persisted_def)
    next
      case more: True
      then obtain m3 res where t: "try_reorg X blk ?m2 = Ret (m3, res)"
        and m': "db m' = db m3" "blocks m' = blocks m3"
        using r unfolding s by (cases "try_reorg X blk ?m2") (auto split: option.splits)
      show ?thesis
      proof (cases res)
        case None
        then show ?thesis
          using try_reorg_None_view [OF laws v2(1)] t v2(2) still m' unfolding persisted_def by metis
      next
        case (Some rc)
        have "persisted X m3" by (rule try_reorg_Some_stored [OF laws v2(1) t [unfolded Some]]) (use ok m' in simp)
        then show ?thesis using m' by (simp add: persisted_def)
      qed
    qed
  qed
qed

lemma accept_body_stored:
  assumes laws: "sled_laws X" and pers: "persisted X m"
    and fresh: "\<forall>c\<in>set (blocks m). block_hash c \<noteq> block_hash blk"
    and r: "accept_body X blk cw tip_cw m = Ret (m', st)" and ok: "storable (blocks m')"
  shows "persisted X m'"
proof -
  obtain v where v: "db_view X (db m) v" "stored_chain X v (blocks m)" using pers by (auto simp: persisted_def)
  have "m' = m \<or> (\<exists>s. integrate_tip X blk s cw m = (m', st)) \<or> integrate_side X blk cw tip_cw m = Ret (m', st)"
    using r by (auto simp: accept_body_def split: option.splits outcome.splits sum.splits if_splits)
  then show ?thesis
    using pers integrate_tip_stored [OF laws v _ ok] integrate_side_stored [OF laws v fresh _ ok] by blast
qed

lemma core_stored:
  assumes laws: "sled_laws X" and pers: "persisted X m" and some: "blocks m \<noteq> []"
    and seen: "number (header blk) \<noteq> 0 \<Longrightarrow> block_hash blk \<notin> seen_blocks m \<Longrightarrow> known m (block_hash blk) = None"
    and core: "apply_core X blk src m = Ret (m', st)" and ok: "storable (blocks m')"
  shows "persisted X m'"
proof -
  let ?m = "clear_pow_prevalidation (block_hash blk) m"
  have p1: "persisted X ?m" using pers same_chainD(1) [OF same_chain_clear [of m "block_hash blk"]]
    by (simp add: persisted_def)
  have ne: "blocks ?m \<noteq> []" using some same_chainD(1) [OF same_chain_clear [of m "block_hash blk"]] by simp
  show ?thesis
  proof (cases "structural_check X ?m blk")
    case (Some r)
    then show ?thesis using core p1 by (simp add: apply_core_def Let_def)
  next
    case st: None
    show ?thesis
    proof (cases "number (header blk) = 0")
      case True
      then show ?thesis using core p1 st ne by (auto simp: apply_core_def Let_def apply_genesis_def split: if_splits)
    next
      case nz: False
      show ?thesis
      proof (cases "canon_index ?m (parent_hash (header blk)) = None \<and> bt_lookup (side_blocks ?m) (parent_hash (header blk)) = None")
        case True
        then show ?thesis using core p1 st nz by (auto simp: apply_core_def Let_def persisted_def add_orphan_keeps_store)
      next
        case False
        then obtain m1 hr where h: "accept_header X blk ?m = Ret (m1, hr)"
          using core st nz by (auto simp: apply_core_def Let_def split: outcome.splits)
        have p2: "persisted X m1" and b2: "blocks m1 = blocks ?m" "seen_blocks m1 = seen_blocks ?m"
          using p1 db_header [OF h] same_chainD(1,6) [OF accept_header_frame [OF h]] by (simp_all add: persisted_def)
        show ?thesis
        proof (cases hr)
          case (Some r)
          then show ?thesis using core st nz False h p2 by (simp add: apply_core_def Let_def)
        next
          case None
          then have body: "accept_body X blk (work_at ?m (parent_hash (header blk)) + ucast (difficulty (header blk)))
              (work_at ?m (tip_hash ?m)) m1 = Ret (m', st)"
            using core st nz False h by (auto simp: apply_core_def Let_def)
          have "block_hash blk \<notin> seen_blocks m"
            using st by (auto simp: structural_check_def clear_pow_prevalidation_def Let_def split: if_splits)
          then have "known m (block_hash blk) = None" using seen nz by blast
          then have "\<forall>c\<in>set (blocks m1). block_hash c \<noteq> block_hash blk"
            unfolding b2 by (auto simp: known_def block_index_None clear_pow_prevalidation_def image_iff split: option.splits)
          from accept_body_stored [OF laws p2 this body ok] show ?thesis .
        qed
      qed
    qed
  qed
qed

text \<open>The whole of \<open>apply_block\<close>, through the contract of the acceptance pipeline.\<close>

definition stored_inv :: "('db, 'x) ext_scheme \<Rightarrow> (string \<Rightarrow> nat) \<Rightarrow> 'db machine \<Rightarrow> bool" where
  "stored_inv X ht m \<longleftrightarrow> sled_laws X \<and> hex_laws X \<and> chain_inv X ht m \<and> names_ok m \<and> persisted X m"

interpretation stored: accept_invariant X "stored_inv X ht" "honest ht" for X :: "('db, 'x) ext_scheme" and ht
proof unfold_locales
  fix m m' :: "'db machine" and blk src st
  assume i: "stored_inv X ht m" and h: "honest ht blk" and c: "apply_core X blk src m = Ret (m', st)"
  have inv: "chain_inv X ht m'" using chain.core i h c unfolding stored_inv_def by blast
  have nm: "names_ok m'" using names_core [OF _ h c] i unfolding stored_inv_def by blast
  have "blocks m \<noteq> []" "block_hash blk \<notin> seen_blocks m \<Longrightarrow> known m (block_hash blk) = None"
    using i by (auto simp: stored_inv_def chain_inv_def linked_def seen_ok_def)
  then have "persisted X m'"
    using core_stored [OF _ _ _ _ c chain_inv_storable [OF inv nm]] i unfolding stored_inv_def by blast
  then show "stored_inv X ht m'" using i inv nm unfolding stored_inv_def by blast
next
  fix m m' :: "'db machine" and h ws
  assume i: "stored_inv X ht m" and w: "take_waiting h m = (m', ws)"
  have "known m' = known m" "db m' = db m" "blocks m' = blocks m"
    using w by (auto simp: take_waiting_def known_def split: option.splits)
  then show "stored_inv X ht m' \<and> (\<forall>e\<in>set ws. honest ht (fst e))"
    using chain.waiting [of X ht m h m' ws] i w by (simp add: stored_inv_def names_ok_def persisted_def)
next
  fix m :: "'db machine" and b
  assume i: "stored_inv X ht m"
  have "known (forget_orphan b m) = known m" "db (forget_orphan b m) = db m" "blocks (forget_orphan b m) = blocks m"
    by (rule known_cong) (simp_all add: forget_orphan_def)
  then show "stored_inv X ht (forget_orphan b m)"
    using chain.forget [of X ht m b] i by (simp add: stored_inv_def names_ok_def persisted_def)
qed

end
