(* ===== verification/First_Run.thy ===== *)
theory First_Run
  imports Persist_Steps
begin

text \<open>
  The first run of a node. Its bootstrap enters the genesis block into the chain and the index, but
  neither its work nor the mark that it was seen; so the work recorded later is not the work of the
  chain, and which branch wins can differ from later runs. Everything else is the same: with the
  right work entered and genesis marked as seen (\<open>repair\<close>), every state of the first run has the
  invariant of the chain, and its canonical chain is stored.
\<close>

definition repair :: "(string \<Rightarrow> u128 option) \<Rightarrow> 'db machine \<Rightarrow> 'db machine" where
  "repair cw m = m\<lparr>seen_blocks := insert GENESIS_HASH (seen_blocks m), cumulative_work := cw\<rparr>"

lemma repair_sel [simp]:
  "blocks (repair cw m) = blocks m" "canon_index (repair cw m) = canon_index m"
  "side_blocks (repair cw m) = side_blocks m" "balances (repair cw m) = balances m"
  "nonces (repair cw m) = nonces m" "db (repair cw m) = db m" "orphan_pool (repair cw m) = orphan_pool m"
  "ds_cache (repair cw m) = ds_cache m" "base_ok (repair cw m) = base_ok m"
  "seen_blocks (repair cw m) = insert GENESIS_HASH (seen_blocks m)" "cumulative_work (repair cw m) = cw"
  by (simp_all add: repair_def base_ok_def)

lemma repair_queries [simp]:
  "tip_hash (repair cw m) = tip_hash m" "account_state (repair cw m) = account_state m"
  "known (repair cw m) = known m" "resolve_block (repair cw m) h = resolve_block m h"
  unfolding tip_hash_def account_state_def resolve_block_def block_at_def repair_sel
  by (rule refl, rule refl, rule known_cong) simp_all

lemma repair_window: "collect_ancestors (repair cw m) n h = collect_ancestors m n h"
  by (induction n arbitrary: h) (simp_all add: Let_def split: option.split)

lemma repair_passed:
  assumes p: "passed X blk m s" and h: "honest ht blk" and g: "ht GENESIS_HASH = 0"
  shows "passed X blk (repair cw m) s"
proof -
  have n: "number (header blk) \<noteq> 0" using p by (simp add: passed_def)
  have "block_hash blk \<noteq> GENESIS_HASH" using h g n by (auto simp: honest_def unat_eq_zero)
  then have "structural_check X (repair cw m) blk = structural_check X m blk"
    by (auto simp: structural_check_def Let_def)
  moreover have "check_difficulty (repair cw m) blk = check_difficulty m blk"
    unfolding check_difficulty_def collect_ancestor_window_def repair_window by (rule refl)
  moreover have "parent_state X (repair cw m) blk = parent_state X m blk"
    unfolding parent_state_def reconstruct_parent_state_for_side_chain_def
      reconstruct_canonical_state_at_height_def repair_sel repair_queries by (rule refl)
  ultimately show ?thesis using p by (simp add: passed_def)
qed

section \<open>The invariant\<close>

definition first_inv :: "('db, 'x) ext_scheme \<Rightarrow> (string \<Rightarrow> nat) \<Rightarrow> 'db machine \<Rightarrow> bool" where
  "first_inv X ht m \<longleftrightarrow> ht GENESIS_HASH = 0 \<and> (\<exists>cw. chain_inv X ht (repair cw m))"

lemma first_invI:
  assumes "ht GENESIS_HASH = 0" "chain_inv X ht M"
    and "blocks m = blocks M" "canon_index m = canon_index M" "side_blocks m = side_blocks M"
      "insert GENESIS_HASH (seen_blocks m) = seen_blocks M" "balances m = balances M" "nonces m = nonces M"
    and "base_ok m" "\<forall>b\<in>pool_blocks (orphan_pool m). honest ht b"
  shows "first_inv X ht m"
proof -
  have "chain_inv X ht (repair (cumulative_work M) m)"
    by (rule chain_inv_frame [OF assms(2)]) (use assms(3-10) in simp_all)
  then show ?thesis using assms(1) unfolding first_inv_def by blast
qed

lemma chain_first_inv: "ht GENESIS_HASH = 0 \<Longrightarrow> chain_inv X ht m \<Longrightarrow> first_inv X ht m"
proof (rule first_invI [of ht X m])
  assume i: "chain_inv X ht m"
  then have "GENESIS_HASH \<in> seen_blocks m" using genesis_known [OF i] unfolding chain_inv_def seen_ok_def by blast
  then show "insert GENESIS_HASH (seen_blocks m) = seen_blocks m" by blast
qed (simp_all add: chain_inv_def)

section \<open>A reorg does not look at the recorded work\<close>

lemma fold_promote_same:
  "pr_blocks p = pr_blocks q \<Longrightarrow> pr_canon p = pr_canon q \<Longrightarrow> pr_side p = pr_side q \<Longrightarrow>
     pr_blocks (fold promote_block seg p) = pr_blocks (fold promote_block seg q)
     \<and> pr_canon (fold promote_block seg p) = pr_canon (fold promote_block seg q)
     \<and> pr_side (fold promote_block seg p) = pr_side (fold promote_block seg q)"
  by (induction seg arbitrary: p q) (simp_all add: promote_block_def Let_def)

lemma repair_promotion:
  "pr_blocks (reorg_promotion (repair cw g) ch k seg) = pr_blocks (reorg_promotion g ch k seg)"
  "pr_canon (reorg_promotion (repair cw g) ch k seg) = pr_canon (reorg_promotion g ch k seg)"
  "pr_side (reorg_promotion (repair cw g) ch k seg) = pr_side (reorg_promotion g ch k seg)"
  "pr_seen (reorg_promotion (repair cw g) ch k seg) = insert GENESIS_HASH (pr_seen (reorg_promotion g ch k seg))"
proof -
  obtain c s where d: "fold demote (drop (k + 1) (blocks g)) (canon_index g, side_blocks g) = (c, s)" by fastforce
  obtain w where rep: "reorg_promotion (repair cw g) ch k seg = fold promote_block seg
      \<lparr>pr_cw = w, pr_canon = c, pr_side = s, pr_work = cw,
        pr_seen = insert GENESIS_HASH (seen_blocks g), pr_blocks = take (k + 1) (blocks g)\<rparr>"
    using d by (simp add: reorg_promotion_def Let_def)
  obtain v where org: "reorg_promotion g ch k seg = fold promote_block seg
      \<lparr>pr_cw = v, pr_canon = c, pr_side = s, pr_work = cumulative_work g,
        pr_seen = seen_blocks g, pr_blocks = take (k + 1) (blocks g)\<rparr>"
    using d by (simp add: reorg_promotion_def Let_def)
  note same = fold_promote_same [of
      "\<lparr>pr_cw = w, pr_canon = c, pr_side = s, pr_work = cw,
        pr_seen = insert GENESIS_HASH (seen_blocks g), pr_blocks = take (k + 1) (blocks g)\<rparr>"
      "\<lparr>pr_cw = v, pr_canon = c, pr_side = s, pr_work = cumulative_work g,
        pr_seen = seen_blocks g, pr_blocks = take (k + 1) (blocks g)\<rparr>" seg, simplified]
  show "pr_blocks (reorg_promotion (repair cw g) ch k seg) = pr_blocks (reorg_promotion g ch k seg)"
    "pr_canon (reorg_promotion (repair cw g) ch k seg) = pr_canon (reorg_promotion g ch k seg)"
    "pr_side (reorg_promotion (repair cw g) ch k seg) = pr_side (reorg_promotion g ch k seg)"
    "pr_seen (reorg_promotion (repair cw g) ch k seg) = insert GENESIS_HASH (pr_seen (reorg_promotion g ch k seg))"
    unfolding rep org using same by (simp_all add: fold_promote_blocks)
qed

lemma repair_reorg:
  assumes t: "try_reorg X blk (g :: 'db machine) = Ret (g', Some r)"
  obtains M where "try_reorg X blk (repair cw g) = Ret (M, Some r)" "blocks M = blocks g'"
    "canon_index M = canon_index g'" "side_blocks M = side_blocks g'"
    "seen_blocks M = insert GENESIS_HASH (seen_blocks g')" "balances M = balances g'" "nonces M = nonces g'"
    "orphan_pool M = orphan_pool g'" "ds_cache M = ds_cache g'" "db M = db g'"
  using t
proof (rule try_reorg_SomeE)
  fix seg ch k anc and sx :: tx_execution_state and d
  assume seg: "collect_new_segment g (block_hash blk) = Ret seg" "seg \<noteq> []" and ch: "ch = parent_hash (header (hd seg))"
    and k: "canon_index g ch = Some k" "unat k < length (blocks g)"
    and anc: "reorg_reconstruct_canonical X g k = Inr anc" and sx: "reconstruct_branch_state X ch anc seg = Inr sx"
    and root: "compute_state_root X (es_balances sx) (es_nonces sx) = Inr (state_root (header blk))"
    and p: "persist_canonical_reorg X (pr_blocks (reorg_promotion g ch (unat k) seg)) (current_height g) g = (g\<lparr>db := d\<rparr>, True)"
    and g': "g' = g\<lparr>db := d,
            blocks := pr_blocks (reorg_promotion g ch (unat k) seg),
            balances := es_balances sx, nonces := es_nonces sx,
            seen_blocks := pr_seen (reorg_promotion g ch (unat k) seg),
            side_blocks := pr_side (reorg_promotion g ch (unat k) seg),
            cumulative_work := pr_work (reorg_promotion g ch (unat k) seg),
            canon_index := pr_canon (reorg_promotion g ch (unat k) seg),
            cached_state_root := Some (number (header blk), state_root (header blk))\<rparr>"
    and r: "r = \<lparr>displaced_txs = compute_displaced_txs X (drop (unat k + 1) (blocks g)) seg,
            winning_tx_ids = sort (remdups (segment_tx_ids X seg))\<rparr>"
  let ?R = "repair cw g" and ?p = "reorg_promotion g ch (unat k) seg"
  let ?q = "reorg_promotion ?R ch (unat k) seg"
  obtain b bs where bbs: "seg = b # bs" using seg(2) by (cases seg) auto
  have seg': "collect_new_segment ?R (block_hash blk) = Ret (b # bs)"
    using seg by (simp add: collect_new_segment_def bbs)
  have ch': "ch = parent_hash (header b)" using ch by (simp add: bbs)
  have anc': "reorg_reconstruct_canonical X ?R k = Inr anc" using anc by (simp add: reorg_reconstruct_canonical_def)
  have ht: "current_height ?R = current_height g" by (simp add: current_height_def)
  have dd: "g\<lparr>db := d'\<rparr> = g\<lparr>db := d\<rparr> \<Longrightarrow> d' = d" for d' by (drule arg_cong [where f = db]) simp
  have p': "persist_canonical_reorg X (pr_blocks ?q) (current_height ?R) ?R = (?R\<lparr>db := d\<rparr>, True)"
    using p by (auto simp: persist_canonical_reorg_def repair_promotion ht dest: dd split: if_splits prod.splits)
  let ?M = "?R\<lparr>db := d, blocks := pr_blocks ?q, balances := es_balances sx, nonces := es_nonces sx,
            seen_blocks := pr_seen ?q, side_blocks := pr_side ?q, cumulative_work := pr_work ?q,
            canon_index := pr_canon ?q, cached_state_root := Some (number (header blk), state_root (header blk))\<rparr>"
  have "try_reorg X blk ?R = Ret (?M, Some r)"
    using k anc' sx root p' unfolding bbs ch' r
    by (simp add: try_reorg_def seg' Let_def del: reconstruct_branch_state.simps)
  then show thesis
    by (rule that) (simp_all add: g' repair_promotion)
qed

section \<open>Every pass keeps the invariant\<close>

text \<open>What one pass makes of the known blocks: it may add the block it was given, whose hash then has
  been verified.\<close>

lemma first_core:
  assumes first: "first_inv X ht m" and h: "honest ht blk" and core: "apply_core X blk src m = Ret (m', st)"
  shows "first_inv X ht m'"
    and "known m' = known m \<or> pow_verdict X blk = Inr () \<and> known m' = (known m)(block_hash blk \<mapsto> blk)"
proof -
  obtain cw where g: "ht GENESIS_HASH = 0" and inv: "chain_inv X ht (repair cw m)"
    using first by (auto simp: first_inv_def)
  let ?R = "repair cw m"
  have ok: "base_ok m" using inv by (simp add: chain_inv_def)
  then have dc: "dc_ok (ds_cache m)" by (simp add: base_ok_def)
  have ok': "base_ok m'" by (rule apply_core_base [OF core ok])
  have pool: "\<forall>b\<in>pool_blocks (orphan_pool m). honest ht b" using inv by (simp add: chain_inv_def)
  have "first_inv X ht m' \<and> (known m' = known m \<or>
      pow_verdict X blk = Inr () \<and> known m' = (known m)(block_hash blk \<mapsto> blk))"
    using core dc
  proof (cases rule: apply_core_cases)
    case (Reject r)
    note q = same_chainD [OF Reject(2)]
    have "first_inv X ht m'" by (rule first_invI [OF g inv]) (simp_all add: q ok' pool)
    then show ?thesis using known_same_chain [OF Reject(2)] by blast
  next
    case (Gen m1)
    then show ?thesis using inv by (simp add: chain_inv_def linked_def)
  next
    case (Orphaned m1 peer)
    obtain i t p where a: "add_orphan blk peer m1 = m1\<lparr>orphan_by_hash := i, ticks := t, orphan_pool := p\<rparr>"
      using add_orphan_frame by blast
    note q = same_chainD [OF Orphaned(6)]
    have "\<forall>b\<in>pool_blocks (orphan_pool m'). honest ht b"
      using pool_blocks_add [of blk peer m1] pool h unfolding Orphaned(7) q by blast
    moreover have "blocks m' = blocks m" "canon_index m' = canon_index m" "side_blocks m' = side_blocks m"
      "seen_blocks m' = seen_blocks m" "balances m' = balances m" "nonces m' = nonces m"
      unfolding Orphaned(7) a by (simp_all add: q)
    ultimately have "first_inv X ht m'" "known m' = known m"
      by (auto intro!: first_invI [OF g inv] ok' known_cong)
    then show ?thesis by blast
  next
    case (Tip s m1)
    have "parent_hash (header blk) = tip_hash ?R" using Tip(4) by simp
    note inv' = chain_inv_extend [OF inv repair_passed [OF Tip(2) h g] h this]
    note q = same_chainD [OF Tip(6)] and q1 = same_chainD [OF Tip(5)]
    have "first_inv X ht m'"
      by (rule first_invI [OF g inv'])
        (simp_all add: q q1 extend_chain_def push_canonical_def ok' pool insert_commute)
    moreover have "known m' = (known m)(block_hash blk \<mapsto> blk)"
      using known_same_chain [OF Tip(6)] known_same_chain [OF Tip(5)] known_extend [of m1 blk]
        passed_facts(1) [OF inv repair_passed [OF Tip(2) h g]] by simp
    ultimately show ?thesis using Tip(3) by blast
  next
    case (Side s m1)
    note inv' = chain_inv_record [OF inv repair_passed [OF Side(2) h g] h]
    note q = same_chainD [OF Side(6)] and q1 = same_chainD [OF Side(5)]
    have "first_inv X ht m'"
      by (rule first_invI [OF g inv']) (simp_all add: q q1 record_side_block_def ok' pool insert_commute)
    moreover have "known m' = (known m)(block_hash blk \<mapsto> blk)"
      using known_same_chain [OF Side(6)] known_same_chain [OF Side(5)] known_record [of m1 blk]
        passed_facts(1) [OF inv repair_passed [OF Side(2) h g]] by simp
    ultimately show ?thesis using Side(3) by blast
  next
    case (Reorganised s m1 m2 recovery)
    note q1 = same_chainD [OF Reorganised(5)]
    let ?g = "record_side_block blk (candidate_work m blk) m1"
    let ?cw = "cw(block_hash blk \<mapsto> candidate_work ?R blk)"
    have base1: "base_ok ?g"
      using ok' try_reorg_ds_cache [OF Reorganised(7)] try_reorg_pool [OF Reorganised(7)]
      by (simp add: Reorganised(8) base_ok_def)
    have inv1: "chain_inv X ht (repair ?cw ?g)"
      by (rule chain_inv_frame [OF chain_inv_record [OF inv repair_passed [OF Reorganised(2) h g] h]])
        (use base1 pool in \<open>simp_all add: q1 record_side_block_def insert_commute base_ok_def\<close>)
    obtain M where t: "try_reorg X blk (repair ?cw ?g) = Ret (M, Some recovery)" "blocks M = blocks m2"
      "canon_index M = canon_index m2" "side_blocks M = side_blocks m2"
      "seen_blocks M = insert GENESIS_HASH (seen_blocks m2)" "balances M = balances m2" "nonces M = nonces m2"
      "orphan_pool M = orphan_pool m2"
      by (rule repair_reorg [OF Reorganised(7)])
    note re = chain_inv_reorg [OF inv1 t(1)]
    have "\<forall>b\<in>pool_blocks (orphan_pool m'). honest ht b"
      using re(1) t(8) by (simp add: Reorganised(8) chain_inv_def)
    then have "first_inv X ht m'"
      by (intro first_invI [OF g re(1)] ok') (simp_all add: Reorganised(8) t)
    moreover have "known m' = known M" unfolding Reorganised(8) by (rule known_cong) (simp_all add: t)
    then have "known m' = (known m)(block_hash blk \<mapsto> blk)"
      using re(2) known_same_chain [OF Reorganised(5)] known_record [of m1 blk "candidate_work m blk"]
        passed_facts(1) [OF inv repair_passed [OF Reorganised(2) h g]] by simp
    ultimately show ?thesis using Reorganised(3) by blast
  qed
  then show "first_inv X ht m'"
    and "known m' = known m \<or> pow_verdict X blk = Inr () \<and> known m' = (known m)(block_hash blk \<mapsto> blk)"
    by blast+
qed

section \<open>The store\<close>

definition first_stored :: "('db, 'x) ext_scheme \<Rightarrow> (string \<Rightarrow> nat) \<Rightarrow> 'db machine \<Rightarrow> bool" where
  "first_stored X ht m \<longleftrightarrow> sled_laws X \<and> hex_laws X \<and> first_inv X ht m \<and> names_ok m \<and> persisted X m"

lemma first_storable:
  assumes "first_inv X ht m" "names_ok m"
  shows "storable (blocks m)"
proof -
  obtain cw where "chain_inv X ht (repair cw m)" using assms(1) by (auto simp: first_inv_def)
  moreover have "names_ok (repair cw m)" using assms(2) by (simp add: names_ok_def)
  ultimately show ?thesis using chain_inv_storable [of X ht "repair cw m"] by simp
qed

lemma first_unseen:
  assumes i: "first_inv X ht m" and h: "honest ht blk" and n: "number (header blk) \<noteq> 0"
    and unseen: "block_hash blk \<notin> seen_blocks m"
  shows "known m (block_hash blk) = None"
proof -
  obtain cw where g: "ht GENESIS_HASH = 0" and inv: "chain_inv X ht (repair cw m)"
    using i by (auto simp: first_inv_def)
  have "block_hash blk \<noteq> GENESIS_HASH" using h g n by (auto simp: honest_def unat_eq_zero)
  then show ?thesis using inv unseen unfolding chain_inv_def seen_ok_def by (metis insertE repair_queries(3) repair_sel(10))
qed

interpretation first: accept_invariant X "first_stored X ht" "honest ht" for X :: "('db, 'x) ext_scheme" and ht
proof unfold_locales
  fix m m' :: "'db machine" and blk src st
  assume i: "first_stored X ht m" and h: "honest ht blk" and c: "apply_core X blk src m = Ret (m', st)"
  have f: "first_inv X ht m" and hex: "hex_laws X" and nm: "names_ok m" using i by (simp_all add: first_stored_def)
  have f': "first_inv X ht m'" by (rule first_core(1) [OF f h c])
  have nm': "names_ok m'"
    using first_core(2) [OF f h c] nm verdict_name [OF hex, of blk] by (auto simp: names_ok_def split: if_splits)
  have "blocks m \<noteq> []" using f by (auto simp: first_inv_def chain_inv_def linked_def)
  then have "persisted X m'"
    using core_stored [OF _ _ _ first_unseen [OF f h] c first_storable [OF f' nm']] i
    by (simp add: first_stored_def)
  then show "first_stored X ht m'" using i f' nm' by (simp add: first_stored_def)
next
  fix m m' :: "'db machine" and h ws
  assume i: "first_stored X ht m" and w: "take_waiting h m = (m', ws)"
  obtain cw where g: "ht GENESIS_HASH = 0" and inv: "chain_inv X ht (repair cw m)"
    using i by (auto simp: first_stored_def first_inv_def)
  have w': "take_waiting h (repair cw m) = (repair cw m', ws)"
    using w by (auto simp: take_waiting_def repair_def split: option.splits)
  have c: "chain_inv X ht (repair cw m') \<and> (\<forall>e\<in>set ws. honest ht (fst e))"
    using chain.waiting [OF inv w'] by simp
  have k: "known m' = known m" "db m' = db m" "blocks m' = blocks m"
    using w by (auto simp: take_waiting_def known_def split: option.splits)
  have "first_inv X ht m'" using c g unfolding first_inv_def by blast
  then show "first_stored X ht m' \<and> (\<forall>e\<in>set ws. honest ht (fst e))"
    using c i k by (simp add: first_stored_def names_ok_def persisted_def)
next
  fix m :: "'db machine" and b
  assume i: "first_stored X ht m"
  obtain cw where g: "ht GENESIS_HASH = 0" and inv: "chain_inv X ht (repair cw m)"
    using i by (auto simp: first_stored_def first_inv_def)
  have "forget_orphan b (repair cw m) = repair cw (forget_orphan b m)" by (simp add: forget_orphan_def repair_def)
  then have c: "chain_inv X ht (repair cw (forget_orphan b m))" using chain.forget [OF inv, of b] by simp
  have k: "known (forget_orphan b m) = known m" "db (forget_orphan b m) = db m" "blocks (forget_orphan b m) = blocks m"
    by (rule known_cong) (simp_all add: forget_orphan_def)
  have "first_inv X ht (forget_orphan b m)" using c g unfolding first_inv_def by blast
  then show "first_stored X ht (forget_orphan b m)"
    using i k by (simp add: first_stored_def names_ok_def persisted_def)
qed

lemma stored_first: "ht GENESIS_HASH = 0 \<Longrightarrow> stored_inv X ht m \<Longrightarrow> first_stored X ht m"
  by (simp add: stored_inv_def first_stored_def chain_first_inv)

end
