(* ===== verification/Restart_Props.thy ===== *)
theory Restart_Props
  imports First_Run Protocol
begin

text \<open>
  What a restart finds. \<open>run_on X ht d first m\<close> follows a node from the store \<open>d\<close> it opened, its
  first run included; the reload of its store reads back its canonical chain, whatever writes failed
  on the way.
\<close>

section \<open>The reload loop\<close>

text \<open>What the loop makes of a list of blocks.\<close>

fun reload_blocks :: "block list \<Rightarrow> u128 \<Rightarrow> 'db chain_state \<Rightarrow> 'db chain_state" where
  "reload_blocks [] cw g = g"
| "reload_blocks (b # bs) cw g =
     reload_blocks bs (cw + ucast (difficulty (header b)))
       (g\<lparr>seen_blocks := insert (block_hash b) (seen_blocks g),
          canon_index := (canon_index g)(block_hash b \<mapsto> number (header b)),
          cumulative_work := (cumulative_work g)(block_hash b \<mapsto> cw + ucast (difficulty (header b))),
          blocks := blocks g @ [b]\<rparr>)"

lemma reload_keeps:
  "blocks (reload_blocks bs cw g) = blocks g @ bs" "db (reload_blocks bs cw g) = db g"
  "seen_blocks (reload_blocks bs cw g) = seen_blocks g \<union> block_hash ` set bs"
  "balances (reload_blocks bs cw g) = balances g" "nonces (reload_blocks bs cw g) = nonces g"
  "side_blocks (reload_blocks bs cw g) = side_blocks g" "orphan_pool (reload_blocks bs cw g) = orphan_pool g"
  by (induction bs arbitrary: cw g) auto

lemma load_canon_step_stored:
  assumes v: "db_view X (db g) v" and c: "bincode_block_laws X" "valid_str (block_hash b)"
    "v (height_key (number (header b))) = Some (as_bytes (block_hash b))"
    "v (block_key (block_hash b)) = Some (bincode_block X b)"
  shows "load_canon_step X (number (header b)) cw g = Inr (cw + ucast (difficulty (header b)),
     g\<lparr>seen_blocks := insert (block_hash b) (seen_blocks g),
       canon_index := (canon_index g)(block_hash b \<mapsto> number (header b)),
       cumulative_work := (cumulative_work g)(block_hash b \<mapsto> cw + ucast (difficulty (header b))),
       blocks := blocks g @ [b]\<rparr>)"
proof -
  have k: "sled_get X (db g) k = Some (v k)" for k using v by (simp add: db_view_def)
  have "load_height_index X g (number (header b)) = Inr (Some (block_hash b))"
    using c by (simp add: load_height_index_def load_utf8_def k from_utf8_as_bytes)
  moreover have "load_block X g (block_hash b) = Inr (Some b)"
    using c by (simp add: load_block_def k bincode_block_laws_def)
  ultimately show ?thesis by (simp add: load_canon_step_def Let_def)
qed

lemma load_canon_loop_stored:
  assumes "bincode_block_laws X" "db_view X (db g) v"
    "\<forall>b\<in>set bs. valid_str (block_hash b)
       \<and> v (height_key (number (header b))) = Some (as_bytes (block_hash b))
       \<and> v (block_key (block_hash b)) = Some (bincode_block X b)"
  shows "load_canon_loop X (map (\<lambda>b. number (header b)) bs) cw g = (reload_blocks bs cw g, Inr ())"
  using assms(2,3)
proof (induction bs arbitrary: cw g)
  case (Cons b bs)
  have s: "load_canon_step X (number (header b)) cw g = Inr (cw + ucast (difficulty (header b)),
     g\<lparr>seen_blocks := insert (block_hash b) (seen_blocks g),
       canon_index := (canon_index g)(block_hash b \<mapsto> number (header b)),
       cumulative_work := (cumulative_work g)(block_hash b \<mapsto> cw + ucast (difficulty (header b))),
       blocks := blocks g @ [b]\<rparr>)"
    by (rule load_canon_step_stored [OF Cons.prems(1) assms(1)]) (use Cons.prems(2) in auto)
  show ?case using Cons.IH Cons.prems by (simp add: s)
qed simp

lemma chain_numbers:
  assumes "chain_inv X ht m"
  shows "heights_upto (number (header (last (blocks m)))) = map (\<lambda>b. number (header b)) (blocks m)"
proof -
  have ne: "blocks m \<noteq> []" using assms by (simp add: chain_inv_def linked_def)
  have last: "Suc (unat (number (header (last (blocks m))))) = length (blocks m)"
    using chain_heights [OF assms, of "length (blocks m) - 1"] ne by (simp add: last_conv_nth)
  have "word_of_nat i = number (header (blocks m ! i))" if "i < length (blocks m)" for i
    using arg_cong [OF chain_heights [OF assms that], where f = "word_of_nat :: nat \<Rightarrow> u64"] by simp
  then show ?thesis unfolding heights_upto_def last by (intro nth_equalityI) simp_all
qed

lemma open_stored:
  assumes c: "bincode_block_laws X" and v: "db_view X d v" "stored_chain X v bs"
    and hs: "heights_upto (number (header (last bs))) = map (\<lambda>b. number (header b)) bs"
  shows "open_with_genesis X d = Inr (reload_blocks bs 0 (empty_chain d))"
proof -
  let ?tip = "number (header (last bs))"
  have e: "db (empty_chain d) = d" by (simp add: empty_chain_def)
  have t: "sled_get X d (meta_key ''tip_height'') = Some (Some (as_bytes (u64_to_string ?tip)))"
    "from_utf8 (as_bytes (u64_to_string ?tip)) = Some (u64_to_string ?tip)"
    using v by (simp_all add: db_view_def stored_chain_def from_utf8_as_bytes)
  have "load_canon_loop X (map (\<lambda>b. number (header b)) bs) 0 (empty_chain d)
      = (reload_blocks bs 0 (empty_chain d), Inr ())"
    by (rule load_canon_loop_stored [OF c]) (use v in \<open>unfold stored_chain_def e, blast+\<close>)
  then show ?thesis
    using t hs by (simp add: open_with_genesis_def load_meta_def load_utf8_def load_canon_chain_def e parse_u64_to_string)
qed

section \<open>What the loop enters for each block\<close>

lemma reload_work_other:
  "h \<notin> block_hash ` set bs \<Longrightarrow> cumulative_work (reload_blocks bs cw g) h = cumulative_work g h"
  by (induction bs arbitrary: cw g) auto

definition work_sum :: "block list \<Rightarrow> nat \<Rightarrow> u128" where
  "work_sum bs i = (\<Sum>b\<leftarrow>take (Suc i) bs. ucast (difficulty (header b)))"

lemma reload_work:
  "distinct (map block_hash bs) \<Longrightarrow> i < length bs \<Longrightarrow>
     cumulative_work (reload_blocks bs cw g) (block_hash (bs ! i))
       = Some (cw + work_sum bs i)"
proof (induction bs arbitrary: cw g i)
  case (Cons b bs)
  then show ?case by (cases i) (simp_all add: reload_work_other work_sum_def add.assoc)
qed simp

lemma reload_index:
  "distinct (map block_hash bs) \<Longrightarrow> canon_index (reload_blocks bs cw g) = canon_index g ++ height_index bs"
proof (induction bs arbitrary: cw g)
  case (Cons b bs)
  have "block_hash b \<notin> dom (height_index bs)"
    using Cons.prems by (auto simp: height_index_def dom_map_of_conv_image_fst image_iff)
  then have "(canon_index g)(block_hash b \<mapsto> number (header b)) ++ height_index bs
      = canon_index g ++ (height_index bs)(block_hash b \<mapsto> number (header b))"
    by (simp only: map_add_upd_left map_add_upd not_False_eq_True)
  moreover have "height_index (b # bs) = (height_index bs)(block_hash b \<mapsto> number (header b))"
    by (simp add: height_index_def)
  ultimately show ?case using Cons by (simp del: fun_upd_apply)
qed (simp add: height_index_def)

lemma known_nth: "chain_inv X ht m \<Longrightarrow> i < length (blocks m) \<Longrightarrow> known m (block_hash (blocks m ! i)) = Some (blocks m ! i)"
  by (rule known_canonical) (simp_all add: chain_inv_def)

lemma entered_work:
  assumes "chain_inv X ht m" "known m h = Some b"
  obtains w where "cumulative_work m h = Some w" "w = (if number (header b) = 0 then 0
      else work_at m (parent_hash (header b))) + ucast (difficulty (header b))"
proof -
  obtain w where w: "cumulative_work m h = Some w" "unat w = (if number (header b) = 0 then 0
      else unat (work_at m (parent_hash (header b)))) + unat (difficulty (header b))"
    using assms unfolding chain_inv_def known_ok_def by blast
  have "w = (if number (header b) = 0 then 0 else work_at m (parent_hash (header b))) + ucast (difficulty (header b))"
    using arg_cong [OF w(2), where f = "word_of_nat :: nat \<Rightarrow> u128"] by (cases "number (header b) = 0") simp_all
  then show ?thesis using w(1) that by blast
qed

lemma work_sum_0: "bs \<noteq> [] \<Longrightarrow> work_sum bs 0 = ucast (difficulty (header (bs ! 0)))"
  by (cases bs) (simp_all add: work_sum_def)

lemma work_sum_Suc:
  "Suc i < length bs \<Longrightarrow> work_sum bs (Suc i) = work_sum bs i + ucast (difficulty (header (bs ! Suc i)))"
  by (simp add: work_sum_def take_Suc_conv_app_nth [of "Suc i"] del: take_Suc_Cons)

lemma chain_work:
  assumes inv: "chain_inv X ht m" and i: "i < length (blocks m)"
  shows "cumulative_work m (block_hash (blocks m ! i)) = Some (work_sum (blocks m) i)"
  using i
proof (induction i)
  case (0)
  have k: "known m (block_hash (blocks m ! 0)) = Some (blocks m ! 0)" by (rule known_nth [OF inv 0])
  have n: "number (header (blocks m ! 0)) = 0"
    using chain_heights [OF inv 0] by (simp only: unat_eq_zero)
  have ne: "blocks m \<noteq> []" using 0 by blast
  obtain w where w: "cumulative_work m (block_hash (blocks m ! 0)) = Some w"
    "w = (if number (header (blocks m ! 0)) = 0 then 0
      else work_at m (parent_hash (header (blocks m ! 0)))) + ucast (difficulty (header (blocks m ! 0)))"
    by (rule entered_work [OF inv k])
  show ?case unfolding w(1) work_sum_0 [OF ne] using w(2) n by simp
next
  case (Suc i)
  let ?b = "blocks m ! Suc i"
  have k: "known m (block_hash ?b) = Some ?b" by (rule known_nth [OF inv Suc.prems])
  have p: "parent_hash (header ?b) = block_hash (blocks m ! i)" "number (header ?b) \<noteq> 0"
    using inv Suc.prems unfolding chain_inv_def linked_def by blast+
  have "work_at m (parent_hash (header ?b)) = work_sum (blocks m) i"
    unfolding work_at_def p(1) using Suc.IH Suc.prems by simp
  moreover obtain w where w: "cumulative_work m (block_hash ?b) = Some w"
    "w = (if number (header ?b) = 0 then 0 else work_at m (parent_hash (header ?b))) + ucast (difficulty (header ?b))"
    by (rule entered_work [OF inv k])
  ultimately show ?case unfolding w(1) work_sum_Suc [OF Suc.prems] using p(2) by simp
qed

section \<open>The first start\<close>

lemma genesis_name: "valid_str GENESIS_HASH"
  by (rule valid_str_ascii) code_simp

lemma genesis_heights: "heights_upto (number (header (last [genesis_block]))) = map (\<lambda>b. number (header b)) [genesis_block]"
  by (simp add: heights_upto_def)

text \<open>What the bootstrap of an empty store leaves behind, in the store and in memory.\<close>

lemma bootstrap_fresh:
  assumes laws: "sled_laws X" and d: "db_view X d Map.empty"
    and b: "bootstrap_chain X (empty_chain d) = (g1, Inr ())"
  obtains v where "db_view X (db g1) v" "stored_chain X v [genesis_block]"
    "v (meta_key ''genesis_hash'') = Some (as_bytes GENESIS_HASH)"
    "g1 = (empty_chain (db g1))\<lparr>blocks := [genesis_block], canon_index := [GENESIS_HASH \<mapsto> 0]\<rparr>"
proof -
  have e: "db (empty_chain d) = d" by (simp add: empty_chain_def)
  have none: "load_meta X (empty_chain d) ''genesis_hash'' = Inr None"
    using d by (simp add: load_meta_def load_utf8_def e db_view_def)
  obtain d1 where i1: "sled_insert X d (block_key GENESIS_HASH) (bincode_block X genesis_block) = (d1, True)"
    using b none by (auto simp: bootstrap_chain_def store_block_def e split: if_splits prod.splits bool.splits)
  note v1 = sled_put [OF laws d i1, simplified]
  obtain d2 where i2: "sled_insert X d1 (height_key 0) (as_bytes GENESIS_HASH) = (d2, True)"
    using b none i1 by (auto simp: bootstrap_chain_def store_block_def store_height_index_def e
        split: if_splits prod.splits bool.splits)
  note v2 = sled_put [OF laws v1 i2, simplified]
  have t: "sled_get X d2 (meta_key ''tip_height'') = Some None" using v2 by (simp add: db_view_def)
  obtain d3 where i3: "sled_insert X d2 (meta_key ''tip_height'') (as_bytes (u64_to_string 0)) = (d3, True)"
    using b none i1 i2 t by (auto simp: bootstrap_chain_def store_block_def store_height_index_def e
        split: if_splits prod.splits bool.splits)
  note v3 = sled_put [OF laws v2 i3, simplified]
  obtain d4 where i4: "sled_insert X d3 (meta_key ''tip_hash'') (as_bytes GENESIS_HASH) = (d4, True)"
    using b none i1 i2 t i3 by (auto simp: bootstrap_chain_def store_block_def store_height_index_def e
        split: if_splits prod.splits bool.splits)
  note v4 = sled_put [OF laws v3 i4, simplified]
  obtain d5 where i5: "sled_insert X d4 (meta_key ''genesis_hash'') (as_bytes GENESIS_HASH) = (d5, True)"
    and g1: "g1 = (empty_chain d5)\<lparr>blocks := [genesis_block], canon_index := [GENESIS_HASH \<mapsto> 0]\<rparr>"
    using b none i1 i2 t i3 i4 by (auto simp: bootstrap_chain_def store_block_def store_height_index_def store_meta_def e
        empty_chain_def split: if_splits prod.splits bool.splits)
  note v5 = sled_put [OF laws v4 i5, simplified]
  have "db g1 = d5" by (simp add: g1 empty_chain_def)
  then show ?thesis
    by (intro that [OF v5 [folded \<open>db g1 = d5\<close>]]) (simp_all add: stored_chain_def genesis_name g1)
qed

text \<open>Opening the store again gives the state a replayed genesis would have.\<close>

lemma reopened_fresh:
  assumes "sled_laws X" "bincode_block_laws X" "db_view X d Map.empty" "bootstrap_chain X (empty_chain d) = (g1, Inr ())"
  obtains g where "open_with_genesis X (db g1) = Inr g"
    "chain_state.extend g (machine.fields [] {} dc_empty ck 0) = genesis_machine (db g1) ck"
    "bootstrap_chain X g = (g, Inr ())"
proof -
  obtain v where v: "db_view X (db g1) v" "stored_chain X v [genesis_block]"
    "v (meta_key ''genesis_hash'') = Some (as_bytes GENESIS_HASH)"
    by (rule bootstrap_fresh [OF assms(1,3,4)])
  let ?g = "reload_blocks [genesis_block] 0 (empty_chain (db g1))"
  have o: "open_with_genesis X (db g1) = Inr ?g" by (rule open_stored [OF assms(2) v(1,2) genesis_heights])
  have m: "chain_state.extend ?g (machine.fields [] {} dc_empty ck 0) = genesis_machine (db g1) ck"
    by (simp add: genesis_machine_def push_canonical_def start_machine_def empty_chain_def chain_state.defs machine.defs)
  have "validate_genesis_hash X" using assms(4) by (auto simp: bootstrap_chain_def split: if_splits)
  moreover have "load_meta X ?g ''genesis_hash'' = Inr (Some GENESIS_HASH)"
    using v by (simp add: load_meta_def load_utf8_def db_view_def reload_keeps empty_chain_def from_utf8_as_bytes genesis_name)
  ultimately have "bootstrap_chain X ?g = (?g, Inr ())"
    by (simp add: bootstrap_chain_def verify_stored_genesis_def)
  then show ?thesis using that o m by blast
qed

section \<open>Runs on a store\<close>

text \<open>A node on the store \<open>d\<close>: in its first run, right after the bootstrap of the empty store
  (\<open>first\<close> is true), after the second start of a node whose first start bootstrapped \<open>d\<close>, or after
  the genesis block was applied; then one block after the other.\<close>

inductive run_on :: "('db, 'x) ext_scheme \<Rightarrow> (string \<Rightarrow> nat) \<Rightarrow> 'db \<Rightarrow> bool \<Rightarrow> 'db machine \<Rightarrow> bool"
  for X :: "('db, 'x) ext_scheme" and ht :: "string \<Rightarrow> nat" and d :: 'db where
  run_first:
    "ht GENESIS_HASH = 0 \<Longrightarrow> bootstrap_chain X (empty_chain d) = (g1, Inr ()) \<Longrightarrow>
     run_on X ht d True (chain_state.extend g1 (machine.fields [] {} dc_empty ck 0))"
| run_restarted:
    "ht GENESIS_HASH = 0 \<Longrightarrow> bootstrap_chain X (empty_chain d) = (g1, Inr ()) \<Longrightarrow>
     open_with_genesis X (db g1) = Inr g \<Longrightarrow>
     run_on X ht d False (chain_state.extend g (machine.fields [] {} dc_empty ck 0))"
| run_genesis:
    "ht GENESIS_HASH = 0 \<Longrightarrow>
     apply_block X genesis_block src (start_machine d ck) = Ret (m, CanonExtension 0) \<Longrightarrow> run_on X ht d False m"
| run_block:
    "run_on X ht d first m \<Longrightarrow> honest ht blk \<Longrightarrow> apply_block X blk src m = Ret (m', r) \<Longrightarrow> run_on X ht d first m'"

lemma genesis_machine_stored:
  assumes "sled_laws X" "hex_laws X" "ht GENESIS_HASH = 0" "db_view X d v" "stored_chain X v [genesis_block]"
  shows "stored_inv X ht (genesis_machine d ck)"
proof -
  have f: "blocks (genesis_machine d ck) = [genesis_block]" "db (genesis_machine d ck) = d"
    by (simp_all add: genesis_machine_def push_canonical_def)
  have "persisted X (genesis_machine d ck)" using assms(4,5) by (auto simp: persisted_def f)
  moreover have "names_ok (genesis_machine d ck)"
    by (simp add: names_ok_def known_def genesis_machine_def push_canonical_def block_index_def genesis_name)
  ultimately show ?thesis using assms genesis_machine_inv [of ht X d ck] by (simp add: stored_inv_def)
qed

lemma first_machine_stored:
  assumes laws: "sled_laws X" "hex_laws X" and g: "ht GENESIS_HASH = 0" and d: "db_view X d Map.empty"
    and b: "bootstrap_chain X (empty_chain d) = (g1, Inr ())"
  shows "first_stored X ht (chain_state.extend g1 (machine.fields [] {} dc_empty ck 0))"
proof -
  obtain v where v: "db_view X (db g1) v" "stored_chain X v [genesis_block]"
    and g1: "g1 = (empty_chain (db g1))\<lparr>blocks := [genesis_block], canon_index := [GENESIS_HASH \<mapsto> 0]\<rparr>"
    by (rule bootstrap_fresh [OF laws(1) d b])
  let ?m = "chain_state.extend g1 (machine.fields [] {} dc_empty ck 0)" and ?M = "genesis_machine (db g1) ck"
  have f: "blocks ?m = [genesis_block]" "canon_index ?m = [GENESIS_HASH \<mapsto> 0]" "side_blocks ?m = []"
    "seen_blocks ?m = {}" "balances ?m = []" "nonces ?m = []" "orphan_pool ?m = []" "ds_cache ?m = dc_empty"
    "db ?m = db g1"
    by (subst g1, simp add: empty_chain_def chain_state.defs machine.defs)+
  have m: "blocks ?M = [genesis_block]" "canon_index ?M = [GENESIS_HASH \<mapsto> 0]" "side_blocks ?M = []"
    "seen_blocks ?M = {GENESIS_HASH}" "balances ?M = []" "nonces ?M = []" "orphan_pool ?M = []" "ds_cache ?M = dc_empty"
    by (simp_all add: genesis_machine_def push_canonical_def)
  have inv: "chain_inv X ht ?M" using g by (rule genesis_machine_inv)
  have "base_ok ?m \<longleftrightarrow> base_ok ?M" by (simp add: base_ok_def f m)
  then have "base_ok ?m" using inv by (simp add: chain_inv_def)
  then have "first_inv X ht ?m"
    by (intro first_invI [OF g inv]) (simp_all add: f m pool_blocks_def)
  moreover have "known ?m = known ?M" by (rule known_cong) (simp_all add: f m)
  then have "names_ok ?m"
    using genesis_machine_stored [where ht = ht and ck = ck, OF laws g v] by (simp add: stored_inv_def names_ok_def)
  moreover have "persisted X ?m" using v by (auto simp: persisted_def f)
  ultimately show ?thesis using laws by (simp add: first_stored_def)
qed

lemma run_stored:
  assumes laws: "sled_laws X" "hex_laws X" "bincode_block_laws X" and d: "db_view X d Map.empty"
    and r: "run_on X ht d first m"
  shows "first_stored X ht m \<and> (\<not> first \<longrightarrow> stored_inv X ht m)"
  using r
proof (induction rule: run_on.induct)
  case (run_first g1 ck)
  then show ?case using first_machine_stored [where ht = ht and ck = ck, OF laws(1,2) run_first(1) d run_first(2)] by simp
next
  case (run_genesis src ck m)
  then obtain d' where b: "sled_apply_batch X d (extension_batch X genesis_block) = (d', True)"
    and m: "m = genesis_machine d' ck"
    by (auto simp: apply_genesis_block split: prod.splits bool.splits)
  have "db_view X d' (foldl batch_effect Map.empty (extension_batch X genesis_block))"
    using sled_batch [OF laws(1) d b] by simp
  moreover have "stored_chain X (foldl batch_effect Map.empty (extension_batch X genesis_block)) ([] @ [genesis_block])"
    by (rule stored_extension) (simp_all add: genesis_name)
  ultimately have "stored_inv X ht m"
    unfolding m using genesis_machine_stored [where ht = ht, OF laws(1,2) run_genesis(1)] by simp
  then show ?case using stored_first [where ht = ht, OF run_genesis(1)] by blast
next
  case (run_restarted g1 g ck)
  obtain v where v: "db_view X (db g1) v" "stored_chain X v [genesis_block]"
    by (rule bootstrap_fresh [OF laws(1) d run_restarted(2)])
  obtain g' where "open_with_genesis X (db g1) = Inr g'"
    "chain_state.extend g' (machine.fields [] {} dc_empty ck 0) = genesis_machine (db g1) ck"
    by (rule reopened_fresh [OF laws(1,3) d run_restarted(2)])
  then have "chain_state.extend g (machine.fields [] {} dc_empty ck 0) = genesis_machine (db g1) ck"
    using run_restarted(3) by simp
  then have "stored_inv X ht (chain_state.extend g (machine.fields [] {} dc_empty ck 0))"
    using genesis_machine_stored [where ht = ht, OF laws(1,2) run_restarted(1) v] by simp
  then show ?case using stored_first [where ht = ht, OF run_restarted(1)] by blast
next
  case (run_block first m blk m' src r)
  then show ?case using stored.apply_block_inv first.apply_block_inv by blast
qed

section \<open>What a restart finds\<close>

lemma first_chain:
  assumes "first_inv X ht m"
  obtains cw where "chain_inv X ht (repair cw m)"
    "heights_upto (number (header (last (blocks m)))) = map (\<lambda>b. number (header b)) (blocks m)"
    "distinct (map block_hash (blocks m))" "canon_index m = height_index (blocks m)"
proof -
  obtain cw where inv: "chain_inv X ht (repair cw m)" using assms by (auto simp: first_inv_def)
  show thesis
    by (rule that [OF inv]) (use chain_numbers [OF inv] inv in \<open>simp_all add: chain_inv_def index_ok_def\<close>)
qed


text \<open>C37: the first start of a node counts its chain one unit of work too light. On an empty store the
  bootstrap puts the genesis block into the chain without entering its work or marking it seen, while
  a restart of the same node enters both; so the node advertises more work after the restart, for
  the same single block.\<close>

theorem first_start_misses_genesis_work:
  assumes laws: "sled_laws X" "bincode_block_laws X" and d: "db_view X d Map.empty"
    and b: "bootstrap_chain X (empty_chain d) = (g1, Inr ())"
  shows "\<exists>g2. open_with_genesis X (db g1) = Inr g2 \<and> bootstrap_chain X g2 = (g2, Inr ())
    \<and> blocks g1 = [genesis_block] \<and> blocks g2 = [genesis_block]
    \<and> sum_work (summary_from_chain g1) = 0 \<and> sum_work (summary_from_chain g2) = 1
    \<and> seen_blocks g1 = {} \<and> seen_blocks g2 = {GENESIS_HASH}"
proof -
  obtain v where g1: "g1 = (empty_chain (db g1))\<lparr>blocks := [genesis_block], canon_index := [GENESIS_HASH \<mapsto> 0]\<rparr>"
    by (rule bootstrap_fresh [OF laws(1) d b])
  obtain g where g: "open_with_genesis X (db g1) = Inr g"
    "chain_state.extend g (machine.fields [] {} dc_empty (\<lambda>_. 0) 0) = genesis_machine (db g1) (\<lambda>_. 0)"
    "bootstrap_chain X g = (g, Inr ())"
    by (rule reopened_fresh [OF laws d b])
  have "chain_state.truncate (chain_state.extend g (machine.fields [] {} dc_empty (\<lambda>_. 0) 0))
      = chain_state.truncate (genesis_machine (db g1) (\<lambda>_. 0))" using g(2) by simp
  then have gg: "g = chain_state.truncate (genesis_machine (db g1) (\<lambda>_. 0))"
    by (simp add: chain_state.defs)
  have "blocks g = [genesis_block]" "seen_blocks g = {GENESIS_HASH}" "sum_work (summary_from_chain g) = 1"
    unfolding gg by (simp_all add: chain_state.defs genesis_machine_def push_canonical_def summary_from_chain_def tip_hash_def)
  moreover have "blocks g1 = [genesis_block]" "seen_blocks g1 = {}" "sum_work (summary_from_chain g1) = 0"
    by (subst g1, simp add: empty_chain_def summary_from_chain_def tip_hash_def)+
  ultimately show ?thesis using g by blast
qed

text \<open>A hash function under which the genesis header hashes to its constant.\<close>

definition named_ext :: "ref_db ext" where
  "named_ext = ref_ext\<lparr>blake3 := (\<lambda>_. the (ref_hex_decode GENESIS_HASH))\<rparr>"

lemma named_laws: "sled_laws named_ext" "bincode_block_laws named_ext" "db_view named_ext [] Map.empty"
  using ref_sled_laws ref_bincode_block_laws ref_db_view [of "[]" Map.empty]
  by (simp_all add: named_ext_def sled_laws_def bincode_block_laws_def db_view_def)

lemma named_genesis: "validate_genesis_hash named_ext"
proof -
  have "ref_hex_encode (the (ref_hex_decode GENESIS_HASH)) = GENESIS_HASH" by code_simp
  then show ?thesis
    by (simp add: validate_genesis_hash_def compute_genesis_pow_hash_def compute_hash_def named_ext_def ref_ext_def)
qed

lemma named_ops: "sled_insert named_ext d k x = (ref_batch (BatchInsert k x) d, True)"
    "sled_get named_ext d k = Some (map_of d k)"
  by (simp_all add: named_ext_def ref_ext_def)

lemma named_index: "snd (store_height_index named_ext h s g)"
  by (simp add: store_height_index_def named_ops Let_def)

lemma named_bootstrap: "\<exists>g1. bootstrap_chain named_ext (empty_chain []) = (g1, Inr ())"
proof -
  have none: "load_meta named_ext (empty_chain []) ''genesis_hash'' = Inr None"
    by (simp add: load_meta_def load_utf8_def named_ops empty_chain_def)
  obtain g1 where 1: "store_block named_ext genesis_block (empty_chain []) = (g1, True)"
    by (simp add: store_block_def named_ops)
  obtain g2 where 2: "store_height_index named_ext 0 (block_hash genesis_block) g1 = (g2, True)"
    by (metis named_index prod.collapse)
  obtain g3 where 3: "store_meta named_ext ''genesis_hash'' (block_hash genesis_block) g2 = (g3, True)"
    by (simp add: store_meta_def named_ops)
  show ?thesis unfolding bootstrap_chain_def none 1 2 3 prod.case bool.case sum.case option.case
    by (simp add: named_genesis)
qed

theorem first_start_misses_genesis_work_witness:
  "\<exists>g1 g2. bootstrap_chain named_ext (empty_chain []) = (g1, Inr ()) \<and> open_with_genesis named_ext (db g1) = Inr g2
    \<and> blocks g2 = blocks g1 \<and> sum_work (summary_from_chain g1) = 0 \<and> sum_work (summary_from_chain g2) = 1"
proof -
  obtain g1 where g1: "bootstrap_chain named_ext (empty_chain []) = (g1, Inr ())" using named_bootstrap by blast
  show ?thesis using first_start_misses_genesis_work [OF named_laws g1] g1 by metis
qed


end
