(* ===== verification/Node_Api.thy ===== *)
theory Node_Api
  imports Mempool Miner_Manager Recovery Peer_Manager Snapshots
begin

text \<open>
  The operations behind the HTTP interface, \<open>api/state.rs\<close> and \<open>api/transactions.rs\<close>:
  the read-only snapshots, the submission of a transaction with the table of error codes it answers
  with, and the local funding endpoint of \<open>api/alpha.rs\<close>. Routing and JSON belong to the web
  framework: a body is given as the transaction it decodes to, if it does.
\<close>

section \<open>Read-only snapshots\<close>

record mining_status =
  ms_available :: bool
  ms_active :: bool
  ms_blocks_found :: u64
  ms_recovery_state :: string
  ms_paused_reason :: "string option"

definition mining_unavailable :: mining_status where
  "mining_unavailable =
     \<lparr>ms_available = False, ms_active = False, ms_blocks_found = 0, ms_recovery_state = ''normal'',
      ms_paused_reason = None\<rparr>"

definition mining_status_of :: "miner_manager option \<Rightarrow> recovery_state \<Rightarrow> mining_status" where
  "mining_status_of mm rs =
     (case mm of
        None \<Rightarrow> mining_unavailable
      | Some mgr \<Rightarrow>
          \<lparr>ms_available = True, ms_active = (is_mining mgr \<and> \<not> should_pause_mining rs),
           ms_blocks_found = fst (mining_stats mgr), ms_recovery_state = rs_state (recovery_snapshot_of rs),
           ms_paused_reason = rs_reason (recovery_snapshot_of rs)\<rparr>)"

record node_status =
  ns_version :: string
  ns_tip_height :: u64
  ns_tip_hash :: string
  ns_root_height :: "u64 option"
  ns_root :: "string option"
  ns_mempool_size :: nat
  ns_peer_count :: nat
  ns_counts :: peer_counts_report
  ns_mining :: mining_status
  ns_recovery :: recovery_snapshot

definition status_snapshot ::
  "('db, 'm) chain_state_scheme \<Rightarrow> pool \<Rightarrow> peer_registry option \<Rightarrow> miner_manager option \<Rightarrow> recovery_state \<Rightarrow> node_status" where
  "status_snapshot g p peers mm rs =
     \<lparr>ns_version = NODE_VERSION, ns_tip_height = current_height g, ns_tip_hash = tip_hash g,
      ns_root_height = map_option fst (cached_state_root g), ns_root = map_option snd (cached_state_root g),
      ns_mempool_size = pool_len p,
      ns_peer_count = (case peers of None \<Rightarrow> 0 | Some r \<Rightarrow> connected_count (registry_values r)),
      ns_counts = (case peers of
          None \<Rightarrow> \<lparr>durable_peers = 0, active_inbound_sessions = 0, active_outbound_sessions = 0,
                   transient_connections = 0, dialable_peers = 0\<rparr>
        | Some r \<Rightarrow> peer_counts (registry_values r)),
      ns_mining = mining_status_of mm rs, ns_recovery = recovery_snapshot_of rs\<rparr>"

record mining_info =
  mi_enabled :: bool
  mi_height :: u64
  mi_difficulty :: u64
  mi_epoch :: "u64 option"
  mi_active :: bool
  mi_recovery_state :: string
  mi_paused_reason :: "string option"

definition mining_info_snapshot ::
  "('db, 'm) chain_state_scheme \<Rightarrow> miner_manager option \<Rightarrow> recovery_state \<Rightarrow> mining_info" where
  "mining_info_snapshot g mm rs =
     \<lparr>mi_enabled = (mm \<noteq> None), mi_height = current_height g, mi_difficulty = cs_difficulty g,
      mi_epoch = epoch_of VISIONX_PARAMS (current_height g),
      mi_active = ((case mm of None \<Rightarrow> False | Some mgr \<Rightarrow> is_mining mgr) \<and> \<not> should_pause_mining rs),
      mi_recovery_state = rs_state (recovery_snapshot_of rs),
      mi_paused_reason = rs_reason (recovery_snapshot_of rs)\<rparr>"

text \<open>Existence and value of an account.\<close>

definition balance_snapshot :: "string \<Rightarrow> ('db, 'm) chain_state_scheme \<Rightarrow> bool \<times> u128" where
  "balance_snapshot a g = (bt_lookup (balances g) a \<noteq> None, balance_of g a)"

definition nonce_snapshot :: "string \<Rightarrow> ('db, 'm) chain_state_scheme \<Rightarrow> bool \<times> u64" where
  "nonce_snapshot a g = (bt_lookup (nonces g) a \<noteq> None, nonce_of g a)"

record tx_lookup =
  tl_block_hash :: "string option"
  tl_block_height :: "nat option"
  tl_index :: "nat option"
  tl_tx :: tx

fun find_in_block :: "('db, 'x) ext_scheme \<Rightarrow> string \<Rightarrow> nat \<Rightarrow> tx list \<Rightarrow> (nat \<times> tx) option" where
  "find_in_block X i k [] = None"
| "find_in_block X i k (t # ts) = (if canonical_tx_id X t = i then Some (k, t) else find_in_block X i (k + 1) ts)"

fun find_in_chain :: "('db, 'x) ext_scheme \<Rightarrow> string \<Rightarrow> nat \<Rightarrow> block list \<Rightarrow> tx_lookup option" where
  "find_in_chain X i h [] = None"
| "find_in_chain X i h (b # bs) =
     (case find_in_block X i 0 (txs b) of
        Some (k, t) \<Rightarrow>
          Some \<lparr>tl_block_hash = Some (block_hash b), tl_block_height = Some h, tl_index = Some k, tl_tx = t\<rparr>
      | None \<Rightarrow> find_in_chain X i (h + 1) bs)"

definition transaction_snapshot ::
  "('db, 'x) ext_scheme \<Rightarrow> string \<Rightarrow> ('db, 'm) chain_state_scheme \<Rightarrow> pool \<Rightarrow> tx_lookup option" where
  "transaction_snapshot X i g p =
     (case find_in_chain X i 0 (blocks g) of
        Some r \<Rightarrow> Some r
      | None \<Rightarrow>
          map_option (\<lambda>t. \<lparr>tl_block_hash = None, tl_block_height = None, tl_index = None, tl_tx = t\<rparr>) (pool_get p i))"

section \<open>Submission\<close>

datatype submission_result =
    SubmissionAccepted string u64 admission_decision
  | SubmissionRejected string u64 mempool_admission_error

definition submit_transaction ::
  "('db, 'x) ext_scheme \<Rightarrow> ('db, 'm) chain_state_scheme \<Rightarrow> pool \<Rightarrow> tx \<Rightarrow> pool \<times> submission_result" where
  "submit_transaction X g p t =
     (let tx_id = canonical_tx_id X t; current_nonce = nonce_of g (sender_pubkey t)
      in case admit X t current_nonce p of
           (p', Inr d) \<Rightarrow> (p', SubmissionAccepted tx_id current_nonce d)
         | (p', Inl e) \<Rightarrow> (p', SubmissionRejected tx_id current_nonce e))"

record http_error =
  he_code :: string
  he_message :: string

fun tx_signature_error_http :: "tx_signature_error \<Rightarrow> http_error" where
  "tx_signature_error_http SenderPubkeyWrongLength =
     \<lparr>he_code = ''sender_pubkey_wrong_length'', he_message = ''sender_pubkey must be 64 lowercase hex characters''\<rparr>"
| "tx_signature_error_http SenderPubkeyNotLowercaseHex =
     \<lparr>he_code = ''sender_pubkey_not_lowercase_hex'', he_message = ''sender_pubkey must be lowercase hex''\<rparr>"
| "tx_signature_error_http SignatureWrongLength =
     \<lparr>he_code = ''signature_wrong_length'', he_message = ''sig must be 128 lowercase hex characters''\<rparr>"
| "tx_signature_error_http SignatureNotLowercaseHex =
     \<lparr>he_code = ''signature_not_lowercase_hex'', he_message = ''sig must be lowercase hex''\<rparr>"
| "tx_signature_error_http MalformedPublicKey =
     \<lparr>he_code = ''malformed_public_key'', he_message = ''sender_pubkey is not a valid Ed25519 public key''\<rparr>"
| "tx_signature_error_http InvalidSignature =
     \<lparr>he_code = ''invalid_signature'', he_message = ''signature verification failed''\<rparr>"

fun tx_validation_error_http :: "tx_validation_error \<Rightarrow> http_error" where
  "tx_validation_error_http TxTooLarge =
     \<lparr>he_code = ''tx_too_large'', he_message = ''serialized transaction exceeds 64 KiB''\<rparr>"
| "tx_validation_error_http MissingSenderPubkey =
     \<lparr>he_code = ''missing_sender_pubkey'', he_message = ''non-coinbase transactions require sender_pubkey''\<rparr>"
| "tx_validation_error_http MissingSignature =
     \<lparr>he_code = ''missing_signature'', he_message = ''non-coinbase transactions require sig''\<rparr>"
| "tx_validation_error_http UnsupportedModuleMethod =
     \<lparr>he_code = ''unsupported_module_method'', he_message = ''only supported module/method pairs may be submitted''\<rparr>"
| "tx_validation_error_http BadTransferArgs =
     \<lparr>he_code = ''bad_transfer_args'',
      he_message = ''cash::transfer args must decode as the canonical transfer payload''\<rparr>"
| "tx_validation_error_http InvalidTransferDestination =
     \<lparr>he_code = ''invalid_transfer_destination'',
      he_message = ''transfer destination must be a 64-character lowercase hex account key''\<rparr>"
| "tx_validation_error_http TransferAmountZero =
     \<lparr>he_code = ''transfer_amount_zero'', he_message = ''transfer amount must be greater than zero''\<rparr>"
| "tx_validation_error_http TransferToSelf =
     \<lparr>he_code = ''transfer_to_self'', he_message = ''transfer destination must differ from the sender''\<rparr>"
| "tx_validation_error_http FeeLimitTooLow =
     \<lparr>he_code = ''fee_limit_too_low'', he_message = ''fee_limit must be at least 201''\<rparr>"
| "tx_validation_error_http (SignatureError e) = tx_signature_error_http e"

fun transaction_submission_error_http :: "mempool_admission_error \<Rightarrow> http_error" where
  "transaction_submission_error_http (StatelessValidation e) = tx_validation_error_http e"
| "transaction_submission_error_http DuplicateCanonicalTxId =
     \<lparr>he_code = ''duplicate_canonical_tx_id'',
      he_message = ''a transaction with the same canonical tx_id already exists in the mempool''\<rparr>"
| "transaction_submission_error_http (StaleNonce c n) =
     \<lparr>he_code = ''stale_nonce'',
      he_message = ''transaction nonce is behind the sender'' @ [CHR 0x27] @ ''s current canonical nonce''\<rparr>"
| "transaction_submission_error_http (NonceGap c n) =
     \<lparr>he_code = ''nonce_gap'',
      he_message = ''transaction nonce skips ahead of the sender'' @ [CHR 0x27] @ ''s current canonical nonce''\<rparr>"
| "transaction_submission_error_http (DuplicateSenderNonce s n t1 t2) =
     \<lparr>he_code = ''duplicate_sender_nonce'',
      he_message = ''a pending transaction for this sender and nonce already exists''\<rparr>"

text \<open>The answer: status code, status text and the fields of the JSON object that are set.\<close>

record submission_response =
  sr_status_code :: nat
  sr_status :: string
  sr_tx_id :: "string option"
  sr_current_nonce :: "u64 option"
  sr_decision :: "(string \<times> string option) option"
  sr_error :: "http_error option"

definition malformed_submission :: submission_response where
  "malformed_submission =
     \<lparr>sr_status_code = 400, sr_status = ''malformed_request'', sr_tx_id = None, sr_current_nonce = None,
      sr_decision = None,
      sr_error = Some \<lparr>he_code = ''malformed_request'',
        he_message = ''request body must be a canonical signed Tx JSON object''\<rparr>\<rparr>"

fun transaction_admission_decision_http :: "admission_decision \<Rightarrow> string \<times> string option" where
  "transaction_admission_decision_http AdmissionAccept = (''accept'', None)"
| "transaction_admission_decision_http (AdmissionReplace evict) = (''replace'', Some evict)"

fun submission_answer :: "submission_result \<Rightarrow> submission_response" where
  "submission_answer (SubmissionAccepted i n d) =
     \<lparr>sr_status_code = 200, sr_status = ''accepted'', sr_tx_id = Some i, sr_current_nonce = Some n,
      sr_decision = Some (transaction_admission_decision_http d), sr_error = None\<rparr>"
| "submission_answer (SubmissionRejected i n e) =
     \<lparr>sr_status_code = 422, sr_status = ''rejected'', sr_tx_id = Some i, sr_current_nonce = Some n,
      sr_decision = None, sr_error = Some (transaction_submission_error_http e)\<rparr>"

definition submit_transaction_http ::
  "('db, 'x) ext_scheme \<Rightarrow> ('db, 'm) chain_state_scheme \<Rightarrow> pool \<Rightarrow> tx option \<Rightarrow> pool \<times> submission_response" where
  "submit_transaction_http X g p body =
     (case body of
        None \<Rightarrow> (p, malformed_submission)
      | Some t \<Rightarrow> (case submit_transaction X g p t of (p', r) \<Rightarrow> (p', submission_answer r)))"

section \<open>Local funding\<close>

datatype airdrop_error =
    AirdropDisabled | AirdropInvalidAddress | AirdropZeroAmount | AirdropRootFailed | AirdropSnapshotFailed

record airdrop_report =
  ar_address :: string
  ar_amount :: u128
  ar_balance :: u128
  ar_tip_height :: u64
  ar_root :: string

text \<open>Credit, recompute the root and save a snapshot; on failure the balance and the cached root are
  put back. The snapshot error of a failed root comes from the same computation.\<close>

definition alpha_airdrop ::
  "('db, 'x) ext_scheme \<Rightarrow> bool \<Rightarrow> string \<Rightarrow> u128 \<Rightarrow> ('db, 'm) chain_state_scheme
     \<Rightarrow> ('db, 'm) chain_state_scheme \<times> (airdrop_error + airdrop_report)" where
  "alpha_airdrop X enabled a amt g =
     (if \<not> enabled then (g, Inl AirdropDisabled)
      else if length a \<noteq> 64 \<or> \<not> is_lowercase_hex a then (g, Inl AirdropInvalidAddress)
      else if amt = 0 then (g, Inl AirdropZeroAmount)
      else
        (let previous = bt_lookup (balances g) a;
             g1 = credit_balance a amt g;
             h = current_height g1;
             put_back = (\<lambda>x. x\<lparr>balances := (case previous of
                     Some v \<Rightarrow> bt_insert a v (balances x) | None \<Rightarrow> bt_remove a (balances x)),
                   cached_state_root := cached_state_root g\<rparr>)
         in case compute_state_root X (balances g1) (nonces g1) of
              Inl e \<Rightarrow> (put_back g1, Inl AirdropRootFailed)
            | Inr root \<Rightarrow>
                (case save_snapshot X h (g1\<lparr>cached_state_root := Some (h, root)\<rparr>) of
                   (g2, Inl e) \<Rightarrow> (put_back g2, Inl AirdropSnapshotFailed)
                 | (g2, Inr _) \<Rightarrow>
                     (g2, Inr \<lparr>ar_address = a, ar_amount = amt, ar_balance = balance_of g2 a,
                               ar_tip_height = h, ar_root = root\<rparr>))))"

text \<open>Status code and error of a refused grant.\<close>

fun airdrop_error_http :: "airdrop_error \<Rightarrow> nat \<times> http_error" where
  "airdrop_error_http AirdropDisabled = (404, \<lparr>he_code = ''airdrop_disabled'',
     he_message = ''alpha local funding is disabled unless VISION_ALPHA_AIRDROP_ENABLED=true''\<rparr>)"
| "airdrop_error_http AirdropInvalidAddress = (422, \<lparr>he_code = ''invalid_address'',
     he_message = ''address must be a 64-character lowercase hex string''\<rparr>)"
| "airdrop_error_http AirdropZeroAmount = (422, \<lparr>he_code = ''zero_amount'',
     he_message = ''amount must be greater than zero''\<rparr>)"
| "airdrop_error_http AirdropRootFailed = (500, \<lparr>he_code = ''state_root_error'',
     he_message = ''could not recompute canonical state root after funding''\<rparr>)"
| "airdrop_error_http AirdropSnapshotFailed = (500, \<lparr>he_code = ''snapshot_persistence_error'',
     he_message = ''could not persist alpha funding snapshot''\<rparr>)"

definition post_alpha_airdrop ::
  "('db, 'x) ext_scheme \<Rightarrow> bool \<Rightarrow> (string \<times> u128) option \<Rightarrow> ('db, 'm) chain_state_scheme
     \<Rightarrow> ('db, 'm) chain_state_scheme \<times> nat \<times> (http_error + airdrop_report)" where
  "post_alpha_airdrop X enabled body g =
     (case body of
        None \<Rightarrow> (g, 400, Inl \<lparr>he_code = ''malformed_request'',
          he_message = ''request body must be a JSON object with address and amount''\<rparr>)
      | Some (a, amt) \<Rightarrow>
          (case alpha_airdrop X enabled a amt g of
             (g', Inr rep) \<Rightarrow> (g', 200, Inr rep)
           | (g', Inl e) \<Rightarrow> (case airdrop_error_http e of (code, err) \<Rightarrow> (g', code, Inl err))))"

end
