(* ===== verification/Api_Props.thy ===== *)
theory Api_Props
  imports Node_Api Mempool_Props Chain_Props
begin

text \<open>
  The HTTP operations on a running node: a submission against a reached chain and an admitted pool,
  and what the local funding endpoint does to the accounts.
\<close>

section \<open>Submission\<close>

lemma submit_http:
  "submit_transaction_http X g p (Some t) =
     (case admit X t (nonce_of g (sender_pubkey t)) p of
        (p', Inr d) \<Rightarrow> (p', submission_answer (SubmissionAccepted (canonical_tx_id X t) (nonce_of g (sender_pubkey t)) d))
      | (p', Inl e) \<Rightarrow> (p', submission_answer (SubmissionRejected (canonical_tx_id X t) (nonce_of g (sender_pubkey t)) e)))"
  by (simp add: submit_transaction_http_def submit_transaction_def Let_def split: prod.split sum.split)

text \<open>The error codes tell the kinds of rejection apart.\<close>

lemma signature_codes_differ: "inj (\<lambda>e. he_code (tx_signature_error_http e))"
proof (rule injI)
  fix a b show "he_code (tx_signature_error_http a) = he_code (tx_signature_error_http b) \<Longrightarrow> a = b"
    by (cases a; cases b) simp_all
qed

lemma signature_code_new:
  "(\<nexists>y. e = SignatureError y) \<Longrightarrow>
     he_code (tx_validation_error_http e) \<noteq> he_code (tx_signature_error_http x)"
  by (cases x; cases e) simp_all

lemma validation_codes_differ: "inj (\<lambda>e. he_code (tx_validation_error_http e))"
proof (rule injI)
  fix a b assume eq: "he_code (tx_validation_error_http a) = he_code (tx_validation_error_http b)"
  show "a = b"
  proof (cases "(\<exists>x. a = SignatureError x) \<or> (\<exists>x. b = SignatureError x)")
    case True
    then obtain x y where "a = SignatureError x" "b = SignatureError y"
      using eq signature_code_new [of a] signature_code_new [of b] by (metis tx_validation_error_http.simps(10))
    then show ?thesis using eq signature_codes_differ [THEN injD, of x y] by simp
  next
    case False
    then show ?thesis using eq by (cases a; cases b) simp_all
  qed
qed

text \<open>C38: submitting a transaction over HTTP, on a node with a reached chain. The answer names the
  sender's nonce, which is the number of transactions the sender has on the canonical chain. It is 200
  exactly when the transaction is statelessly valid, is new to the pool, carries that nonce or the
  next one, and pays a strictly greater tip than a pooled transaction of the same sender and nonce;
  otherwise it is 422 with an error, and the pool is as before.\<close>

theorem submission_decided_by_chain:
  assumes "reached X ht m" "pool_reached X False p" "submit_transaction_http X m p (Some t) = (p', r)"
  shows "\<exists>n. sr_current_nonce r = Some n \<and> unat n = (\<Sum>b\<leftarrow>blocks m. senders_in (sender_pubkey t) b)
    \<and> (sr_status_code r = 200 \<longleftrightarrow>
         validate_tx_stateless X t = Inr () \<and> \<not> has p (canonical_tx_id X t)
         \<and> n \<le> tx_nonce t \<and> unat (tx_nonce t) \<le> unat n + 1
         \<and> (\<forall>i u. pool_get p i = Some u \<longrightarrow>
              sender_pubkey u = sender_pubkey t \<and> tx_nonce u = tx_nonce t \<longrightarrow> tip u < tip t))
    \<and> (sr_status_code r \<noteq> 200 \<longrightarrow> p' = p \<and> sr_status_code r = 422 \<and> sr_error r \<noteq> None)"
proof -
  let ?n = "nonce_of m (sender_pubkey t)"
  note policy = admit_decides [OF assms(2), of t ?n]
  have nonce: "unat ?n = (\<Sum>b\<leftarrow>blocks m. senders_in (sender_pubkey t) b)" by (rule reached_nonce_count [OF assms(1)])
  show ?thesis
  proof (cases "snd (admit X t ?n p)")
    case (Inl e)
    then have "p' = p" "r = submission_answer (SubmissionRejected (canonical_tx_id X t) ?n e)"
      using assms(3) policy by (auto simp: submit_http split: prod.splits)
    then show ?thesis using policy Inl nonce by auto
  next
    case (Inr d)
    then have "r = submission_answer (SubmissionAccepted (canonical_tx_id X t) ?n d)"
      using assms(3) by (auto simp: submit_http split: prod.splits)
    then show ?thesis using policy Inr nonce by auto
  qed
qed

lemma light_reached: "reached light_ext demo_ht demo_state"
proof -
  have "sled_apply_batch light_ext [] (extension_batch light_ext genesis_block) = (demo_db, True)"
    by (simp add: demo_db_def ref_ext_def light_ext_def extension_batch_def)
  then have "apply_block light_ext genesis_block None (start_machine [] (\<lambda>_. 1)) = Ret (demo_state, CanonExtension 0)"
    by (simp add: apply_genesis_block demo_state_def)
  then show ?thesis by (rule reached_genesis [where ht = demo_ht, OF demo_ht_genesis])
qed

theorem submission_decided_by_chain_witness:
  "sr_status_code (snd (submit_transaction_http light_ext demo_state pool_one (Some (tipped 0 4)))) = 422
    \<and> fst (submit_transaction_http light_ext demo_state pool_one (Some (tipped 0 4))) = pool_one"
proof -
  have "has pool_one (canonical_tx_id light_ext (tipped 0 4))"
    by (simp add: pool_one_eq has_def bt_lookup_def)
  then show ?thesis
    using submission_decided_by_chain [OF light_reached pool_one_reached surjective_pairing, of "tipped 0 4"] by auto
qed

section \<open>Local funding\<close>

lemma put_back_balance:
  assumes "bt_wf m"
  shows "(case bt_lookup m a of Some v \<Rightarrow> bt_insert a v (bt_insert a w m) | None \<Rightarrow> bt_remove a (bt_insert a w m)) = m"
proof -
  let ?r = "case bt_lookup m a of Some v \<Rightarrow> bt_insert a v (bt_insert a w m) | None \<Rightarrow> bt_remove a (bt_insert a w m)"
  have wf: "bt_wf ?r" using assms by (simp split: option.split)
  have "bt_lookup ?r = bt_lookup m" by (auto simp: fun_eq_iff split: option.split)
  then show ?thesis using bt.entries_ext [OF wf assms] by (simp add: bt_entries_def)
qed

text \<open>A failed grant leaves everything but the store alone; a granted one changes one balance, the
  cached root and the store.\<close>

lemma airdrop_outcome:
  assumes wf: "bt_wf (balances g)" and r: "alpha_airdrop X enabled a amt g = (g', res)"
  shows "(\<exists>e d. res = Inl e \<and> g' = g\<lparr>db := d\<rparr>)
    \<or> (\<exists>root d. res = Inr \<lparr>ar_address = a, ar_amount = amt, ar_balance = balance_of g' a,
           ar_tip_height = current_height g, ar_root = root\<rparr>
         \<and> enabled \<and> amt \<noteq> 0 \<and> length a = 64 \<and> is_lowercase_hex a
         \<and> g' = (credit_balance a amt g)\<lparr>cached_state_root := Some (current_height g, root), db := d\<rparr>)"
proof (cases "\<not> enabled \<or> length a \<noteq> 64 \<or> \<not> is_lowercase_hex a \<or> amt = 0")
  case True
  then have "(\<exists>e. res = Inl e) \<and> g' = g\<lparr>db := db g\<rparr>" using r by (auto simp: alpha_airdrop_def split: if_splits)
  then show ?thesis by blast
next
  case False
  let ?g1 = "credit_balance a amt g"
  have h: "current_height ?g1 = current_height g" by (simp add: current_height_def credit_balance_def)
  have bal: "balances ?g1 = bt_insert a (saturating_add (balance_of g a) amt) (balances g)"
    by (simp add: credit_balance_def)
  have restored: "(case bt_lookup (balances g) a of Some v \<Rightarrow> bt_insert a v (balances ?g1) | None \<Rightarrow> bt_remove a (balances ?g1))
      = balances g"
    unfolding bal by (rule put_back_balance [OF wf])
  show ?thesis
  proof (cases "compute_state_root X (balances ?g1) (nonces ?g1)")
    case (Inl e)
    then have "res = Inl AirdropRootFailed \<and> g' = g\<lparr>db := db g\<rparr>"
      using r False restored by (simp add: alpha_airdrop_def Let_def cong: option.case_cong) (simp add: credit_balance_def)
    then show ?thesis by blast
  next
    case root: (Inr root)
    obtain d sr where s: "save_snapshot X (current_height g) (?g1\<lparr>cached_state_root := Some (current_height g, root)\<rparr>)
        = (?g1\<lparr>cached_state_root := Some (current_height g, root), db := d\<rparr>, sr)"
      using save_snapshot_frame [of X "current_height g" "?g1\<lparr>cached_state_root := Some (current_height g, root)\<rparr>"] by auto
    show ?thesis
    proof (cases sr)
      case (Inl e)
      then have "res = Inl AirdropSnapshotFailed \<and> g' = g\<lparr>db := d\<rparr>"
        using r False restored root s h
        by (simp add: alpha_airdrop_def Let_def cong: option.case_cong) (simp add: credit_balance_def)
      then show ?thesis by blast
    next
      case (Inr u)
      then show ?thesis
        using r False root s h by (auto simp: alpha_airdrop_def Let_def)
    qed
  qed
qed

lemma saturating_grows:
  assumes "(amt :: u128) \<noteq> 0" "old \<noteq> - 1"
  shows "saturating_add old amt \<noteq> old"
proof -
  have "unat old \<noteq> unat (- 1 :: u128)" using assms(2) by (metis word_unat_eq_iff)
  moreover have "unat old \<le> unat (- 1 :: u128)" by (rule word_le_nat_alt [THEN iffD1]) simp
  ultimately have "unat old < 2 ^ 128 - 1" by (simp add: unsigned_minus_1_eq_mask mask_eq_exp_minus_1)
  moreover have "0 < unat amt" using assms(1) by (simp add: unat_gt_0)
  ultimately have "unat (saturating_add old amt) \<noteq> unat old" by (simp add: unat_saturating_add)
  then show ?thesis by auto
qed

lemma supply_credit:
  assumes "bt_wf (balances g)"
  shows "supply_of (balances (credit_balance a amt g)) + unat (balance_of g a)
    = supply_of (balances g) + unat (saturating_add (balance_of g a) amt)"
  using bt_total_insert [OF assms, of unat a "saturating_add (balance_of g a) amt"]
  by (simp add: supply_of_def credit_balance_def balance_of_def split: option.splits)

text \<open>C39: the local funding endpoint mints outside the chain. Whatever it answers, the blocks, their
  index and the nonces stay; a refused or failed grant leaves the accounts and the cached root as
  they were, the store aside. A granted one needs the switch, a canonical address and a positive
  amount, adds the amount to that one balance, saturating, and to the supply; from then on the
  accounts of the node are not those its blocks replay to.\<close>

theorem airdrop_mints_outside_chain:
  assumes "reached X ht m" "alpha_airdrop X enabled a amt m = (m', res)"
  shows "blocks m' = blocks m \<and> canon_index m' = canon_index m \<and> nonces m' = nonces m
    \<and> (case res of
         Inl e \<Rightarrow> balances m' = balances m \<and> cached_state_root m' = cached_state_root m
       | Inr rep \<Rightarrow> enabled \<and> length a = 64 \<and> is_lowercase_hex a \<and> amt \<noteq> 0
           \<and> ar_balance rep = balance_of m' a \<and> balance_of m' a = saturating_add (balance_of m a) amt
           \<and> (\<forall>b. b \<noteq> a \<longrightarrow> balance_of m' b = balance_of m b)
           \<and> supply_of (balances m') + unat (balance_of m a) = supply_of (balances m) + unat (balance_of m' a)
           \<and> (balance_of m a \<noteq> - 1 \<longrightarrow> replay_blocks X tx_execution_state_new (blocks m') \<noteq> Inr (account_state m')))"
proof -
  have led: "replay_blocks X tx_execution_state_new (blocks m) = Inr (account_state m)"
    by (rule reached_ledger [OF assms(1)])
  have wf: "bt_wf (balances m)" using replay_blocks_wf [OF es_wf_new led] by (simp add: es_wf_def account_state_def)
  from airdrop_outcome [OF wf assms(2)] show ?thesis
  proof (elim disjE exE conjE)
    fix e d assume "res = Inl e" "m' = m\<lparr>db := d\<rparr>"
    then show ?thesis by simp
  next
    fix root d
    assume res: "res = Inr \<lparr>ar_address = a, ar_amount = amt, ar_balance = balance_of m' a,
           ar_tip_height = current_height m, ar_root = root\<rparr>"
      and ok: "enabled" "amt \<noteq> 0" "length a = 64" "is_lowercase_hex a"
      and m': "m' = (credit_balance a amt m)\<lparr>cached_state_root := Some (current_height m, root), db := d\<rparr>"
    have bal: "balances m' = balances (credit_balance a amt m)" by (simp add: m')
    have val: "balance_of m' b = balance_of (credit_balance a amt m) b" for b by (simp add: balance_of_def bal)
    have keep: "blocks m' = blocks m" "canon_index m' = canon_index m" "nonces m' = nonces m"
      by (simp_all add: m' credit_balance_def)
    have "account_state m' \<noteq> account_state m" if "balance_of m a \<noteq> - 1"
    proof
      assume "account_state m' = account_state m"
      then have "balance_of m' a = balance_of m a" by (simp add: account_state_def balance_of_def)
      then show False using saturating_grows [OF ok(2) that] by (simp add: val)
    qed
    then show ?thesis using res ok keep led supply_credit [OF wf, of a amt] by (auto simp: val bal)
  qed
qed

lemma ref_insert_all: "snd (insert_all ref_ext d kvs)"
  by (induction kvs arbitrary: d) (auto simp: ref_ext_def)

theorem airdrop_mints_outside_chain_witness:
  "\<exists>m' rep. alpha_airdrop ref_ext True (demo_addr (CHR ''a'')) 7 demo_state = (m', Inr rep)
    \<and> blocks m' = [genesis_block] \<and> balance_of m' (demo_addr (CHR ''a'')) = 7"
proof -
  obtain m' res where r: "alpha_airdrop ref_ext True (demo_addr (CHR ''a'')) 7 demo_state = (m', res)" by fastforce
  have b: "balances demo_state = []" "nonces demo_state = []"
    by (simp_all add: demo_state_def genesis_machine_def push_canonical_def)
  have c: "balances (credit_balance (demo_addr (CHR ''a'')) 7 demo_state) = [(demo_addr (CHR ''a''), 7)]"
    "nonces (credit_balance (demo_addr (CHR ''a'')) 7 demo_state) = []"
    by (simp_all add: credit_balance_def b balance_of_def saturating_add_def)
  have "\<not> isl (compute_state_root ref_ext [(demo_addr (CHR ''a''), 7)] [])" by code_simp
  then obtain root where root: "compute_state_root ref_ext [(demo_addr (CHR ''a''), 7)] [] = Inr root"
    by (cases "compute_state_root ref_ext [(demo_addr (CHR ''a''), 7)] []") auto
  have addr: "length (demo_addr (CHR ''a'')) = 64" "is_lowercase_hex (demo_addr (CHR ''a''))" by code_simp+
  have saved: "snd (save_snapshot ref_ext h (g :: ref_db machine)) = Inr ()"
    if "balances g = [(demo_addr (CHR ''a''), 7)]" "nonces g = []" for h g
    using that root ref_insert_all [of "db g" "snapshot_entries ref_ext g h root"]
    by (auto simp: save_snapshot_def split: prod.split)
  let ?g = "(credit_balance (demo_addr (CHR ''a'')) 7 demo_state)\<lparr>cached_state_root :=
    Some (current_height (credit_balance (demo_addr (CHR ''a'')) 7 demo_state), root)\<rparr>"
  have "snd (save_snapshot ref_ext (current_height (credit_balance (demo_addr (CHR ''a'')) 7 demo_state)) ?g) = Inr ()"
    by (rule saved) (simp_all add: c)
  then have "\<exists>rep. res = Inr rep"
    using r root addr by (auto simp: alpha_airdrop_def Let_def c split: prod.splits sum.splits if_splits)
  then show ?thesis
    using airdrop_mints_outside_chain [OF demo_reached r] r b
    by (auto simp: balance_of_def bt_lookup_def saturating_add_def)
qed

end
