(* ===== verification/Settings.thy ===== *)
theory Settings
  imports Net_Parse Services
begin

text \<open>
  \<open>config/settings.rs\<close>: the settings read from named variables, with the errors in the order
  the code meets them, and the automatic listen port of \<open>node/services.rs\<close>. The environment is a
  function from names to texts; printing of addresses is a parameter.
\<close>

datatype settings_error =
    InvalidBoolean string string
  | InvalidAdvertisedHost string
  | InvalidAdvertisedPort string
  | AdvertisedHostWithoutPort string
  | AdvertisedPortWithoutHost string
  | InvalidSeedPeersValue string
  | InvalidSeedPeerEntry string

record settings =
  data_dir :: string
  http_addr :: string
  p2p_addr :: string
  p2p_auto_port :: bool
  p2p_advertised_host :: "string option"
  p2p_advertised_port :: "u16 option"
  p2p_advertised_port_auto :: bool
  set_allow_private :: bool
  miner_address :: string
  mining_enabled :: bool
  mining_threads :: u64
  alpha_airdrop_enabled :: bool
  seed_peers :: "string list"

section \<open>Parsers\<close>

definition DEFAULT_HTTP_PORT :: u16 where "DEFAULT_HTTP_PORT = 7070"
definition DEFAULT_P2P_PORT :: u16 where "DEFAULT_P2P_PORT = 7072"

definition DEFAULT_SEED_PEERS :: "string list" where
  "DEFAULT_SEED_PEERS =
     [''16.163.123.221:7072'', ''69.173.206.211:7072'', ''69.173.207.135:7072'',
      ''75.128.156.69:7072'', ''98.97.137.74:7072'', ''182.106.66.15:7072'']"

text \<open>\<open>str::parse\<close> for a 16-bit number: the 64-bit parser and a range check.\<close>

definition parse_u16 :: "string \<Rightarrow> u16 option" where
  "parse_u16 s = (case parse_u64 s of None \<Rightarrow> None | Some n \<Rightarrow> if n < 65536 then Some (ucast n) else None)"

definition eq_ignore_ascii_case :: "string \<Rightarrow> string \<Rightarrow> bool" where
  "eq_ignore_ascii_case a b = (to_ascii_lowercase a = to_ascii_lowercase b)"

definition parse_p2p_port :: "string option \<Rightarrow> u16 \<times> bool" where
  "parse_p2p_port raw =
     (case raw of
        Some v \<Rightarrow>
          if eq_ignore_ascii_case v ''auto'' then (0, True)
          else (case parse_u16 v of None \<Rightarrow> DEFAULT_P2P_PORT | Some p \<Rightarrow> p, False)
      | None \<Rightarrow> (DEFAULT_P2P_PORT, False))"

definition parse_explicit_bool :: "string \<Rightarrow> string option \<Rightarrow> bool \<Rightarrow> settings_error + bool" where
  "parse_explicit_bool name raw dflt =
     (case raw of
        None \<Rightarrow> Inr dflt
      | Some v \<Rightarrow>
          if eq_ignore_ascii_case v ''true'' then Inr True
          else if eq_ignore_ascii_case v ''false'' then Inr False
          else Inl (InvalidBoolean name v))"

definition host_char :: "char \<Rightarrow> bool" where
  "host_char c = (let k = of_char c :: nat in
     97 \<le> k \<and> k \<le> 122 \<or> 65 \<le> k \<and> k \<le> 90 \<or> 48 \<le> k \<and> k \<le> 57 \<or> c = CHR ''.'' \<or> c = CHR ''-'')"

definition parse_advertised_host :: "string \<Rightarrow> settings_error + string" where
  "parse_advertised_host v =
     (let host = trim v
      in if host = [] then Inl (InvalidAdvertisedHost v)
         else if CHR '':'' \<in> set host \<and> parse_ip host = None then Inl (InvalidAdvertisedHost v)
         else if parse_ip host \<noteq> None \<or> list_all host_char host then Inr host
         else Inl (InvalidAdvertisedHost v))"

definition parse_advertised_port :: "string \<Rightarrow> settings_error + u16 option \<times> bool" where
  "parse_advertised_port v =
     (if eq_ignore_ascii_case v ''auto'' then Inr (None, True)
      else (case parse_u16 v of
          Some p \<Rightarrow> if p > 0 then Inr (Some p, False) else Inl (InvalidAdvertisedPort v)
        | None \<Rightarrow> Inl (InvalidAdvertisedPort v)))"

text \<open>The host is checked before the port; only then whether both are given.\<close>

definition parse_p2p_advertised_identity ::
  "string option \<Rightarrow> string option \<Rightarrow> settings_error + string option \<times> u16 option \<times> bool" where
  "parse_p2p_advertised_identity host_raw port_raw =
     (case (case host_raw of None \<Rightarrow> Inr None | Some h \<Rightarrow> map_sum id Some (parse_advertised_host h)) of
        Inl e \<Rightarrow> Inl e
      | Inr host \<Rightarrow>
         (case (case port_raw of None \<Rightarrow> Inr None | Some p \<Rightarrow> map_sum id Some (parse_advertised_port p)) of
            Inl e \<Rightarrow> Inl e
          | Inr parsed \<Rightarrow>
             (case (host, parsed) of
                (None, None) \<Rightarrow> Inr (None, None, False)
              | (Some h, Some (port, auto_port)) \<Rightarrow> Inr (Some h, port, auto_port)
              | (Some _, None) \<Rightarrow> Inl (AdvertisedHostWithoutPort (the host_raw))
              | (None, Some _) \<Rightarrow> Inl (AdvertisedPortWithoutHost (the port_raw)))))"

fun split_seeds :: "string \<Rightarrow> string \<Rightarrow> string list" where
  "split_seeds cur [] = [rev cur]"
| "split_seeds cur (c # cs) =
     (if c = CHR '','' \<or> c = CHR '';'' \<or> c = CHR 0x0A then rev cur # split_seeds [] cs
      else split_seeds (c # cur) cs)"

fun check_seeds :: "string list \<Rightarrow> settings_error + string list" where
  "check_seeds [] = Inr []"
| "check_seeds (s # ss) =
     (if parse_socket_addr s = None then Inl (InvalidSeedPeerEntry s)
      else map_sum id (\<lambda>r. s # r) (check_seeds ss))"

definition parse_seed_peers :: "string option \<Rightarrow> settings_error + string list" where
  "parse_seed_peers raw =
     (case raw of
        None \<Rightarrow> Inr DEFAULT_SEED_PEERS
      | Some v \<Rightarrow>
          if v = [] then Inr []
          else (case check_seeds (filter (\<lambda>s. s \<noteq> []) (map trim (split_seeds [] v))) of
              Inl e \<Rightarrow> Inl e
            | Inr ps \<Rightarrow> if ps = [] then Inl (InvalidSeedPeersValue v) else Inr ps))"

definition parse_miner_address :: "string option \<Rightarrow> string" where
  "parse_miner_address raw =
     (case raw of
        None \<Rightarrow> replicate 64 (CHR ''0'')
      | Some v \<Rightarrow> if length v = 64 \<and> is_lowercase_hex v then v else replicate 64 (CHR ''0''))"

text \<open>\<open>v == "1" || v.to_lowercase() == "true"\<close>; only ASCII letters have a lower case in
  \<open>true\<close>.\<close>

definition loose_bool :: "string option \<Rightarrow> bool" where
  "loose_bool raw = (case raw of None \<Rightarrow> False | Some v \<Rightarrow> v = ''1'' \<or> to_ascii_lowercase v = ''true'')"

definition settings_from_source :: "(string \<Rightarrow> string option) \<Rightarrow> settings_error + settings" where
  "settings_from_source env =
     (case parse_p2p_advertised_identity (env ''VISION_P2P_ADVERTISED_HOST'') (env ''VISION_P2P_ADVERTISED_PORT'') of
        Inl e \<Rightarrow> Inl e
      | Inr (host, port, auto_adv) \<Rightarrow>
         (case parse_p2p_port (env ''VISION_P2P_PORT'') of (p2p_port, auto_port) \<Rightarrow>
           (case parse_explicit_bool ''VISION_ALLOW_PRIVATE_PEERS'' (env ''VISION_ALLOW_PRIVATE_PEERS'') True of
              Inl e \<Rightarrow> Inl e
            | Inr allow \<Rightarrow>
               (case parse_seed_peers (env ''VISION_SEED_PEERS'') of
                  Inl e \<Rightarrow> Inl e
                | Inr seeds \<Rightarrow> Inr
                   \<lparr>data_dir = (case env ''VISION_DATA_DIR'' of None \<Rightarrow> ''./data'' | Some d \<Rightarrow> d),
                    http_addr = ''0.0.0.0:'' @ u16_to_string
                      (case Option.bind (env ''VISION_HTTP_PORT'') parse_u16 of None \<Rightarrow> DEFAULT_HTTP_PORT | Some p \<Rightarrow> p),
                    p2p_addr = ''0.0.0.0:'' @ u16_to_string p2p_port,
                    p2p_auto_port = auto_port,
                    p2p_advertised_host = host,
                    p2p_advertised_port = port,
                    p2p_advertised_port_auto = auto_adv,
                    set_allow_private = allow,
                    miner_address = parse_miner_address (env ''VISION_MINER_ADDRESS''),
                    mining_enabled = loose_bool (env ''VISION_MINING''),
                    mining_threads =
                      (case Option.bind (env ''VISION_MINING_THREADS'') parse_u64 of None \<Rightarrow> 0 | Some n \<Rightarrow> n),
                    alpha_airdrop_enabled = loose_bool (env ''VISION_ALPHA_AIRDROP_ENABLED''),
                    seed_peers = seeds\<rparr>))))"

section \<open>The automatic port\<close>

definition set_port :: "u16 \<Rightarrow> socket_addr \<Rightarrow> socket_addr" where
  "set_port p a = (case a of SocketV4 i _ \<Rightarrow> SocketV4 i p | SocketV6 i _ s \<Rightarrow> SocketV6 i p s)"

datatype auto_port_error = BadListenAddr | NoRoutedIp

definition resolve_auto_p2p_settings_for_ip ::
  "('db, 'x) ext_scheme \<Rightarrow> (ip_addr \<Rightarrow> string) \<Rightarrow> (socket_addr \<Rightarrow> string) \<Rightarrow> ip_addr option \<Rightarrow> settings
     \<Rightarrow> settings \<times> (auto_port_error + unit)" where
  "resolve_auto_p2p_settings_for_ip X show_ip show_addr routed s =
     (case parse_socket_addr (p2p_addr s) of
        None \<Rightarrow> (s, Inl BadListenAddr)
      | Some listen \<Rightarrow>
          if p2p_auto_port s \<and> routed = None then (s, Inl NoRoutedIp)
          else
            (let listen1 = (if p2p_auto_port s
                   then set_port (auto_p2p_port_for_ip X show_ip (the routed)) listen else listen);
                 s1 = (if p2p_auto_port s then s\<lparr>p2p_addr := show_addr listen1\<rparr> else s)
             in (if p2p_advertised_port_auto s1
                 then s1\<lparr>p2p_advertised_port := Some (socket_port listen1)\<rparr> else s1, Inr ())))"

section \<open>What accepted settings are good for\<close>

lemma check_seeds_parse: "check_seeds ss = Inr r \<Longrightarrow> \<forall>a\<in>set r. parse_socket_addr a \<noteq> None"
proof (induction ss arbitrary: r)
  case (Cons a ss)
  then show ?case by (cases "check_seeds ss") (auto split: if_splits)
qed simp

lemma default_seeds_parse: "\<forall>a\<in>set DEFAULT_SEED_PEERS. parse_socket_addr a \<noteq> None"
  by code_simp

lemma seeds_parse: "parse_seed_peers raw = Inr r \<Longrightarrow> \<forall>a\<in>set r. parse_socket_addr a \<noteq> None"
  using default_seeds_parse check_seeds_parse
  by (fastforce simp: parse_seed_peers_def split: option.splits if_splits sum.splits)

lemma miner_address_canonical:
  "length (parse_miner_address raw) = 64 \<and> is_lowercase_hex (parse_miner_address raw)"
proof -
  have "is_lowercase_hex (replicate 64 (CHR ''0''))" by code_simp
  then show ?thesis by (simp add: parse_miner_address_def split: option.split)
qed

lemma advertised_port_positive: "parse_advertised_port v = Inr (p, auto_port) \<Longrightarrow> p \<noteq> Some 0 \<and> (p = None \<longleftrightarrow> auto_port)"
  by (auto simp: parse_advertised_port_def split: if_splits option.splits) metis

lemma advertised_identity_complete:
  "parse_p2p_advertised_identity h q = Inr (host, port, auto_port) \<Longrightarrow>
     port \<noteq> Some 0 \<and> (host = None \<longleftrightarrow> port = None \<and> \<not> auto_port)"
  using advertised_port_positive
  by (fastforce simp: parse_p2p_advertised_identity_def map_sum_def split: option.splits sum.splits prod.splits)

lemma listen_text: "''0.0.0.0:'' @ u16_to_string p = socket_v4_text 0 0 0 0 p"
proof -
  have "ipv4_text 0 0 0 0 = ''0.0.0.0''" by code_simp
  then show ?thesis by (simp add: socket_v4_text_def)
qed

lemma settings_sound:
  assumes "settings_from_source env = Inr s"
  shows "(\<exists>p. parse_socket_addr (p2p_addr s) = Some (SocketV4 (IpV4 0 0 0 0) p))
    \<and> length (miner_address s) = 64 \<and> is_lowercase_hex (miner_address s)
    \<and> (\<forall>a\<in>set (seed_peers s). parse_socket_addr a \<noteq> None)
    \<and> p2p_advertised_port s \<noteq> Some 0
    \<and> (p2p_advertised_host s = None \<longleftrightarrow> p2p_advertised_port s = None \<and> \<not> p2p_advertised_port_auto s)"
proof -
  obtain host port auto_adv p auto_port allow seeds where
    i: "parse_p2p_advertised_identity (env ''VISION_P2P_ADVERTISED_HOST'') (env ''VISION_P2P_ADVERTISED_PORT'')
        = Inr (host, port, auto_adv)"
    and q: "parse_seed_peers (env ''VISION_SEED_PEERS'') = Inr seeds"
    and f: "p2p_addr s = ''0.0.0.0:'' @ u16_to_string p" "miner_address s = parse_miner_address (env ''VISION_MINER_ADDRESS'')"
      "seed_peers s = seeds" "p2p_advertised_host s = host" "p2p_advertised_port s = port"
      "p2p_advertised_port_auto s = auto_adv"
    using assms by (auto simp: settings_from_source_def split: sum.splits prod.splits)
  show ?thesis
    unfolding f listen_text parse_socket_v4_text
    using miner_address_canonical seeds_parse [OF q] advertised_identity_complete [OF i] by blast
qed

text \<open>The automatic port is always between 20000 and 59999, and the advertised one follows it.\<close>

lemma auto_port_range: "20000 \<le> auto_p2p_port_for_ip X show_ip ip \<and> auto_p2p_port_for_ip X show_ip ip < 60000"
proof -
  obtain x where x: "auto_p2p_port_for_ip X show_ip ip = AUTO_P2P_PORT_MIN + x mod AUTO_P2P_PORT_SPAN"
    by (simp add: auto_p2p_port_for_ip_def Let_def)
  have "unat (x mod AUTO_P2P_PORT_SPAN) < 40000" by (simp add: AUTO_P2P_PORT_SPAN_def unat_mod_distrib)
  moreover have "unat AUTO_P2P_PORT_MIN = 20000" by (simp add: AUTO_P2P_PORT_MIN_def)
  ultimately have "unat (auto_p2p_port_for_ip X show_ip ip) < 60000 \<and> 20000 \<le> unat (auto_p2p_port_for_ip X show_ip ip)"
    unfolding x by (simp add: unat_plus_small)
  then show ?thesis by (simp add: word_le_nat_alt word_less_nat_alt)
qed

end
