(* ===== verification/Seed_Loop.thy ===== *)
theory Seed_Loop
  imports Connection Services
begin

text \<open>
  \<open>seed_peer_loop\<close> of \<open>node/services.rs\<close>, the task that keeps one outbound peer: dial, shake
  hands, register the session, then rounds of flushing the session's queue, polling the peer's
  summary, synchronising when it is ahead, and a ping. A round is one step over the node's state; the
  result of a dial, the link a synchronisation opens, the time of the ping and the clock of a round
  are its inputs.
\<close>

record 'db seed_state =
  sl_machine :: "'db machine"
  sl_pool :: pool
  sl_peers :: peer_registry
  sl_sessions :: session_registry
  sl_recovery :: recovery_state
  sl_guard :: sync_guard
  sl_session :: outbound_session
  sl_offers :: "string list"

record round_input =
  ri_connected :: bool
  ri_link :: link
  ri_timestamp :: u64
  ri_clock :: "nat \<Rightarrow> instant"

section \<open>The handshake\<close>

text \<open>The generation of the registered session, if the peer was accepted.\<close>

definition seed_refused :: "string \<Rightarrow> 'db seed_state \<Rightarrow> 'db seed_state" where
  "seed_refused a s = s\<lparr>sl_peers := set_state a Disconnected (sl_peers s)\<rparr>"

definition seed_accepted :: "string \<Rightarrow> handshake \<Rightarrow> 'db seed_state \<Rightarrow> 'db seed_state \<times> u64 option" where
  "seed_accepted a hs s =
     (case register a (sl_sessions s) of
        (ss, generation) \<Rightarrow>
          (case link_now (os_link (sl_session s)) of
             (l, now) \<Rightarrow>
               (s\<lparr>sl_sessions := ss,
                  sl_offers := sl_offers s @ take 32 (hs_seed_peers hs),
                  sl_session := (sl_session s)\<lparr>os_link := l\<rparr>,
                  sl_peers := note_peer_height a (hs_chain_height hs) now
                    (connect_session a generation (upsert a True (sl_peers s)))\<rparr>,
                Some generation)))"

definition seed_handshake ::
  "('db, 'x) ext_scheme \<Rightarrow> conn_manager \<Rightarrow> string \<Rightarrow> 'db seed_state \<Rightarrow> 'db seed_state \<times> u64 option" where
  "seed_handshake X cm a s =
     (case os_send (MsgHandshake (local_handshake X cm (sl_peers s) (current_height (sl_machine s)))) (sl_session s) of
        (o1, Inl e) \<Rightarrow> (seed_refused a (s\<lparr>sl_session := o1\<rparr>), None)
      | (o1, Inr _) \<Rightarrow>
         (case link_recv_wait (os_link o1) of
            (l, ev) \<Rightarrow>
             (let s1 = s\<lparr>sl_session := o1\<lparr>os_link := l\<rparr>\<rparr> in
              case ev of
                RecvMsg (MsgHandshake hs) \<Rightarrow>
                  (case validate_handshake X hs (local_node_nonce cm) of
                     Accepted \<Rightarrow> seed_accepted a hs s1
                   | other \<Rightarrow>
                       (seed_refused a (s1\<lparr>sl_session :=
                          fst (os_send (MsgDisconnect (handshake_reject_reason other)) (sl_session s1))\<rparr>), None))
              | _ \<Rightarrow> (seed_refused a s1, None))))"

section \<open>A round\<close>

text \<open>The queue of a session holds at most \<open>SESSION_OUTBOUND_CAPACITY\<close> messages, which bounds the
  loop.\<close>

fun flush_queue :: "nat \<Rightarrow> string \<Rightarrow> u64 \<Rightarrow> 'db seed_state \<Rightarrow> 'db seed_state \<times> bool" where
  "flush_queue 0 a g s = (s, True)"
| "flush_queue (Suc n) a g s =
     (case session_recv a g (sl_sessions s) of
        (ss, None) \<Rightarrow> (s\<lparr>sl_sessions := ss\<rparr>, True)
      | (ss, Some m) \<Rightarrow>
          (case os_send m (sl_session s) of
             (o1, Inl e) \<Rightarrow> (s\<lparr>sl_sessions := ss, sl_session := o1\<rparr>, False)
           | (o1, Inr _) \<Rightarrow> flush_queue n a g (s\<lparr>sl_sessions := ss, sl_session := o1\<rparr>)))"

text \<open>The synchronisation of a round, over a connection of its own. The flag tells whether the session
  goes on.\<close>

definition seed_sync ::
  "('db, 'x) ext_scheme \<Rightarrow> conn_manager \<Rightarrow> string \<Rightarrow> round_input \<Rightarrow> chain_summary \<Rightarrow> 'db seed_state
     \<Rightarrow> ('db seed_state \<times> bool) outcome" where
  "seed_sync X cm a i remote s =
     (let local_s = summary_from_chain (sl_machine s);
          s1 = s\<lparr>sl_recovery := round_claim a local_s remote (ri_clock i 0) (sl_recovery s)\<rparr>
      in if \<not> round_sync_due local_s remote (ri_clock i 1) (sl_guard s1) then Ret (s1, True)
         else (case live_sync_from_peer X cm a (ri_connected i)
                 \<lparr>sy_machine = sl_machine s1, sy_peers = sl_peers s1, sy_pool = Some (sl_pool s1), sy_link = ri_link i\<rparr> of
              Panic \<Rightarrow> Panic
            | OutOfFuel \<Rightarrow> OutOfFuel
            | Ret (y, res) \<Rightarrow>
                Ret (s1\<lparr>sl_machine := sy_machine y, sl_peers := sy_peers y,
                        sl_pool := (case sy_pool y of None \<Rightarrow> sl_pool s1 | Some p \<Rightarrow> p),
                        sl_guard := mark_done (ri_clock i 2) (mark_started (sl_guard s1)),
                        sl_recovery := round_settle local_s remote (summary_from_chain (sy_machine y)) res
                          (ri_clock i 3) (sl_recovery s1)\<rparr>,
                     (case res of Inl _ \<Rightarrow> False | Inr _ \<Rightarrow> True))))"

definition seed_keepalive :: "string \<Rightarrow> round_input \<Rightarrow> 'db seed_state \<Rightarrow> 'db seed_state \<times> bool" where
  "seed_keepalive a i s =
     (case os_send (MsgPing (ri_timestamp i)) (sl_session s) of
        (o1, Inl e) \<Rightarrow> (s\<lparr>sl_session := o1\<rparr>, False)
      | (o1, Inr _) \<Rightarrow>
         (case link_recv (os_link o1) of
            (l, ev) \<Rightarrow>
             (let o2 = o1\<lparr>os_link := l\<rparr> in
              case ev of
                RecvFailed \<Rightarrow> (s\<lparr>sl_session := o2\<rparr>, False)
              | RecvTimeout \<Rightarrow> (s\<lparr>sl_session := o2\<rparr>, False)
              | RecvMsg (MsgPong t) \<Rightarrow> (s\<lparr>sl_session := o2\<rparr>, True)
              | RecvMsg m \<Rightarrow>
                  (case handle_seed_session_message (sl_machine s) a m o2 of
                     (o3, Inl e) \<Rightarrow> (s\<lparr>sl_session := o3\<rparr>, False)
                   | (o3, Inr _) \<Rightarrow> (s\<lparr>sl_session := o3\<rparr>, True)))))"

definition seed_round ::
  "('db, 'x) ext_scheme \<Rightarrow> conn_manager \<Rightarrow> string \<Rightarrow> u64 \<Rightarrow> round_input \<Rightarrow> 'db seed_state
     \<Rightarrow> ('db seed_state \<times> bool) outcome" where
  "seed_round X cm a g i s =
     (case flush_queue SESSION_OUTBOUND_CAPACITY a g s of
        (s1, False) \<Rightarrow> Ret (s1, False)
      | (s1, True) \<Rightarrow>
         (case poll_peer_height (sl_machine s1) a (sl_peers s1) (sl_session s1) of
            (o1, r1, Inl e) \<Rightarrow> Ret (s1\<lparr>sl_session := o1, sl_peers := r1\<rparr>, False)
          | (o1, r1, Inr remote) \<Rightarrow>
             (case seed_sync X cm a i remote (s1\<lparr>sl_session := o1, sl_peers := r1\<rparr>) of
                Panic \<Rightarrow> Panic
              | OutOfFuel \<Rightarrow> OutOfFuel
              | Ret (s2, False) \<Rightarrow> Ret (s2, False)
              | Ret (s2, True) \<Rightarrow> Ret (seed_keepalive a i s2))))"

section \<open>The whole connection\<close>

definition seed_close :: "string \<Rightarrow> u64 \<Rightarrow> 'db seed_state \<Rightarrow> 'db seed_state" where
  "seed_close a g s =
     (case unregister a g (sl_sessions s) of
        (ss, None) \<Rightarrow> s\<lparr>sl_sessions := ss\<rparr>
      | (ss, Some latest) \<Rightarrow>
          s\<lparr>sl_sessions := ss, sl_peers := fst (disconnect_if_generation a latest (sl_peers s))\<rparr>)"

text \<open>As many rounds as there are inputs; the flag tells whether the session is still open after
  them.\<close>

fun seed_rounds ::
  "('db, 'x) ext_scheme \<Rightarrow> conn_manager \<Rightarrow> string \<Rightarrow> u64 \<Rightarrow> round_input list \<Rightarrow> 'db seed_state
     \<Rightarrow> ('db seed_state \<times> bool) outcome" where
  "seed_rounds X cm a g [] s = Ret (s, True)"
| "seed_rounds X cm a g (i # is) s =
     (case seed_round X cm a g i s of
        Panic \<Rightarrow> Panic
      | OutOfFuel \<Rightarrow> OutOfFuel
      | Ret (s1, True) \<Rightarrow> seed_rounds X cm a g is s1
      | Ret (s1, False) \<Rightarrow> Ret (seed_close a g s1, False))"

text \<open>One turn of the outer loop; \<open>dialled\<close> says whether the connection was established.\<close>

definition seed_connection ::
  "('db, 'x) ext_scheme \<Rightarrow> conn_manager \<Rightarrow> string \<Rightarrow> bool \<Rightarrow> round_input list \<Rightarrow> 'db seed_state
     \<Rightarrow> ('db seed_state \<times> bool) outcome" where
  "seed_connection X cm a dialled is s =
     (if \<not> dialled then Ret (seed_refused a s, False)
      else (case seed_handshake X cm a s of
          (s1, None) \<Rightarrow> Ret (s1, False)
        | (s1, Some g) \<Rightarrow> seed_rounds X cm a g is s1))"

end
