(* ===== verification/Seed_Props.thy ===== *)
theory Seed_Props
  imports Seed_Loop Sync_Props
begin

text \<open>
  An outbound connection over any number of rounds: it always returns, and whatever the peer sends the
  chain only moves forward.
\<close>

lemma flush_keeps: "flush_queue n a g s = (s', b) \<Longrightarrow> sl_machine s' = sl_machine s"
  by (induction n arbitrary: s) (auto split: prod.splits option.splits sum.splits)

lemma keepalive_keeps: "sl_machine (fst (seed_keepalive a i s)) = sl_machine s"
  by (auto simp: seed_keepalive_def Let_def split: prod.split sum.split recv_event.split p2p_message.split)

lemma handshake_keeps: "seed_handshake X cm a s = (s', r) \<Longrightarrow> sl_machine s' = sl_machine s"
  by (auto simp: seed_handshake_def seed_accepted_def seed_refused_def Let_def split: prod.splits sum.splits
      recv_event.splits p2p_message.splits handshake_result.splits)

lemma close_keeps: "sl_machine (seed_close a g s) = sl_machine s"
  by (simp add: seed_close_def split: prod.split option.split)

lemma live_sync_advances:
  assumes inv: "chain_inv X ht (sy_machine s)" and hon: "\<forall>b. MsgBlock b \<in> heard (sy_link s) \<longrightarrow> honest ht b"
  shows "\<exists>s' res. live_sync_from_peer X cm a connected s = Ret (s', res) \<and> advances X ht (sy_machine s) (sy_machine s')"
proof (cases rule: live_sync_imports [of X cm a connected s])
  case (1 s' e)
  then show ?thesis using advances_refl [OF inv] by simp
next
  case (2 s' remote)
  then show ?thesis using advances_refl [OF inv] by simp
next
  case (3 s1 remote h bs)
  have "\<forall>b\<in>set bs. honest ht b" using 3(5) hon by auto
  from import_all_result [OF inv this, of a 0 "sy_pool s"] obtain m' p' res where
    "import_fetched_blocks X a bs 0 (sy_machine s) (sy_pool s) = Ret (m', p', res)" "advances X ht (sy_machine s) m'"
    by blast
  then show ?thesis using 3(6) by simp
qed

lemma seed_sync_advances:
  assumes "chain_inv X ht (sl_machine s)" "\<forall>b. MsgBlock b \<in> heard (ri_link i) \<longrightarrow> honest ht b"
  shows "\<exists>s' b. seed_sync X cm a i remote s = Ret (s', b) \<and> advances X ht (sl_machine s) (sl_machine s')"
proof -
  let ?r = "round_claim a (summary_from_chain (sl_machine s)) remote (ri_clock i 0) (sl_recovery s)"
  let ?y = "\<lparr>sy_machine = sl_machine s, sy_peers = sl_peers s, sy_pool = Some (sl_pool s), sy_link = ri_link i\<rparr>"
  obtain y res where "live_sync_from_peer X cm a (ri_connected i) ?y = Ret (y, res)"
    "advances X ht (sl_machine s) (sy_machine y)"
    using live_sync_advances [of X ht ?y cm a "ri_connected i"] assms by auto
  then show ?thesis using advances_refl [OF assms(1)] by (auto simp: seed_sync_def Let_def)
qed

lemma seed_round_advances:
  assumes inv: "chain_inv X ht (sl_machine s)" and hon: "\<forall>b. MsgBlock b \<in> heard (ri_link i) \<longrightarrow> honest ht b"
  shows "\<exists>s' b. seed_round X cm a g i s = Ret (s', b) \<and> advances X ht (sl_machine s) (sl_machine s')"
proof -
  obtain s1 ok where f: "flush_queue SESSION_OUTBOUND_CAPACITY a g s = (s1, ok)" by fastforce
  note m1 = flush_keeps [OF f]
  obtain o1 r1 res where p: "poll_peer_height (sl_machine s1) a (sl_peers s1) (sl_session s1) = (o1, r1, res)"
    by (cases "poll_peer_height (sl_machine s1) a (sl_peers s1) (sl_session s1)") auto
  let ?s = "s1\<lparr>sl_session := o1, sl_peers := r1\<rparr>"
  show ?thesis
  proof (cases "ok \<and> (\<exists>remote. res = Inr remote)")
    case True
    then obtain remote where res: ok "res = Inr remote" by blast
    obtain s2 b where "seed_sync X cm a i remote ?s = Ret (s2, b)" "advances X ht (sl_machine s) (sl_machine s2)"
      using seed_sync_advances [of X ht ?s i cm a remote] inv hon m1 by auto
    then show ?thesis using f p res keepalive_keeps [of a i s2]
      by (cases b; cases "seed_keepalive a i s2") (auto simp: seed_round_def)
  next
    case False
    then show ?thesis using f p m1 advances_refl [OF inv]
      by (cases ok; cases res) (auto simp: seed_round_def)
  qed
qed

lemma seed_rounds_advance:
  assumes "chain_inv X ht (sl_machine s)" "\<forall>i\<in>set is. \<forall>b. MsgBlock b \<in> heard (ri_link i) \<longrightarrow> honest ht b"
  shows "\<exists>s' b. seed_rounds X cm a g is s = Ret (s', b) \<and> advances X ht (sl_machine s) (sl_machine s')"
  using assms
proof (induction "is" arbitrary: s)
  case Nil
  then show ?case using advances_refl [OF Nil(1)] by (simp add: exI [of _ True])
next
  case (Cons i "is")
  obtain s1 b where r: "seed_round X cm a g i s = Ret (s1, b)" "advances X ht (sl_machine s) (sl_machine s1)"
    using seed_round_advances [of X ht s i cm a g] Cons.prems by auto
  then have "chain_inv X ht (sl_machine s1)" by (simp add: advances_def)
  from Cons.IH [OF this] obtain s2 b2 where "seed_rounds X cm a g is s1 = Ret (s2, b2)"
    "advances X ht (sl_machine s1) (sl_machine s2)" using Cons.prems(2) by auto
  then show ?case using r by (cases b) (auto simp: close_keeps intro: advances_trans)
qed

lemma seed_connection_advances:
  assumes inv: "chain_inv X ht (sl_machine s)" and hon: "\<forall>i\<in>set is. \<forall>b. MsgBlock b \<in> heard (ri_link i) \<longrightarrow> honest ht b"
  shows "\<exists>s' b. seed_connection X cm a dialled is s = Ret (s', b) \<and> advances X ht (sl_machine s) (sl_machine s')"
proof -
  obtain s1 r where h: "seed_handshake X cm a s = (s1, r)" by fastforce
  note m1 = handshake_keeps [OF h]
  show ?thesis
  proof (cases "dialled \<and> r \<noteq> None")
    case True
    then obtain g where g: dialled "r = Some g" by blast
    then show ?thesis using seed_rounds_advance [of X ht s1 "is" cm a g] inv hon h m1 by (auto simp: seed_connection_def)
  next
    case False
    then show ?thesis using h m1 advances_refl [OF inv]
      by (cases dialled; cases r) (auto simp: seed_connection_def seed_refused_def)
  qed
qed

text \<open>A dial that fails marks the peer disconnected even while an inbound session of it is live.\<close>

lemma failed_dial_overrules_session:
  assumes "seed_connection X cm a False is s = Ret (s', b)" "bt_lookup (sl_peers s) a = Some p"
  shows "sl_sessions s' = sl_sessions s \<and> (\<exists>q. bt_lookup (sl_peers s') a = Some q \<and> state q = Disconnected)"
  using assms by (auto simp: seed_connection_def seed_refused_def set_state_def modify_peer_def clear_peer_summary_def)


text \<open>A node with one peer, connected by an inbound session.\<close>

definition seed_demo :: "ref_db seed_state" where
  "seed_demo =
     \<lparr>sl_machine = demo_state, sl_pool = pool_new,
      sl_peers = [(''1.2.3.4:7072'', (peer_new ''1.2.3.4:7072'' False)\<lparr>connection_generation := 1, state := Connected\<rparr>)],
      sl_sessions = fst (register ''1.2.3.4:7072'' sessions_new), sl_recovery = recovery_new, sl_guard = guard_new,
      sl_session = \<lparr>os_link = claiming_link, os_requested = None, os_queued = [], os_importer_open = True\<rparr>,
      sl_offers = []\<rparr>"

definition seed_input :: round_input where
  "seed_input = \<lparr>ri_connected = True, ri_link = claiming_link, ri_timestamp = 0, ri_clock = (\<lambda>_. 0)\<rparr>"


end
